(* ===== verification/Prelude.thy ===== *)
theory Prelude
  imports Main "HOL-Library.Word" "HOL-Library.Finite_Map"
begin

text \<open>
  What the components share: the machine types, the result type for code that may panic,
  the reading of Go's maps, arrays and byte encodings, and the generic lemmas on them.

  \<^item> A Go string is a byte sequence, here a \<open>char list\<close>; \<open>bytes_of\<close> is the conversion
    \<open>[]byte(s)\<close>.
  \<^item> A Go map is a finite map. A lookup of a missing key gives the zero value, which is
    the first argument of \<open>getd\<close>. The order in which \<open>range\<close> visits the keys is chosen by
    the runtime: a definition that depends on it takes it as an argument, and
    \<open>range_order\<close> says that a list is such an order.
  \<^item> A run-time panic is a value: \<open>'a go\<close> is either a panic or a result.
  \<^item> The digest function of \<open>crypto/sha256\<close> is an argument of the definitions that hash;
    the code copies its result into a \<open>[32]byte\<close>, which is \<open>copy32\<close>.
\<close>

section \<open>Types\<close>

type_synonym byte = "8 word"
type_synonym u32 = "32 word"
type_synonym u64 = "64 word"
type_synonym hash = "byte list"
type_synonym udpaddr = string
type_synonym digest = "byte list \<Rightarrow> byte list"

datatype panic = IndexOutOfRange | NilDereference | DivideByZero | InvalidArgument

type_synonym 'a go = "panic + 'a"

named_theorems go_simps \<open>evaluation of the Go primitives\<close>
named_theorems store_simps \<open>lookups in the rumor and private-message stores\<close>
named_theorems chain_simps \<open>reading block nodes and transaction sets\<close>

section \<open>Panicking computations\<close>

fun go_bind :: "'a go \<Rightarrow> ('a \<Rightarrow> 'b go) \<Rightarrow> 'b go" where
  "go_bind (Inl e) f = Inl e"
| "go_bind (Inr x) f = f x"

fun go_map :: "('a \<Rightarrow> 'b) \<Rightarrow> 'a go \<Rightarrow> 'b go" where
  "go_map f (Inl e) = Inl e"
| "go_map f (Inr x) = Inr (f x)"

text \<open>\<open>xs[i]\<close> on a slice: out of range panics.\<close>

definition slice_get :: "'a list \<Rightarrow> nat \<Rightarrow> 'a go" where
  "slice_get xs i = (if i < length xs then Inr (xs ! i) else Inl IndexOutOfRange)"

lemma slice_get_in [go_simps]: "i < length xs \<Longrightarrow> slice_get xs i = Inr (xs ! i)"
  by (simp add: slice_get_def)

lemma slice_get_Inr [simp]: "slice_get xs i = Inr x \<longleftrightarrow> i < length xs \<and> xs ! i = x"
  by (auto simp: slice_get_def)

lemma go_map_Inr [simp]: "go_map f m = Inr y \<longleftrightarrow> (\<exists>x. m = Inr x \<and> y = f x)"
  by (cases m) auto

lemma go_map_Inl [simp]: "go_map f m = Inl e \<longleftrightarrow> m = Inl e"
  by (cases m) auto

lemma go_bind_Inr [simp]: "go_bind m f = Inr y \<longleftrightarrow> (\<exists>x. m = Inr x \<and> f x = Inr y)"
  by (cases m) auto

section \<open>Maps\<close>

definition getd :: "'v \<Rightarrow> ('k, 'v) fmap \<Rightarrow> 'k \<Rightarrow> 'v" where
  "getd z m k = (case fmlookup m k of None \<Rightarrow> z | Some v \<Rightarrow> v)"

lemma getd_empty [simp]: "getd z fmempty k = z"
  by (simp add: getd_def)

lemma getd_upd [simp]: "getd z (fmupd k v m) k' = (if k = k' then v else getd z m k')"
  by (simp add: getd_def)

lemma getd_drop [simp]: "getd z (fmdrop k m) k' = (if k = k' then z else getd z m k')"
  by (simp add: getd_def)

lemma getd_notin: "k |\<notin>| fmdom m \<Longrightarrow> getd z m k = z"
  by (simp add: getd_def fmdom_notD)

lemma getd_Some: "fmlookup m k = Some v \<Longrightarrow> getd z m k = v"
  by (simp add: getd_def)

definition has_key :: "('k, 'v) fmap \<Rightarrow> 'k \<Rightarrow> bool" where
  "has_key m k = (k |\<in>| fmdom m)"

lemma has_key_empty [simp]: "\<not> has_key fmempty k"
  by (simp add: has_key_def)

lemma has_key_upd [simp]: "has_key (fmupd k v m) k' \<longleftrightarrow> k = k' \<or> has_key m k'"
  by (auto simp: has_key_def)

lemma has_key_drop [simp]: "has_key (fmdrop k m) k' \<longleftrightarrow> k \<noteq> k' \<and> has_key m k'"
  by (auto simp: has_key_def)

lemma has_key_lookup: "has_key m k \<longleftrightarrow> (\<exists>v. fmlookup m k = Some v)"
  by (simp add: has_key_def fmlookup_dom_iff)

lemma has_keyI: "fmlookup m k = Some v \<Longrightarrow> has_key m k"
  by (auto simp: has_key_lookup)

definition map_len :: "('k, 'v) fmap \<Rightarrow> nat" where
  "map_len m = fcard (fmdom m)"

lemma map_len_empty [simp]: "map_len fmempty = 0"
  by (simp add: map_len_def)

lemma map_len_upd: "map_len (fmupd k v m) = (if has_key m k then map_len m else Suc (map_len m))"
  by (simp add: map_len_def has_key_def fcard_finsert_if)

lemma map_len_0: "map_len m = 0 \<longleftrightarrow> (\<forall>k. \<not> has_key m k)"
  unfolding map_len_def has_key_def fcard_0_eq by blast

definition range_order :: "'k list \<Rightarrow> ('k, 'v) fmap \<Rightarrow> bool" where
  "range_order ks m \<longleftrightarrow> distinct ks \<and> fset_of_list ks = fmdom m"

lemma range_order_set: "range_order ks m \<Longrightarrow> k \<in> set ks \<longleftrightarrow> has_key m k"
  by (metis fset_of_list_elem has_key_def range_order_def)

lemma range_order_exists: "\<exists>ks. range_order ks m"
proof -
  obtain ks where "set ks = fset (fmdom m)" "distinct ks"
    using finite_distinct_list [of "fset (fmdom m)"] by auto
  then have "fset_of_list ks = fmdom m"
    by (metis fset_inject fset_of_list.rep_eq)
  with \<open>distinct ks\<close> show ?thesis
    by (auto simp: range_order_def)
qed

section \<open>Byte encodings\<close>

definition byte_of :: "char \<Rightarrow> byte" where
  "byte_of c = word_of_nat (of_char c)"

definition bytes_of :: "string \<Rightarrow> byte list" where
  "bytes_of s = map byte_of s"

lemma inj_byte_of: "inj byte_of"
proof (rule injI)
  fix c d assume "byte_of c = byte_of d"
  then have "unat (byte_of c) = unat (byte_of d)" by simp
  moreover have "unat (byte_of e) = of_char e mod 256" for e
    by (simp add: byte_of_def unat_of_nat)
  ultimately have "(of_char c :: nat) mod 256 = of_char d mod 256" by simp
  then show "c = d" by simp
qed

lemma bytes_of_inj [simp]: "bytes_of s = bytes_of t \<longleftrightarrow> s = t"
  by (simp add: bytes_of_def inj_map_eq_map inj_byte_of)

lemma length_bytes_of [simp]: "length (bytes_of s) = length s"
  by (simp add: bytes_of_def)

text \<open>\<open>binary.Write(h, binary.LittleEndian, uint32)\<close>\<close>

definition le32 :: "u32 \<Rightarrow> byte list" where
  "le32 w = [ucast w, ucast (drop_bit 8 w), ucast (drop_bit 16 w), ucast (drop_bit 24 w)]"

lemma length_le32 [simp]: "length (le32 w) = 4"
  by (simp add: le32_def)

definition copy32 :: "byte list \<Rightarrow> hash" where
  "copy32 xs = take 32 (xs @ replicate 32 0)"

lemma length_copy32 [simp]: "length (copy32 xs) = 32"
  by (simp add: copy32_def)

lemma copy32_id: "length xs = 32 \<Longrightarrow> copy32 xs = xs"
  by (simp add: copy32_def)

definition zero_hash :: hash where
  "zero_hash = replicate 32 0"

lemma length_zero_hash [simp]: "length zero_hash = 32"
  by (simp add: zero_hash_def)

text \<open>\<open>sha256.Sum256(data)\<close>\<close>

definition Sum256 :: "digest \<Rightarrow> byte list \<Rightarrow> hash" where
  "Sum256 H d = copy32 (H d)"

lemma length_Sum256 [simp]: "length (Sum256 H d) = 32"
  by (simp add: Sum256_def)

end
