(* ===== verification/Messages.thy ===== *)
theory Messages
  imports GoStd
begin

text \<open>
  The packets that gossipers exchange and the orders a client gives
  (\<open>models/CommunicationModels.go\<close>), the identity hashes of transactions and blocks, the
  proof-of-work test, and what the two \<open>Print\<close> methods write.

  Record fields share one name space in HOL, so each field carries the initials of its
  struct: \<open>rm_ID\<close> is \<open>RumorMessage.ID\<close>. A pointer field of \<open>GossipPacket\<close> or
  \<open>ClientMessage\<close> that may be \<open>nil\<close> is an option.
\<close>

section \<open>Packets\<close>

record SimpleMessage =
  sm_OriginalName :: string
  sm_RelayPeerAddr :: string
  sm_Text :: string

record RumorMessage =
  rm_OriginalName :: string
  rm_ID :: u32
  rm_Text :: string

record PeerStatus =
  ps_Identifier :: string
  ps_NextID :: u32

record StatusPacket =
  st_Want :: "PeerStatus list"

record PrivateMessage =
  pm_Origin :: string
  pm_ID :: u32
  pm_Text :: string
  pm_Destination :: string
  pm_HopLimit :: u32

record DataRequest =
  dq_Origin :: string
  dq_Destination :: string
  dq_HopLimit :: u32
  dq_HashValue :: "byte list"

record DataReply =
  dp_Origin :: string
  dp_Destination :: string
  dp_HopLimit :: u32
  dp_HashValue :: "byte list"
  dp_Data :: "byte list"

record SearchRequest =
  sq_Origin :: string
  sq_Budget :: u64
  sq_Keywords :: "string list"

record SearchResult =
  sr_FileName :: string
  sr_MetafileHash :: "byte list"
  sr_ChunkMap :: "u64 list"
  sr_ChunkCount :: u64

record SearchReply =
  sp_Origin :: string
  sp_Destination :: string
  sp_HopLimit :: u32
  sp_Results :: "SearchResult list"

record File =
  f_Name :: string
  f_Size :: u64
  f_MetafileHash :: "byte list"

record TxPublish =
  tx_File :: File
  tx_HopLimit :: u32

record Block =
  b_PrevHash :: hash
  b_Nonce :: hash
  b_Transactions :: "TxPublish list"

record BlockPublish =
  bp_Block :: Block
  bp_HopLimit :: u32

record GossipPacket =
  gp_Simple :: "SimpleMessage option"
  gp_Rumor :: "RumorMessage option"
  gp_Status :: "StatusPacket option"
  gp_Private :: "PrivateMessage option"
  gp_DataRequest :: "DataRequest option"
  gp_DataReply :: "DataReply option"
  gp_SearchRequest :: "SearchRequest option"
  gp_SearchReply :: "SearchReply option"
  gp_TxPublish :: "TxPublish option"
  gp_BlockPublish :: "BlockPublish option"

text \<open>\<open>&GossipPacket{}\<close>: the packet with every field nil, which the literals of the code
  then fill in at one field.\<close>

definition EmptyPacket :: GossipPacket where
  "EmptyPacket = \<lparr>gp_Simple = None, gp_Rumor = None, gp_Status = None, gp_Private = None,
     gp_DataRequest = None, gp_DataReply = None, gp_SearchRequest = None,
     gp_SearchReply = None, gp_TxPublish = None, gp_BlockPublish = None\<rparr>"

record AddressedGossipPacket =
  agp_Packet :: GossipPacket
  agp_Address :: udpaddr

section \<open>Client orders\<close>

record ClientRumorMessage =
  cr_Text :: string

record ClientPrivateMessage =
  cp_Text :: string
  cp_Destination :: string

record ClientToShareMessage =
  ts_Path :: string

record ClientToDownloadMessage =
  td_Name :: string
  td_Destination :: string
  td_HashValue :: hash

record ClientToSearchMessage =
  sc_Keywords :: "string list"
  sc_Budget :: u64

record ClientMessage =
  cm_Rumor :: "ClientRumorMessage option"
  cm_RouteRumor :: "unit option"
  cm_Private :: "ClientPrivateMessage option"
  cm_ToShare :: "ClientToShareMessage option"
  cm_ToDownload :: "ClientToDownloadMessage option"
  cm_ToSearch :: "ClientToSearchMessage option"

definition EmptyClientMessage :: ClientMessage where
  "EmptyClientMessage = \<lparr>cm_Rumor = None, cm_RouteRumor = None, cm_Private = None,
     cm_ToShare = None, cm_ToDownload = None, cm_ToSearch = None\<rparr>"

section \<open>Rendering\<close>

definition nl :: string where
  "nl = [char_of (10 :: nat)]"

definition RumorMessage_String :: "RumorMessage \<Rightarrow> string" where
  "RumorMessage_String rmsg = rm_OriginalName rmsg @ '':'' @ Itoa (uint (rm_ID rmsg))"

text \<open>What a \<open>Print\<close> method writes to standard output, with its Boolean result.\<close>

definition ClientMessage_Print :: "ClientMessage \<Rightarrow> string \<times> bool" where
  "ClientMessage_Print cmsg =
    (case cm_Rumor cmsg of Some rcmsg \<Rightarrow> (''CLIENT MESSAGE '' @ cr_Text rcmsg @ nl, True)
     | None \<Rightarrow>
    (case cm_Private cmsg of Some pcmsg \<Rightarrow>
        (''CLIENT PRIVATE TO '' @ cp_Destination pcmsg @ '': '' @ cp_Text pcmsg @ nl, True)
     | None \<Rightarrow>
    (case cm_ToShare cmsg of Some tscmsg \<Rightarrow> (''CLIENT SHARE REQUEST: '' @ ts_Path tscmsg @ nl, True)
     | None \<Rightarrow>
    (case cm_ToDownload cmsg of Some tdcmsg \<Rightarrow>
        (''CLIENT DOWNLOAD REQUEST: '' @ td_Name tdcmsg @ '' from '' @ td_Destination tdcmsg
           @ '' hash '' @ hex_EncodeToString (td_HashValue tdcmsg) @ nl, True)
     | None \<Rightarrow> ([], False)))))"

definition PeerStatus_print :: "PeerStatus \<Rightarrow> string" where
  "PeerStatus_print p = '' peer '' @ ps_Identifier p @ '' nextID '' @ Itoa (uint (ps_NextID p))"

definition AddressedGossipPacket_Print :: "AddressedGossipPacket \<Rightarrow> string \<times> bool" where
  "AddressedGossipPacket_Print agp =
    (let gp = agp_Packet agp; addr = agp_Address agp in
     case gp_Rumor gp of Some rmsg \<Rightarrow>
       (if rm_Text rmsg = [] then ([], False)
        else (''RUMOR origin '' @ rm_OriginalName rmsg @ '' from '' @ addr @ '' ID ''
               @ Itoa (uint (rm_ID rmsg)) @ '' contents '' @ rm_Text rmsg @ nl, True))
     | None \<Rightarrow>
    (case gp_Status gp of Some st \<Rightarrow>
        (''STATUS from '' @ addr @ concat (map PeerStatus_print (st_Want st)) @ nl, True)
     | None \<Rightarrow>
    (case gp_Simple gp of Some smsg \<Rightarrow>
        (''SIMPLE MESSAGE origin '' @ sm_OriginalName smsg @ '' from '' @ sm_RelayPeerAddr smsg
           @ '' contents '' @ sm_Text smsg @ nl, True)
     | None \<Rightarrow>
    (case gp_Private gp of Some pmsg \<Rightarrow>
        (''PRIVATE origin '' @ pm_Origin pmsg @ '' hop-limit '' @ Itoa (uint (pm_HopLimit pmsg))
           @ '' contents '' @ pm_Text pmsg @ nl, True)
     | None \<Rightarrow> ([], False)))))"

section \<open>Hashes and proof of work\<close>

definition BlockhainBytesForGoodBlock :: nat where
  "BlockhainBytesForGoodBlock = 2"

text \<open>The bytes a transaction feeds to the digest: neither its size nor its hop limit.\<close>

definition Tx_preimage :: "TxPublish \<Rightarrow> byte list" where
  "Tx_preimage t = le32 (word_of_nat (length (f_Name (tx_File t))))
     @ bytes_of (f_Name (tx_File t)) @ f_MetafileHash (tx_File t)"

definition Tx_Hash :: "digest \<Rightarrow> TxPublish \<Rightarrow> hash" where
  "Tx_Hash H t = copy32 (H (Tx_preimage t))"

definition Block_preimage :: "digest \<Rightarrow> Block \<Rightarrow> byte list" where
  "Block_preimage H b = b_PrevHash b @ b_Nonce b
     @ le32 (word_of_nat (length (b_Transactions b)))
     @ concat (map (Tx_Hash H) (b_Transactions b))"

definition Block_Hash :: "digest \<Rightarrow> Block \<Rightarrow> hash" where
  "Block_Hash H b = copy32 (H (Block_preimage H b))"

definition IsGood :: "digest \<Rightarrow> Block \<Rightarrow> bool" where
  "IsGood H b = (let hash = Block_Hash H b in
     list_all (\<lambda>i. hash ! i = 0) [0..<BlockhainBytesForGoodBlock])"

definition Block_String :: "digest \<Rightarrow> Block \<Rightarrow> string" where
  "Block_String H b = hex_EncodeToString (Block_Hash H b)"

lemma length_Block_Hash [simp]: "length (Block_Hash H b) = 32"
  by (simp add: Block_Hash_def)

lemma length_Tx_Hash [simp]: "length (Tx_Hash H t) = 32"
  by (simp add: Tx_Hash_def)

lemma IsGood_iff: "IsGood H b \<longleftrightarrow> Block_Hash H b ! 0 = 0 \<and> Block_Hash H b ! 1 = 0"
  by (simp add: IsGood_def Let_def BlockhainBytesForGoodBlock_def upt_rec numeral_2_eq_2)

lemma empty_packet_sel [simp]:
  "gp_Simple EmptyPacket = None" "gp_Rumor EmptyPacket = None" "gp_Status EmptyPacket = None"
  "gp_Private EmptyPacket = None" "gp_DataRequest EmptyPacket = None" "gp_DataReply EmptyPacket = None"
  "gp_SearchRequest EmptyPacket = None" "gp_SearchReply EmptyPacket = None" "gp_TxPublish EmptyPacket = None"
  "gp_BlockPublish EmptyPacket = None"
  by (simp_all add: EmptyPacket_def)

lemma empty_order_sel [simp]:
  "cm_Rumor EmptyClientMessage = None" "cm_RouteRumor EmptyClientMessage = None" "cm_Private EmptyClientMessage = None"
  "cm_ToShare EmptyClientMessage = None" "cm_ToDownload EmptyClientMessage = None" "cm_ToSearch EmptyClientMessage = None"
  by (simp_all add: EmptyClientMessage_def)

end
