(* ===== verification/RumorExchange.thy ===== *)
theory RumorExchange
  imports Prelude
begin

text \<open>
  The interface that rumor-mongering uses of a store, and what it gives. One round: the
  sender \<open>a\<close> compares itself with the status of the receiver \<open>b\<close> and sends the rumor it
  finds, the receiver adds it and answers with its new status (\<open>startRumorMongeringThread\<close>
  and \<open>spreadTheRumor\<close> with a fixed peer). The laws are about one round; the closed form
  of a whole session is proved once here.
\<close>

fun session :: "('s \<Rightarrow> 's \<Rightarrow> 'r option) \<Rightarrow> ('s \<Rightarrow> 'r \<Rightarrow> 's) \<Rightarrow> nat \<Rightarrow> 's \<Rightarrow> 's \<Rightarrow> 's" where
  "session diff add 0 a b = b"
| "session diff add (Suc k) a b =
     (case diff a b of None \<Rightarrow> b | Some r \<Rightarrow> session diff add k a (add b r))"

text \<open>The number of rumors of \<open>a\<close> that \<open>b\<close> lacks.\<close>

definition missing :: "('s \<Rightarrow> 'n \<Rightarrow> 'r list) \<Rightarrow> 's \<Rightarrow> 's \<Rightarrow> nat" where
  "missing log a b = (\<Sum>n | log a n \<noteq> []. length (log a n) - length (log b n))"

locale rumor_exchange =
  fixes log :: "'s \<Rightarrow> 'n \<Rightarrow> 'r list"
    and diff :: "'s \<Rightarrow> 's \<Rightarrow> 'r option"
    and add :: "'s \<Rightarrow> 'r \<Rightarrow> 's"
    and good :: "'s \<Rightarrow> bool"
  assumes diff_Some: "good a \<Longrightarrow> good b \<Longrightarrow> diff a b = Some r \<Longrightarrow>
      \<exists>n. length (log b n) < length (log a n) \<and> r = log a n ! length (log b n)
        \<and> log (add b r) = (log b)(n := log b n @ [r]) \<and> good (add b r)"
    and diff_None: "good a \<Longrightarrow> good b \<Longrightarrow> diff a b = None \<Longrightarrow> length (log a n) \<le> length (log b n)"
    and finite_log: "good a \<Longrightarrow> finite {n. log a n \<noteq> []}"
begin

lemma missing_decreases:
  assumes "good a" "good b" "diff a b = Some r"
  shows "missing log a (add b r) < missing log a b"
proof -
  from diff_Some [OF assms] obtain n where
    n: "length (log b n) < length (log a n)" "log (add b r) = (log b)(n := log b n @ [r])"
    by blast
  have "log a n \<noteq> []" using n(1) by auto
  then show ?thesis
    unfolding missing_def using n finite_log [OF assms(1)]
    by (intro sum_strict_mono_ex1) (auto intro!: bexI [of _ n])
qed

lemma missing_0: "good a \<Longrightarrow> missing log a b = 0 \<Longrightarrow> length (log a n) \<le> length (log b n)"
  using finite_log [of a] by (cases "log a n = []") (auto simp: missing_def)

lemma session_good: "good a \<Longrightarrow> good b \<Longrightarrow> good (session diff add k a b)"
proof (induction k arbitrary: b)
  case (Suc k)
  show ?case
  proof (cases "diff a b")
    case None
    with Suc.prems show ?thesis by simp
  next
    case (Some r)
    from diff_Some [OF Suc.prems Some] have "good (add b r)" by blast
    with Suc.IH [OF Suc.prems(1)] Some show ?thesis by simp
  qed
qed simp

text \<open>With as many rounds as rumors are missing, every log of the receiver is its old log
  followed by what the sender's log has beyond that length.\<close>

lemma session_log:
  assumes "good a" "good b" "missing log a b \<le> k"
  shows "log (session diff add k a b) n = log b n @ drop (length (log b n)) (log a n)"
  using assms
proof (induction k arbitrary: b)
  case 0
  then show ?case using missing_0 by auto
next
  case (Suc k)
  show ?case
  proof (cases "diff a b")
    case None
    then show ?thesis using diff_None [OF Suc.prems(1,2)] by simp
  next
    case (Some r)
    from diff_Some [OF Suc.prems(1,2) Some] obtain m where
      m: "length (log b m) < length (log a m)" "r = log a m ! length (log b m)"
        "log (add b r) = (log b)(m := log b m @ [r])" and g: "good (add b r)" by blast
    have "missing log a (add b r) \<le> k"
      using missing_decreases [OF Suc.prems(1,2) Some] Suc.prems(3) by simp
    from Suc.IH [OF Suc.prems(1) g this] Some show ?thesis
      using m by (simp add: Cons_nth_drop_Suc)
  qed
qed

lemma session_in_sync:
  assumes "good a" "good b" "missing log a b \<le> k"
  shows "diff a (session diff add k a b) = None"
proof (rule ccontr)
  assume "diff a (session diff add k a b) \<noteq> None"
  then obtain r where "diff a (session diff add k a b) = Some r" by blast
  from diff_Some [OF assms(1) session_good [OF assms(1,2)] this]
  show False using session_log [OF assms] by fastforce
qed

end

end
