(* ===== verification/MessageStorage.thy ===== *)
theory MessageStorage
  imports Messages RumorExchange
begin

text \<open>
  The store of rumors and private messages (\<open>models/MessageStorage.go\<close>): a vector clock
  per origin, the rumors of each origin in the order of their IDs, the non-empty rumors
  in order of arrival for the frontend, and the private messages. Every method runs under
  the store's mutex, so it is one atomic state transformer.

  \<open>ms_inv\<close> is the invariant of the struct's comment, at the width of the clock, together
  with what the array index of a rumor says about its ID. \<open>Diff\<close> compares the clock with
  a peer's status; the locale \<open>rumor_exchange\<close> states what the mongering protocol relies
  on, proves once that repeated diff-and-send transfers everything that is missing, and is
  interpreted on the store.
\<close>

section \<open>State and operations\<close>

record MessageStorage =
  VectorClock :: "(string, u32) fmap"
  RumorMessages :: "(string, RumorMessage list) fmap"
  NonEmptyMessagesChronOrder :: "RumorMessage list"
  PrivateMessages :: "PrivateMessage list"

definition InitMessageStorage :: "string \<Rightarrow> MessageStorage" where
  "InitMessageStorage gossiperName = \<lparr>VectorClock = fmempty, RumorMessages = fmempty,
     NonEmptyMessagesChronOrder = [], PrivateMessages = []\<rparr>"

text \<open>\<open>ms.VectorClock[name]\<close> and \<open>ms.RumorMessages[name]\<close>\<close>

definition clock :: "MessageStorage \<Rightarrow> string \<Rightarrow> u32" where
  "clock ms n = getd 0 (VectorClock ms) n"

definition rumors :: "MessageStorage \<Rightarrow> string \<Rightarrow> RumorMessage list" where
  "rumors ms n = getd [] (RumorMessages ms) n"

definition GetNextMessageId :: "MessageStorage \<Rightarrow> string \<Rightarrow> u32" where
  "GetNextMessageId ms name = clock ms name + 1"

text \<open>\<open>ks\<close> is the order in which the runtime visits the vector clock.\<close>

definition GetCurrentStatusPacket :: "string list \<Rightarrow> MessageStorage \<Rightarrow> StatusPacket" where
  "GetCurrentStatusPacket ks ms =
     \<lparr>st_Want = map (\<lambda>name. \<lparr>ps_Identifier = name, ps_NextID = clock ms name + 1\<rparr>) ks\<rparr>"

definition GetRumorMessagesCopy :: "MessageStorage \<Rightarrow> RumorMessage list" where
  "GetRumorMessagesCopy ms = NonEmptyMessagesChronOrder ms"

definition GetPrivateMessagesCopy :: "MessageStorage \<Rightarrow> PrivateMessage list" where
  "GetPrivateMessagesCopy ms = PrivateMessages ms"

text \<open>
  \<open>Diff\<close>: the loop over the peer's status, then the loop over the own clock. \<open>others\<close> is
  \<open>othersMap\<close>, \<open>f\<close> is \<open>otherHasThisDoesnt\<close>. Each early return indexes the rumors of the
  name, which panics out of range.
\<close>

fun Diff_own :: "MessageStorage \<Rightarrow> (string, u32) fmap \<Rightarrow> bool \<Rightarrow> string list
    \<Rightarrow> (RumorMessage option \<times> bool) go" where
  "Diff_own ms others f [] = Inr (None, f)"
| "Diff_own ms others f (name # ks) =
     (if clock ms name > getd 0 others name
      then go_map (\<lambda>r. (Some r, f)) (slice_get (rumors ms name) (unat (getd 0 others name)))
      else if clock ms name < getd 0 others name then Diff_own ms others True ks
      else Diff_own ms others f ks)"

fun Diff_want :: "MessageStorage \<Rightarrow> string list \<Rightarrow> (string, u32) fmap \<Rightarrow> bool \<Rightarrow> PeerStatus list
    \<Rightarrow> (RumorMessage option \<times> bool) go" where
  "Diff_want ms ks others f [] = Diff_own ms others f ks"
| "Diff_want ms ks others f (p # ps) =
     (let nextId = ps_NextID p - 1; name = ps_Identifier p in
      if clock ms name > nextId
      then go_map (\<lambda>r. (Some r, f)) (slice_get (rumors ms name) (unat nextId))
      else Diff_want ms ks (fmupd name nextId others) (f \<or> clock ms name < nextId) ps)"

definition Diff :: "string list \<Rightarrow> MessageStorage \<Rightarrow> StatusPacket
    \<Rightarrow> (RumorMessage option \<times> bool) go" where
  "Diff ks ms sp = Diff_want ms ks fmempty False (st_Want sp)"

definition IsNewMessage :: "MessageStorage \<Rightarrow> RumorMessage \<Rightarrow> bool" where
  "IsNewMessage ms rmsg =
    (let rmsgId = rm_ID rmsg - 1; origin = rm_OriginalName rmsg in
     if rmsgId < clock ms origin then False
     else if rmsgId = clock ms origin then True
     else False)"

definition AddRumorMessage :: "MessageStorage \<Rightarrow> RumorMessage \<Rightarrow> MessageStorage \<times> bool" where
  "AddRumorMessage ms rmsg =
    (let origin = rm_OriginalName rmsg;
         ms = (if has_key (RumorMessages ms) origin then ms
               else ms\<lparr>RumorMessages := fmupd origin [] (RumorMessages ms)\<rparr>);
         rmsgId = rm_ID rmsg - 1
     in if rmsgId < clock ms origin then (ms, False)
        else if rmsgId = clock ms origin then
          (ms\<lparr>RumorMessages := fmupd origin (rumors ms origin @ [rmsg]) (RumorMessages ms),
              NonEmptyMessagesChronOrder := NonEmptyMessagesChronOrder ms
                @ (if rm_Text rmsg \<noteq> [] then [rmsg] else []),
              VectorClock := fmupd origin (clock ms origin + 1) (VectorClock ms)\<rparr>, True)
        else (ms, False))"

definition AddPrivateMessage :: "MessageStorage \<Rightarrow> PrivateMessage \<Rightarrow> string
    \<Rightarrow> MessageStorage \<times> bool" where
  "AddPrivateMessage ms pmsg currentGossiperName =
    (if pm_Destination pmsg \<noteq> currentGossiperName then (ms, False)
     else (ms\<lparr>PrivateMessages := PrivateMessages ms @ [pmsg]\<rparr>, True))"

section \<open>Lookups after an operation\<close>

lemma clock_Init [store_simps, simp]: "clock (InitMessageStorage g) n = 0"
  by (simp add: clock_def InitMessageStorage_def)

lemma rumors_Init [store_simps, simp]: "rumors (InitMessageStorage g) n = []"
  by (simp add: rumors_def InitMessageStorage_def)

lemma clock_frame [store_simps]:
  "clock (ms\<lparr>RumorMessages := R\<rparr>) = clock ms"
  "clock (ms\<lparr>NonEmptyMessagesChronOrder := C\<rparr>) = clock ms"
  "clock (ms\<lparr>PrivateMessages := P\<rparr>) = clock ms"
  by (simp_all add: clock_def fun_eq_iff)

lemma rumors_frame [store_simps]:
  "rumors (ms\<lparr>VectorClock := V\<rparr>) = rumors ms"
  "rumors (ms\<lparr>NonEmptyMessagesChronOrder := C\<rparr>) = rumors ms"
  "rumors (ms\<lparr>PrivateMessages := P\<rparr>) = rumors ms"
  by (simp_all add: rumors_def fun_eq_iff)

lemma rumors_touch:
  "\<not> has_key (RumorMessages ms) o1 \<Longrightarrow>
   rumors (ms\<lparr>RumorMessages := fmupd o1 [] (RumorMessages ms)\<rparr>) = rumors ms"
  by (auto simp: rumors_def fun_eq_iff has_key_def getd_notin)

lemma AddRumor_accepted: "snd (AddRumorMessage ms r) \<longleftrightarrow> rm_ID r - 1 = clock ms (rm_OriginalName r)"
  by (auto simp: AddRumorMessage_def Let_def store_simps)

lemma IsNewMessage_iff: "IsNewMessage ms r \<longleftrightarrow> rm_ID r - 1 = clock ms (rm_OriginalName r)"
  by (auto simp: IsNewMessage_def Let_def)

lemma AddRumor_clock:
  "clock (fst (AddRumorMessage ms r)) =
     (if IsNewMessage ms r
      then (clock ms)(rm_OriginalName r := clock ms (rm_OriginalName r) + 1) else clock ms)"
  unfolding IsNewMessage_iff
  by (auto simp: AddRumorMessage_def Let_def clock_def fun_eq_iff)

lemma AddRumor_rumors:
  "rumors (fst (AddRumorMessage ms r)) =
     (if IsNewMessage ms r
      then (rumors ms)(rm_OriginalName r := rumors ms (rm_OriginalName r) @ [r]) else rumors ms)"
  unfolding IsNewMessage_iff
  by (auto simp: AddRumorMessage_def Let_def clock_def rumors_def fun_eq_iff has_key_def getd_notin)

lemma AddRumor_chron:
  "NonEmptyMessagesChronOrder (fst (AddRumorMessage ms r)) =
     NonEmptyMessagesChronOrder ms @ (if IsNewMessage ms r \<and> rm_Text r \<noteq> [] then [r] else [])"
  unfolding IsNewMessage_iff
  by (auto simp: AddRumorMessage_def Let_def clock_def)

lemma AddRumor_private:
  "PrivateMessages (fst (AddRumorMessage ms r)) = PrivateMessages ms"
  by (auto simp: AddRumorMessage_def Let_def)

lemmas AddRumor_simps = AddRumor_accepted AddRumor_clock AddRumor_rumors AddRumor_chron
  AddRumor_private

section \<open>Invariant\<close>

text \<open>
  The clock counts the rumors of a name modulo the width of the counter; the rumor at
  index \<open>i\<close> carries the name and the ID \<open>i + 1\<close>; restricted to one name, the list for the
  frontend is that name's non-empty rumors in ID order.
\<close>

definition ms_inv :: "MessageStorage \<Rightarrow> bool" where
  "ms_inv ms \<longleftrightarrow>
     (\<forall>n. clock ms n = word_of_nat (length (rumors ms n))) \<and>
     (\<forall>n. \<forall>i < length (rumors ms n). rm_OriginalName (rumors ms n ! i) = n
            \<and> rm_ID (rumors ms n ! i) = word_of_nat (Suc i)) \<and>
     (\<forall>n. filter (\<lambda>r. rm_OriginalName r = n) (NonEmptyMessagesChronOrder ms)
            = filter (\<lambda>r. rm_Text r \<noteq> []) (rumors ms n))"

lemma ms_invD:
  assumes "ms_inv ms"
  shows "clock ms n = word_of_nat (length (rumors ms n))"
    and "i < length (rumors ms n) \<Longrightarrow> rm_OriginalName (rumors ms n ! i) = n"
    and "i < length (rumors ms n) \<Longrightarrow> rm_ID (rumors ms n ! i) = word_of_nat (Suc i)"
  using assms by (auto simp: ms_inv_def)

lemma ms_inv_clock_le: "ms_inv ms \<Longrightarrow> unat (clock ms n) \<le> length (rumors ms n)"
  by (simp add: ms_invD(1) unat_of_nat)

lemma ms_inv_Init: "ms_inv (InitMessageStorage g)"
  by (simp add: ms_inv_def) (simp add: InitMessageStorage_def)

lemma ms_inv_AddRumor:
  assumes "ms_inv ms"
  shows "ms_inv (fst (AddRumorMessage ms r))"
proof (cases "IsNewMessage ms r")
  case True
  let ?o = "rm_OriginalName r" and ?ms' = "fst (AddRumorMessage ms r)"
  have id: "rm_ID r = word_of_nat (Suc (length (rumors ms ?o)))"
    using True ms_invD(1) [OF assms, of ?o] by (simp add: IsNewMessage_iff algebra_simps)
  have "\<forall>n. clock ?ms' n = word_of_nat (length (rumors ?ms' n))"
    using True ms_invD(1) [OF assms] by (simp add: AddRumor_simps)
  moreover have "\<forall>n. \<forall>i < length (rumors ?ms' n). rm_OriginalName (rumors ?ms' n ! i) = n
            \<and> rm_ID (rumors ?ms' n ! i) = word_of_nat (Suc i)"
    using True ms_invD(2,3) [OF assms] id by (auto simp: AddRumor_simps nth_append less_Suc_eq)
  moreover have "filter (\<lambda>r. rm_OriginalName r = n) (NonEmptyMessagesChronOrder ?ms')
            = filter (\<lambda>r. rm_Text r \<noteq> []) (rumors ?ms' n)" for n
    using True assms by (auto simp: AddRumor_simps ms_inv_def)
  ultimately show ?thesis by (simp add: ms_inv_def)
next
  case False
  then show ?thesis using assms by (simp add: ms_inv_def AddRumor_simps)
qed

lemma ms_inv_AddPrivate: "ms_inv ms \<Longrightarrow> ms_inv (fst (AddPrivateMessage ms p g))"
  by (auto simp: AddPrivateMessage_def ms_inv_def store_simps)

text \<open>Everything that arrives at a store, in order, from the empty store.\<close>

datatype store_op = ArriveRumor RumorMessage | ArrivePrivate PrivateMessage string

fun store_run :: "MessageStorage \<Rightarrow> store_op list \<Rightarrow> MessageStorage" where
  "store_run ms [] = ms"
| "store_run ms (ArriveRumor r # ops) = store_run (fst (AddRumorMessage ms r)) ops"
| "store_run ms (ArrivePrivate p g # ops) = store_run (fst (AddPrivateMessage ms p g)) ops"

lemma ms_inv_store_run: "ms_inv ms \<Longrightarrow> ms_inv (store_run ms ops)"
  by (induction ms ops rule: store_run.induct) (auto intro: ms_inv_AddRumor ms_inv_AddPrivate)

section \<open>Diff\<close>

text \<open>The index that \<open>Diff\<close> uses is below the clock, hence within the rumors.\<close>

lemma rumor_at:
  assumes "ms_inv ms" and "x < clock ms n"
  obtains r where "slice_get (rumors ms n) (unat x) = Inr r" and "r \<in> set (rumors ms n)"
    and "rm_OriginalName r = n" and "rm_ID r = x + 1"
proof -
  have i: "unat x < length (rumors ms n)"
    using assms ms_inv_clock_le [OF assms(1), of n] by (meson less_le_trans unat_mono)
  show thesis
  proof (rule that)
    show "slice_get (rumors ms n) (unat x) = Inr (rumors ms n ! unat x)"
      using i by (simp add: go_simps)
    show "rm_ID (rumors ms n ! unat x) = x + 1"
      using ms_invD(3) [OF assms(1) i] by (simp add: algebra_simps)
  qed (use i ms_invD(2) [OF assms(1) i] in auto)
qed

text \<open>What the peer claims to have of a name: the last entry of its status for the name,
  or nothing.\<close>

fun claimed :: "(string, u32) fmap \<Rightarrow> PeerStatus list \<Rightarrow> string \<Rightarrow> u32" where
  "claimed others [] n = getd 0 others n"
| "claimed others (p # ps) n = claimed (fmupd (ps_Identifier p) (ps_NextID p - 1) others) ps n"

lemma claimed_cases:
  "(n \<notin> ps_Identifier ` set ps \<and> claimed others ps n = getd 0 others n) \<or>
   (\<exists>p \<in> set ps. ps_Identifier p = n \<and> claimed others ps n = ps_NextID p - 1)"
proof (induction ps arbitrary: others)
  case (Cons p ps)
  from Cons [of "fmupd (ps_Identifier p) (ps_NextID p - 1) others"] show ?case by auto
qed simp

lemma Diff_own_total:
  assumes "ms_inv ms"
  shows "\<exists>res. Diff_own ms others f ks = Inr res"
  using assms
proof (induction ks arbitrary: f)
  case (Cons k ks)
  then show ?case by (auto elim: rumor_at [of ms "getd 0 others k" k])
qed simp

lemma Diff_want_total:
  assumes "ms_inv ms"
  shows "\<exists>res. Diff_want ms ks others f ps = Inr res"
proof (induction ps arbitrary: f others)
  case Nil
  then show ?case using Diff_own_total [OF assms] by simp
next
  case (Cons p ps)
  show ?case
  proof (cases "ps_NextID p - 1 < clock ms (ps_Identifier p)")
    case True
    then show ?thesis using rumor_at [OF assms True] by (auto simp: Let_def)
  next
    case False
    then show ?thesis using Cons by (simp add: Let_def)
  qed
qed

lemma Diff_own_Some:
  assumes "ms_inv ms" and "Diff_own ms others f ks = Inr (Some r, f')"
  shows "r \<in> set (rumors ms (rm_OriginalName r))
     \<and> getd 0 others (rm_OriginalName r) < clock ms (rm_OriginalName r)
     \<and> rm_ID r = getd 0 others (rm_OriginalName r) + 1"
  using assms(2)
proof (induction ks arbitrary: f)
  case (Cons k ks)
  show ?case
  proof (cases "getd 0 others k < clock ms k")
    case True
    from rumor_at [OF assms(1) True] obtain r' where
      r': "slice_get (rumors ms k) (unat (getd 0 others k)) = Inr r'" "r' \<in> set (rumors ms k)"
        "rm_OriginalName r' = k" "rm_ID r' = getd 0 others k + 1" by blast
    have "r = r'" using Cons.prems True r'(1) by simp
    with r' True show ?thesis by auto
  next
    case False
    with Cons show ?thesis by (auto split: if_splits)
  qed
qed simp

lemma Diff_own_None:
  "Diff_own ms others f ks = Inr (None, f') \<longleftrightarrow>
     (\<forall>n \<in> set ks. clock ms n \<le> getd 0 others n)
       \<and> (f' \<longleftrightarrow> f \<or> (\<exists>n \<in> set ks. clock ms n < getd 0 others n))"
proof (induction ks arbitrary: f)
  case (Cons k ks)
  consider "getd 0 others k < clock ms k" | "clock ms k < getd 0 others k"
    | "clock ms k = getd 0 others k" by (meson linorder_neqE)
  then show ?case by cases (use Cons in auto)
qed auto

text \<open>What a rumor returned by \<open>Diff\<close> answers: an entry of the status that is behind, or a
  name the status does not mention.\<close>

definition answers :: "MessageStorage \<Rightarrow> PeerStatus list \<Rightarrow> RumorMessage \<Rightarrow> bool" where
  "answers ms ps r \<longleftrightarrow>
     (\<exists>p \<in> set ps. ps_Identifier p = rm_OriginalName r \<and> ps_NextID p = rm_ID r
        \<and> ps_NextID p - 1 < clock ms (rm_OriginalName r)) \<or>
     (rm_OriginalName r \<notin> ps_Identifier ` set ps \<and> rm_ID r = 1 \<and> 0 < clock ms (rm_OriginalName r))"

lemma Diff_want_Some:
  assumes "ms_inv ms" and "Diff_want ms ks others f ps = Inr (Some r, f')"
    and "\<forall>n. has_key others n \<longrightarrow> clock ms n \<le> getd 0 others n"
  shows "r \<in> set (rumors ms (rm_OriginalName r)) \<and> answers ms ps r
     \<and> (rm_OriginalName r \<in> ps_Identifier ` set ps \<or> \<not> has_key others (rm_OriginalName r))"
  using assms(2,3)
proof (induction ps arbitrary: f others)
  case Nil
  then have own: "Diff_own ms others f ks = Inr (Some r, f')" by simp
  have "\<not> has_key others (rm_OriginalName r)"
    using Diff_own_Some [OF assms(1) own] Nil.prems(2) by fastforce
  then show ?case
    using Diff_own_Some [OF assms(1) own] by (auto simp: answers_def has_key_def getd_notin)
next
  case (Cons p ps)
  show ?case
  proof (cases "ps_NextID p - 1 < clock ms (ps_Identifier p)")
    case True
    from rumor_at [OF assms(1) True] obtain r' where
      r': "slice_get (rumors ms (ps_Identifier p)) (unat (ps_NextID p - 1)) = Inr r'"
        "r' \<in> set (rumors ms (ps_Identifier p))" "rm_OriginalName r' = ps_Identifier p"
        "rm_ID r' = ps_NextID p - 1 + 1" by blast
    have "r = r'" using Cons.prems(1) True r'(1) by (simp add: Let_def)
    with r' True show ?thesis by (auto simp: answers_def)
  next
    case False
    let ?o = "fmupd (ps_Identifier p) (ps_NextID p - 1) others"
    have o: "\<forall>n. has_key ?o n \<longrightarrow> clock ms n \<le> getd 0 ?o n"
      using Cons.prems(2) False by (auto simp: not_less)
    have "Diff_want ms ks ?o (f \<or> clock ms (ps_Identifier p) < ps_NextID p - 1) ps
            = Inr (Some r, f')"
      using Cons.prems(1) False by (simp add: Let_def)
    from Cons.IH [OF this o] have "r \<in> set (rumors ms (rm_OriginalName r))"
      and a: "answers ms ps r"
      and k: "rm_OriginalName r \<in> ps_Identifier ` set ps \<or> \<not> has_key ?o (rm_OriginalName r)"
      by blast+
    moreover have "answers ms (p # ps) r"
      using a k by (auto simp: answers_def)
    ultimately show ?thesis by auto
  qed
qed

lemma Diff_want_None:
  "Diff_want ms ks others f ps = Inr (None, f') \<longleftrightarrow>
     (\<forall>p \<in> set ps. clock ms (ps_Identifier p) \<le> ps_NextID p - 1)
       \<and> (\<forall>n \<in> set ks. clock ms n \<le> claimed others ps n)
       \<and> (f' \<longleftrightarrow> f \<or> (\<exists>p \<in> set ps. clock ms (ps_Identifier p) < ps_NextID p - 1)
            \<or> (\<exists>n \<in> set ks. clock ms n < claimed others ps n))"
proof (induction ps arbitrary: f others)
  case Nil
  then show ?case by (simp add: Diff_own_None)
next
  case (Cons p ps)
  show ?case
  proof (cases "ps_NextID p - 1 < clock ms (ps_Identifier p)")
    case True
    then show ?thesis by (auto simp: Let_def)
  next
    case False
    then have eq: "Diff_want ms ks others f (p # ps) =
        Diff_want ms ks (fmupd (ps_Identifier p) (ps_NextID p - 1) others)
          (f \<or> clock ms (ps_Identifier p) < ps_NextID p - 1) ps"
      by (simp add: Let_def)
    show ?thesis unfolding eq Cons using False by (auto simp: not_less)
  qed
qed

lemma Diff_total: "ms_inv ms \<Longrightarrow> \<exists>res. Diff ks ms sp = Inr res"
  unfolding Diff_def by (rule Diff_want_total)

lemma Diff_Some:
  assumes "ms_inv ms" and "Diff ks ms sp = Inr (Some r, f)"
  shows "r \<in> set (rumors ms (rm_OriginalName r)) \<and> answers ms (st_Want sp) r"
  using Diff_want_Some [OF assms(1) assms(2) [unfolded Diff_def]] by simp

lemma Diff_None:
  assumes ks: "range_order ks (VectorClock ms)"
  shows "Diff ks ms sp = Inr (None, f) \<longleftrightarrow>
     (\<forall>p \<in> set (st_Want sp). clock ms (ps_Identifier p) \<le> ps_NextID p - 1)
       \<and> (\<forall>n. n \<notin> ps_Identifier ` set (st_Want sp) \<longrightarrow> clock ms n = 0)
       \<and> (f \<longleftrightarrow> (\<exists>p \<in> set (st_Want sp). clock ms (ps_Identifier p) < ps_NextID p - 1))"
proof -
  let ?ps = "st_Want sp"
  have k0: "n \<notin> set ks \<Longrightarrow> clock ms n = 0" for n
    using range_order_set [OF ks, of n] by (simp add: clock_def has_key_def getd_notin)
  have c: "(n \<notin> ps_Identifier ` set ?ps \<and> claimed fmempty ?ps n = 0) \<or>
      (\<exists>p \<in> set ?ps. ps_Identifier p = n \<and> claimed fmempty ?ps n = ps_NextID p - 1)" for n
    using claimed_cases [of n ?ps fmempty] by simp
  have ahead: "\<exists>p \<in> set ?ps. clock ms (ps_Identifier p) < ps_NextID p - 1"
    if "clock ms n < claimed fmempty ?ps n" for n
    using c [of n] that by auto
  show ?thesis (is "?l \<longleftrightarrow> ?A \<and> ?B \<and> ?F")
  proof
    assume ?l
    then have *: ?A "\<forall>n \<in> set ks. clock ms n \<le> claimed fmempty ?ps n"
      "f \<longleftrightarrow> (\<exists>p \<in> set ?ps. clock ms (ps_Identifier p) < ps_NextID p - 1)
            \<or> (\<exists>n \<in> set ks. clock ms n < claimed fmempty ?ps n)"
      by (auto simp: Diff_def Diff_want_None)
    have ?B
    proof (intro allI impI)
      fix n assume "n \<notin> ps_Identifier ` set ?ps"
      then have "claimed fmempty ?ps n = 0" using c [of n] by auto
      then show "clock ms n = 0" using *(2) k0 [of n] by (cases "n \<in> set ks") auto
    qed
    moreover have ?F using *(3) ahead by blast
    ultimately show "?A \<and> ?B \<and> ?F" using *(1) by blast
  next
    assume r: "?A \<and> ?B \<and> ?F"
    have "\<forall>n \<in> set ks. clock ms n \<le> claimed fmempty ?ps n"
    proof
      fix n assume "n \<in> set ks"
      show "clock ms n \<le> claimed fmempty ?ps n" using r c [of n] by auto
    qed
    then show ?l using r ahead unfolding Diff_def Diff_want_None by blast
  qed
qed

section \<open>Two stores\<close>

text \<open>What \<open>a\<close> finds when it compares itself with the status of \<open>b\<close>; \<open>ord\<close> is the order of
  the map iterations.\<close>

definition status_diff :: "((string, u32) fmap \<Rightarrow> string list) \<Rightarrow> MessageStorage \<Rightarrow> MessageStorage
    \<Rightarrow> RumorMessage option" where
  "status_diff ord a b =
     (case Diff (ord (VectorClock a)) a (GetCurrentStatusPacket (ord (VectorClock b)) b) of
        Inr (r, f) \<Rightarrow> r | Inl e \<Rightarrow> None)"

definition receive_rumor :: "MessageStorage \<Rightarrow> RumorMessage \<Rightarrow> MessageStorage" where
  "receive_rumor ms r = fst (AddRumorMessage ms r)"

lemma status_ids:
  "ps_Identifier ` set (st_Want (GetCurrentStatusPacket ks ms)) = set ks"
  by (force simp: GetCurrentStatusPacket_def)

lemma status_entry:
  "p \<in> set (st_Want (GetCurrentStatusPacket ks ms)) \<longleftrightarrow>
     ps_Identifier p \<in> set ks \<and> p = \<lparr>ps_Identifier = ps_Identifier p,
       ps_NextID = clock ms (ps_Identifier p) + 1\<rparr>"
  by (auto simp: GetCurrentStatusPacket_def)

lemma not_in_status: "range_order ks (VectorClock ms) \<Longrightarrow> n \<notin> set ks \<Longrightarrow> clock ms n = 0"
  using range_order_set [of ks "VectorClock ms" n] by (simp add: clock_def has_key_def getd_notin)

lemma Diff_status_Some:
  assumes "ms_inv a" and "range_order kb (VectorClock b)"
    and "Diff ka a (GetCurrentStatusPacket kb b) = Inr (Some r, f)"
  shows "r \<in> set (rumors a (rm_OriginalName r)) \<and> rm_ID r = clock b (rm_OriginalName r) + 1
     \<and> clock b (rm_OriginalName r) < clock a (rm_OriginalName r)"
  using Diff_Some [OF assms(1,3)] not_in_status [OF assms(2)]
  by (auto simp: answers_def status_entry status_ids) (metis PeerStatus.select_convs add_diff_cancel)+

lemma Diff_status_None:
  assumes "range_order ka (VectorClock a)" and kb: "range_order kb (VectorClock b)"
  shows "Diff ka a (GetCurrentStatusPacket kb b) = Inr (None, f) \<longleftrightarrow>
     (\<forall>n. clock a n \<le> clock b n) \<and> (f \<longleftrightarrow> (\<exists>n. clock a n < clock b n))"
proof -
  have 1: "(\<forall>p \<in> set (st_Want (GetCurrentStatusPacket kb b)). P (ps_Identifier p) (ps_NextID p - 1))
      \<longleftrightarrow> (\<forall>n \<in> set kb. P n (clock b n))" for P
    by (simp add: GetCurrentStatusPacket_def)
  have 2: "(\<exists>p \<in> set (st_Want (GetCurrentStatusPacket kb b)). P (ps_Identifier p) (ps_NextID p - 1))
      \<longleftrightarrow> (\<exists>n \<in> set kb. P n (clock b n))" for P
    by (simp add: GetCurrentStatusPacket_def)
  have 3: "n \<notin> set kb \<Longrightarrow> clock b n = 0" for n
    by (rule not_in_status [OF kb])
  have 4: "(\<forall>n \<in> set kb. clock a n \<le> clock b n) \<and> (\<forall>n. n \<notin> set kb \<longrightarrow> clock a n = 0)
      \<longleftrightarrow> (\<forall>n. clock a n \<le> clock b n)" (is "?L \<longleftrightarrow> ?R")
  proof
    assume l: ?L
    show ?R
    proof
      fix n show "clock a n \<le> clock b n" using l by (cases "n \<in> set kb") auto
    qed
  next
    assume r: ?R
    have "clock a n = 0" if "n \<notin> set kb" for n
      using spec [OF r, of n] 3 [OF that] by simp
    with r show ?L by blast
  qed
  have 5: "(\<exists>n \<in> set kb. clock a n < clock b n) \<longleftrightarrow> (\<exists>n. clock a n < clock b n)"
  proof
    assume "\<exists>n. clock a n < clock b n"
    then obtain n where n: "clock a n < clock b n" by blast
    then have "n \<in> set kb" using 3 [of n] by (cases "n \<in> set kb") auto
    with n show "\<exists>n \<in> set kb. clock a n < clock b n" by blast
  qed blast
  show ?thesis
    unfolding Diff_None [OF assms(1)] 1 [of "\<lambda>n x. clock a n \<le> x"] 2 [of "\<lambda>n x. clock a n < x"]
      status_ids 5 4 [symmetric] by blast
qed

text \<open>The stores that mongering works on: the invariant, and no counter has wrapped.\<close>

definition ms_good :: "MessageStorage \<Rightarrow> bool" where
  "ms_good ms \<longleftrightarrow> ms_inv ms \<and> (\<forall>n. length (rumors ms n) < 2 ^ 32)"

lemma clock_length: "ms_good ms \<Longrightarrow> unat (clock ms n) = length (rumors ms n)"
  by (simp add: ms_good_def ms_invD(1) unat_of_nat)

lemma clock_less_length:
  "ms_good a \<Longrightarrow> ms_good b \<Longrightarrow> clock b n < clock a n \<longleftrightarrow> length (rumors b n) < length (rumors a n)"
  by (simp add: word_less_nat_alt clock_length)

lemma rumor_by_id:
  assumes "ms_good ms" "r \<in> set (rumors ms n)" "rm_ID r = x + 1"
  shows "unat x < length (rumors ms n) \<and> r = rumors ms n ! unat x"
proof -
  from assms(2) obtain i where i: "i < length (rumors ms n)" "r = rumors ms n ! i"
    by (auto simp: in_set_conv_nth)
  have "x = word_of_nat i"
    using assms(1,3) ms_invD(3) [OF _ i(1)] i(2) by (simp add: ms_good_def algebra_simps)
  moreover have "i < 2 ^ 32" using assms(1) i(1) by (auto simp: ms_good_def intro: less_trans)
  ultimately have "unat x = i" by (simp add: unat_of_nat)
  with i show ?thesis by simp
qed

lemma finite_rumors: "finite {n. rumors ms n \<noteq> []}"
proof (rule finite_subset)
  show "{n. rumors ms n \<noteq> []} \<subseteq> fset (fmdom (RumorMessages ms))"
    by (auto simp: rumors_def) (metis getd_notin)
qed simp

lemma mongering_round:
  assumes "ms_good a" "ms_good b" "\<And>m. range_order (ord m) m" "status_diff ord a b = Some r"
  shows "\<exists>n. length (rumors b n) < length (rumors a n) \<and> r = rumors a n ! length (rumors b n)
     \<and> rumors (receive_rumor b r) = (rumors b)(n := rumors b n @ [r]) \<and> ms_good (receive_rumor b r)"
proof -
  let ?n = "rm_OriginalName r"
  obtain f where "Diff (ord (VectorClock a)) a (GetCurrentStatusPacket (ord (VectorClock b)) b)
      = Inr (Some r, f)"
    using assms(4) by (auto simp: status_diff_def split: sum.splits)
  with Diff_status_Some [OF _ assms(3)] assms(1)
  have d: "r \<in> set (rumors a ?n)" "rm_ID r = clock b ?n + 1" "clock b ?n < clock a ?n"
    by (auto simp: ms_good_def)
  have new: "IsNewMessage b r" using d(2) by (simp add: IsNewMessage_iff)
  have len: "length (rumors b ?n) < length (rumors a ?n)"
    using d(3) clock_less_length [OF assms(1,2)] by blast
  have "ms_inv (receive_rumor b r)"
    using assms(2) ms_inv_AddRumor by (simp add: receive_rumor_def ms_good_def)
  moreover have "length (rumors (receive_rumor b r) m) < 2 ^ 32" for m
  proof -
    have "length (rumors b m) < 2 ^ 32" "length (rumors a ?n) < 2 ^ 32"
      using assms(1,2) by (simp_all add: ms_good_def)
    then show ?thesis using new len by (auto simp: receive_rumor_def AddRumor_simps)
  qed
  ultimately have "ms_good (receive_rumor b r)" by (simp add: ms_good_def)
  then show ?thesis
    using new len rumor_by_id [OF assms(1) d(1,2)] clock_length [OF assms(2), of ?n]
    by (auto simp: receive_rumor_def AddRumor_simps intro!: exI [of _ ?n])
qed

lemma mongering_stops:
  assumes "ms_good a" "ms_good b" "\<And>m. range_order (ord m) m" "status_diff ord a b = None"
  shows "length (rumors a n) \<le> length (rumors b n)"
proof -
  from Diff_total assms(1) obtain r f where
    d: "Diff (ord (VectorClock a)) a (GetCurrentStatusPacket (ord (VectorClock b)) b) = Inr (r, f)"
    unfolding ms_good_def by (metis prod.collapse)
  with assms(4) have "clock a n \<le> clock b n"
    using Diff_status_None [OF assms(3) assms(3)] by (auto simp: status_diff_def)
  then show ?thesis using clock_length assms(1,2) by (simp add: word_le_nat_alt)
qed

lemma storage_exchange:
  assumes "\<And>m. range_order (ord m) m"
  shows "rumor_exchange rumors (status_diff ord) receive_rumor ms_good"
  by unfold_locales
    (use mongering_round [OF _ _ assms] mongering_stops [OF _ _ assms] finite_rumors in blast)+

interpretation exchange: rumor_exchange rumors "status_diff sorted_keys" receive_rumor ms_good
  by (rule storage_exchange) (rule range_order_sorted_keys)

section \<open>Properties\<close>

text \<open>C17: In every store that some sequence of arrivals produces, the clock of each name is
  the number of its rumors (modulo \<open>2^32\<close>), the rumor at index \<open>i\<close> is the name's rumor with
  ID \<open>i + 1\<close>, and the frontend's list restricted to a name is that name's non-empty rumors
  in ID order.\<close>
theorem store_invariant: "ms_inv (store_run (InitMessageStorage g) ops)"
  by (rule ms_inv_store_run [OF ms_inv_Init])

text \<open>C35: While fewer than \<open>2^32 - 1\<close> rumors of an origin are stored, its clock is exactly
  their number and a rumor with ID 0 is rejected, although the subtraction \<open>ID - 1\<close> wraps.\<close>
theorem no_wrap_below_limit:
  assumes "length (rumors (store_run (InitMessageStorage g) ops) n) < 2 ^ 32 - 1"
  shows "unat (clock (store_run (InitMessageStorage g) ops) n)
           = length (rumors (store_run (InitMessageStorage g) ops) n)
       \<and> \<not> snd (AddRumorMessage (store_run (InitMessageStorage g) ops)
                  \<lparr>rm_OriginalName = n, rm_ID = 0, rm_Text = t\<rparr>)"
proof -
  let ?ms = "store_run (InitMessageStorage g) ops"
  have u: "unat (clock ?ms n) = length (rumors ?ms n)"
    using assms ms_invD(1) [OF ms_inv_store_run [OF ms_inv_Init]] by (simp add: unat_of_nat)
  have "unat (- 1 :: u32) = 2 ^ 32 - 1"
    by (simp add: unsigned_minus_1_eq_mask mask_eq_exp_minus_1)
  with u assms have "clock ?ms n \<noteq> - 1" by (metis nat_neq_iff)
  with u show ?thesis by (auto simp: AddRumor_accepted)
qed

theorem no_wrap_below_limit_witness:
  "unat (clock (store_run (InitMessageStorage ''A'')
      [ArriveRumor \<lparr>rm_OriginalName = ''A'', rm_ID = 1, rm_Text = ''hi''\<rparr>]) ''A'') = 1"
proof -
  let ?ops = "[ArriveRumor \<lparr>rm_OriginalName = ''A'', rm_ID = 1, rm_Text = ''hi''\<rparr>]"
  have r: "rumors (store_run (InitMessageStorage ''A'') ?ops) ''A'' =
     [\<lparr>rm_OriginalName = ''A'', rm_ID = 1, rm_Text = ''hi''\<rparr>]"
    by (simp add: AddRumor_simps IsNewMessage_iff)
  show ?thesis using no_wrap_below_limit [of "''A''" ?ops "''A''"] unfolding r by simp
qed

text \<open>C18: \<open>Diff\<close> never panics, whatever status a peer sends; and a rumor that it returns is
  stored and answers the status: it is the one the peer asks for in an entry that is
  behind, or the first rumor of a name the status does not mention.\<close>
theorem Diff_safe_and_answers:
  "\<exists>res. Diff ks (store_run (InitMessageStorage g) ops) sp = Inr res \<and>
     (case fst res of None \<Rightarrow> True
      | Some r \<Rightarrow> r \<in> set (rumors (store_run (InitMessageStorage g) ops) (rm_OriginalName r))
          \<and> answers (store_run (InitMessageStorage g) ops) (st_Want sp) r)"
proof -
  have i: "ms_inv (store_run (InitMessageStorage g) ops)"
    by (rule ms_inv_store_run [OF ms_inv_Init])
  obtain r f where "Diff ks (store_run (InitMessageStorage g) ops) sp = Inr (r, f)"
    using Diff_total [OF i] by fastforce
  with Diff_Some [OF i] show ?thesis by (cases r) auto
qed

text \<open>\<open>Diff\<close> returns no rumor exactly when no entry of the status is behind and every
  name that the status omits is empty here; its flag then says whether some entry is ahead.
  This holds for every order in which the runtime visits the clock.\<close>
theorem Diff_none_iff:
  assumes "range_order ks (VectorClock ms)"
  shows "Diff ks ms sp = Inr (None, f) \<longleftrightarrow>
     (\<forall>p \<in> set (st_Want sp). clock ms (ps_Identifier p) \<le> ps_NextID p - 1)
       \<and> (\<forall>n. n \<notin> ps_Identifier ` set (st_Want sp) \<longrightarrow> clock ms n = 0)
       \<and> (f \<longleftrightarrow> (\<exists>p \<in> set (st_Want sp). clock ms (ps_Identifier p) < ps_NextID p - 1))"
  by (rule Diff_None [OF assms])

theorem Diff_none_iff_witness:
  "Diff [] (InitMessageStorage ''A'') \<lparr>st_Want = [\<lparr>ps_Identifier = ''B'', ps_NextID = 3\<rparr>]\<rparr>
     = Inr (None, True)"
  using Diff_none_iff [of "[]" "InitMessageStorage ''A''"
      "\<lparr>st_Want = [\<lparr>ps_Identifier = ''B'', ps_NextID = 3\<rparr>]\<rparr>" True]
  by (simp add: range_order_def InitMessageStorage_def clock_def)

text \<open>A store compared with the status of another reports that it is in sync, no rumor to
  send and none to ask for, exactly when the two vector clocks agree on every name.\<close>
lemma in_sync_iff_clocks_equal:
  assumes "range_order ka (VectorClock a)" and "range_order kb (VectorClock b)"
  shows "Diff ka a (GetCurrentStatusPacket kb b) = Inr (None, False) \<longleftrightarrow> clock a = clock b"
  unfolding Diff_status_None [OF assms]
  by (auto simp: fun_eq_iff not_less intro: antisym)

text \<open>The rumor that \<open>Diff\<close> finds against a peer's own status is exactly the one the peer
  accepts next: the peer's \<open>AddRumorMessage\<close> takes it and its clock for that origin moves
  one step towards the sender's.\<close>
theorem Diff_rumor_is_accepted:
  assumes "ms_inv a" and "range_order kb (VectorClock b)"
    and "Diff ka a (GetCurrentStatusPacket kb b) = Inr (Some r, f)"
  shows "snd (AddRumorMessage b r)
     \<and> clock (fst (AddRumorMessage b r)) (rm_OriginalName r) = clock b (rm_OriginalName r) + 1
     \<and> clock b (rm_OriginalName r) < clock a (rm_OriginalName r)"
  using Diff_status_Some [OF assms] by (simp add: AddRumor_simps IsNewMessage_iff)

definition one_rumor_store :: MessageStorage where
  "one_rumor_store = store_run (InitMessageStorage ''A'')
     [ArriveRumor \<lparr>rm_OriginalName = ''A'', rm_ID = 1, rm_Text = ''hi''\<rparr>]"

lemma one_rumor_store_rumors:
  "rumors one_rumor_store n = (if n = ''A'' then [\<lparr>rm_OriginalName = ''A'', rm_ID = 1, rm_Text = ''hi''\<rparr>] else [])"
  by (simp add: one_rumor_store_def AddRumor_simps IsNewMessage_iff)

lemma one_rumor_store_clock: "clock one_rumor_store n = (if n = ''A'' then 1 else 0)"
  by (simp add: one_rumor_store_def AddRumor_simps IsNewMessage_iff)

lemma one_rumor_store_good: "ms_good one_rumor_store"
  by (simp add: ms_good_def one_rumor_store_rumors)
    (simp add: one_rumor_store_def ms_inv_AddRumor ms_inv_Init)

lemma Init_good: "ms_good (InitMessageStorage g)"
  by (simp add: ms_good_def ms_inv_Init)

theorem Diff_rumor_is_accepted_witness:
  "snd (AddRumorMessage (InitMessageStorage ''B'') \<lparr>rm_OriginalName = ''A'', rm_ID = 1, rm_Text = ''hi''\<rparr>)"
proof -
  have "Diff [''A''] one_rumor_store (GetCurrentStatusPacket [] (InitMessageStorage ''B''))
     = Inr (Some \<lparr>rm_OriginalName = ''A'', rm_ID = 1, rm_Text = ''hi''\<rparr>, False)"
    by (simp add: Diff_def GetCurrentStatusPacket_def one_rumor_store_rumors one_rumor_store_clock
        go_simps)
  from Diff_rumor_is_accepted [OF _ _ this] one_rumor_store_good show ?thesis
    by (simp add: ms_good_def range_order_def InitMessageStorage_def)
qed



end
