(* ===== verification/NameSet.thy ===== *)
theory NameSet
  imports Prelude
begin

text \<open>
  What the blockchain manager uses of a transaction set: which file names it reserves, and
  what union and subtraction do to them. The effect of undoing and re-applying a whole
  branch is proved here once.
\<close>

locale name_set =
  fixes names :: "'s \<Rightarrow> 'n set"
    and empty :: 's
    and union :: "'s \<Rightarrow> 's \<Rightarrow> 's"
    and subtract :: "'s \<Rightarrow> 's \<Rightarrow> 's"
    and contains :: "'s \<Rightarrow> 'n \<Rightarrow> bool"
  assumes names_empty: "names empty = {}"
    and names_union: "names (union a b) = names a \<union> names b"
    and names_subtract: "names (subtract a b) = names a - names b"
    and contains_iff: "contains a n \<longleftrightarrow> n \<in> names a"
begin

lemma names_union_all: "names (fold (\<lambda>x s. union s x) xs s) = names s \<union> \<Union> (names ` set xs)"
  by (induction xs arbitrary: s) (auto simp: names_union)

lemma names_subtract_all: "names (fold (\<lambda>x s. subtract s x) xs s) = names s - \<Union> (names ` set xs)"
  by (induction xs arbitrary: s) (auto simp: names_subtract)

lemma names_reapply:
  "names (fold (\<lambda>x s. subtract s x) new (fold (\<lambda>x s. union s x) old s)) =
     (names s \<union> \<Union> (names ` set old)) - \<Union> (names ` set new)"
  by (simp add: names_union_all names_subtract_all)

end

end
