(* ===== verification/TransactionsSet.thy ===== *)
theory TransactionsSet
  imports Messages NameSet
begin

text \<open>
  Sets of transactions keyed by file name (\<open>models/blockchain/TransactionsSet.go\<close>). The
  struct has one field, the map \<open>s\<close>, so the set is that map. The transactions are reached
  through pointers and never written after they are stored, with one exception: in
  \<open>InitFromSlice\<close> the pointer stored under each name is \<open>&tx\<close> for the variable of the
  \<open>range\<close> loop. The repository predates Go 1.22 and has no module file, so there is one such
  variable for the whole loop, and after the loop every stored pointer reads the last
  element of the slice.
\<close>

type_synonym TransactionsSet = "(string, TxPublish) fmap"

abbreviation tx_name :: "TxPublish \<Rightarrow> string" where
  "tx_name tx \<equiv> f_Name (tx_File tx)"

definition InitEmpty :: TransactionsSet where
  "InitEmpty = fmempty"

definition ts_containsFilename :: "TransactionsSet \<Rightarrow> string \<Rightarrow> bool" where
  "ts_containsFilename ts filename = has_key ts filename"

definition ts_contains :: "TransactionsSet \<Rightarrow> TxPublish \<Rightarrow> bool" where
  "ts_contains ts tx = ts_containsFilename ts (tx_name tx)"

definition ts_get :: "TransactionsSet \<Rightarrow> string \<Rightarrow> TxPublish option" where
  "ts_get ts filename = fmlookup ts filename"

definition ts_add :: "TransactionsSet \<Rightarrow> TxPublish \<Rightarrow> TransactionsSet \<times> bool" where
  "ts_add ts tx = (if has_key ts (tx_name tx) then (ts, False) else (fmupd (tx_name tx) tx ts, True))"

definition InitFromSlice :: "TxPublish list \<Rightarrow> TransactionsSet" where
  "InitFromSlice s = fmmap (\<lambda>tx. last s) (foldl (\<lambda>ts tx. fst (ts_add ts tx)) InitEmpty s)"

definition ts_union :: "TransactionsSet \<Rightarrow> TransactionsSet \<Rightarrow> TransactionsSet" where
  "ts_union ts other = ts ++\<^sub>f other"

definition ts_subtract :: "TransactionsSet \<Rightarrow> TransactionsSet \<Rightarrow> TransactionsSet" where
  "ts_subtract ts other = fmdrop_fset (fmdom other) ts"

text \<open>\<open>ks\<close> is the order in which the runtime visits the map.\<close>

definition getSliceCopy :: "string list \<Rightarrow> TransactionsSet \<Rightarrow> TxPublish list" where
  "getSliceCopy ks ts = List.map_filter (fmlookup ts) ks"

definition ts_isEmpty :: "TransactionsSet \<Rightarrow> bool" where
  "ts_isEmpty ts = (map_len ts = 0)"

definition ts_clear :: "TransactionsSet \<Rightarrow> TransactionsSet" where
  "ts_clear ts = InitEmpty"

section \<open>The names a set reserves\<close>

definition ts_names :: "TransactionsSet \<Rightarrow> string set" where
  "ts_names ts = fset (fmdom ts)"

interpretation txs: name_set ts_names InitEmpty ts_union ts_subtract ts_containsFilename
  by unfold_locales
    (auto simp: ts_names_def InitEmpty_def ts_union_def ts_subtract_def ts_containsFilename_def
      has_key_def)

lemmas ts_names_simps [simp] = txs.names_empty txs.names_union txs.names_subtract

lemma ts_contains_iff [simp]: "ts_contains ts tx \<longleftrightarrow> tx_name tx \<in> ts_names ts"
  by (simp add: ts_contains_def txs.contains_iff)

lemma ts_names_add [simp]: "ts_names (fst (ts_add ts tx)) = insert (tx_name tx) (ts_names ts)"
  by (auto simp: ts_add_def ts_names_def has_key_def)

lemma ts_names_clear [simp]: "ts_names (ts_clear ts) = {}"
  by (simp add: ts_clear_def)

lemma ts_isEmpty_iff: "ts_isEmpty ts \<longleftrightarrow> ts_names ts = {}"
  by (auto simp: ts_isEmpty_def map_len_0 has_key_def ts_names_def)

lemma ts_names_foldl:
  "ts_names (foldl (\<lambda>ts tx. fst (ts_add ts tx)) ts s) = ts_names ts \<union> tx_name ` set s"
  by (induction s arbitrary: ts) auto

lemma ts_names_InitFromSlice [simp]: "ts_names (InitFromSlice s) = tx_name ` set s"
proof -
  have "ts_names (fmmap f m) = ts_names m" for f and m :: TransactionsSet
    by (simp add: ts_names_def)
  then show ?thesis by (simp add: InitFromSlice_def ts_names_foldl)
qed

lemma getSliceCopy_map: "range_order ks ts \<Longrightarrow> getSliceCopy ks ts = map (\<lambda>k. the (fmlookup ts k)) ks"
proof -
  assume "range_order ks ts"
  then have "\<forall>k \<in> set ks. \<exists>v. fmlookup ts k = Some v"
    by (simp add: range_order_set has_key_lookup)
  then show ?thesis
    by (induction ks) (auto simp: getSliceCopy_def List.map_filter_simps)
qed

text \<open>A set whose transactions are stored under their own names.\<close>

definition ts_keyed :: "TransactionsSet \<Rightarrow> bool" where
  "ts_keyed ts \<longleftrightarrow> (\<forall>k tx. fmlookup ts k = Some tx \<longrightarrow> tx_name tx = k)"

lemma ts_keyed_empty [simp]: "ts_keyed InitEmpty"
  by (simp add: ts_keyed_def InitEmpty_def)

lemma ts_keyed_add: "ts_keyed ts \<Longrightarrow> ts_keyed (fst (ts_add ts tx))"
  by (auto simp: ts_keyed_def ts_add_def)

lemma ts_keyed_subtract: "ts_keyed ts \<Longrightarrow> ts_keyed (ts_subtract ts other)"
  by (auto simp: ts_keyed_def ts_subtract_def)

lemma getSliceCopy_names:
  assumes "range_order ks ts" "ts_keyed ts"
  shows "map tx_name (getSliceCopy ks ts) = ks"
proof -
  have "\<forall>k \<in> set ks. tx_name (the (fmlookup ts k)) = k"
    using assms by (auto simp: range_order_set has_key_lookup ts_keyed_def)
  then show ?thesis by (simp add: getSliceCopy_map [OF assms(1)] map_idI)
qed

end
