(* ===== verification/BlockNode.thy ===== *)
theory BlockNode
  imports TransactionsSet
begin

text \<open>
  Nodes of the block tree (\<open>models/blockchain/BlockNode.go\<close>). The two constructor
  functions of the file are the only places that build a node and no field is written
  later, so a node is a value: the fake root, whose parent, set and block are nil, or a
  node with all of them. Nodes are compared by pointer, so each carries the address at
  which it was allocated.
\<close>

datatype blockNode =
    FakeNode (addr: nat)
  | BlockNode (addr: nat) (bn_depth: nat) (bn_parent: blockNode) (bn_txSet: TransactionsSet)
      (bn_block: Block)

fun depth :: "blockNode \<Rightarrow> nat" where
  "depth (FakeNode a) = 0"
| "depth (BlockNode a d p t b) = d"

fun parent :: "blockNode \<Rightarrow> blockNode option" where
  "parent (FakeNode a) = None"
| "parent (BlockNode a d p t b) = Some p"

fun txSet :: "blockNode \<Rightarrow> TransactionsSet option" where
  "txSet (FakeNode a) = None"
| "txSet (BlockNode a d p t b) = Some t"

definition InitBlockNode :: "nat \<Rightarrow> blockNode \<Rightarrow> Block \<Rightarrow> blockNode" where
  "InitBlockNode a p b = BlockNode a (depth p + 1) p (InitFromSlice (b_Transactions b)) b"

definition InitFakeBlockNode :: "nat \<Rightarrow> blockNode" where
  "InitFakeBlockNode a = FakeNode a"

definition isFake :: "blockNode \<Rightarrow> bool" where
  "isFake bn \<longleftrightarrow> depth bn = 0 \<and> parent bn = None"

text \<open>\<open>txSet\<close> is nil in the fake node: reading it there panics.\<close>

definition containsTransaction :: "blockNode \<Rightarrow> TxPublish \<Rightarrow> bool go" where
  "containsTransaction bn tx =
     (case txSet bn of None \<Rightarrow> Inl NilDereference | Some ts \<Rightarrow> Inr (ts_contains ts tx))"

fun getBlockHash :: "digest \<Rightarrow> blockNode \<Rightarrow> hash" where
  "getBlockHash H (FakeNode a) = zero_hash"
| "getBlockHash H (BlockNode a d p t b) = Block_Hash H b"

definition blockNode_String :: "digest \<Rightarrow> blockNode \<Rightarrow> string" where
  "blockNode_String H bn = hex_EncodeToString (getBlockHash H bn)"

text \<open>
  \<open>getLSA\<close>: swap so that the second node is not deeper; climb from the first until the
  depths agree; climb from both until the pointers agree. A nil pointer is \<open>None\<close>.
\<close>

fun climb_to :: "nat \<Rightarrow> blockNode \<Rightarrow> blockNode option" where
  "climb_to d (FakeNode a) = (if 0 \<noteq> d then None else Some (FakeNode a))"
| "climb_to d (BlockNode a e p t b) =
     (if e \<noteq> d then climb_to d p else Some (BlockNode a e p t b))"

fun climb_both :: "blockNode \<Rightarrow> blockNode option \<Rightarrow> blockNode option" where
  "climb_both a None = Some a"
| "climb_both (FakeNode x) (Some b) =
     (if x \<noteq> addr b then None else Some (FakeNode x))"
| "climb_both (BlockNode x d p t k) (Some b) =
     (if x \<noteq> addr b then climb_both p (parent b) else Some (BlockNode x d p t k))"

definition getLSA :: "blockNode \<Rightarrow> blockNode \<Rightarrow> blockNode option" where
  "getLSA a b =
     (let (a, b) = (if depth b > depth a then (b, a) else (a, b)) in
      case climb_to (depth b) a of None \<Rightarrow> None
      | Some a \<Rightarrow> climb_both a (Some b))"

section \<open>Chains\<close>

text \<open>The nodes that walking the parent pointers visits, the node itself first.\<close>

fun ancestors :: "blockNode \<Rightarrow> blockNode list" where
  "ancestors (FakeNode a) = [FakeNode a]"
| "ancestors (BlockNode a d p t b) = BlockNode a d p t b # ancestors p"

lemma isFake_iff [simp]: "isFake bn \<longleftrightarrow> (\<exists>a. bn = FakeNode a)"
  by (cases bn) (auto simp: isFake_def)

lemma self_in_ancestors [simp, intro]: "n \<in> set (ancestors n)"
  by (cases n) auto

lemma ancestors_trans: "l \<in> set (ancestors m) \<Longrightarrow> m \<in> set (ancestors n) \<Longrightarrow> l \<in> set (ancestors n)"
  by (induction n) auto

lemma addr_InitBlockNode [chain_simps]: "addr (InitBlockNode a p b) = a"
  by (simp add: InitBlockNode_def)

lemma depth_InitBlockNode [chain_simps]: "depth (InitBlockNode a p b) = Suc (depth p)"
  by (simp add: InitBlockNode_def)

lemma ancestors_InitBlockNode [chain_simps]:
  "ancestors (InitBlockNode a p b) = InitBlockNode a p b # ancestors p"
  by (simp add: InitBlockNode_def)

lemma getBlockHash_InitBlockNode [chain_simps]: "getBlockHash H (InitBlockNode a p b) = Block_Hash H b"
  by (simp add: InitBlockNode_def)

lemma length_getBlockHash [simp]: "length (getBlockHash H n) = 32"
  by (cases n) auto

text \<open>
  A well-formed node of the tree with root \<open>FakeNode 0\<close>: depths count the blocks below,
  the set is the one built from the block, the block is good and names its parent's hash.
\<close>

fun wf_node :: "digest \<Rightarrow> blockNode \<Rightarrow> bool" where
  "wf_node H (FakeNode a) = (a = 0)"
| "wf_node H (BlockNode a d p t b) =
     (d = Suc (depth p) \<and> t = InitFromSlice (b_Transactions b) \<and> IsGood H b
      \<and> b_PrevHash b = getBlockHash H p \<and> wf_node H p)"

lemma wf_InitBlockNode [chain_simps]:
  "wf_node H (InitBlockNode a p b) \<longleftrightarrow> IsGood H b \<and> b_PrevHash b = getBlockHash H p \<and> wf_node H p"
  by (auto simp: InitBlockNode_def)

lemma wf_ancestor: "wf_node H n \<Longrightarrow> m \<in> set (ancestors n) \<Longrightarrow> wf_node H m"
  by (induction n) auto

lemma root_ancestor: "wf_node H n \<Longrightarrow> FakeNode 0 \<in> set (ancestors n)"
  by (induction n) auto

lemma ancestor_depth: "wf_node H n \<Longrightarrow> m \<in> set (ancestors n) \<Longrightarrow> m = n \<or> depth m < depth n"
  by (induction n) fastforce+

lemma ancestor_depth_le: "wf_node H n \<Longrightarrow> m \<in> set (ancestors n) \<Longrightarrow> depth m \<le> depth n"
  by (blast dest: ancestor_depth intro: less_imp_le order_refl)

lemma depth_length: "wf_node H n \<Longrightarrow> length (ancestors n) = Suc (depth n)"
  by (induction n) auto

lemma depth_0_root: "wf_node H n \<Longrightarrow> depth n = 0 \<longleftrightarrow> n = FakeNode 0"
  by (cases n) auto

section \<open>Lowest shared ancestor\<close>

text \<open>Pointer equality coincides with equality of nodes on a set of allocated nodes.\<close>

definition addr_unique :: "blockNode set \<Rightarrow> bool" where
  "addr_unique U \<longleftrightarrow> (\<forall>m \<in> U. \<forall>n \<in> U. addr m = addr n \<longrightarrow> m = n)"

lemma addr_uniqueD: "addr_unique U \<Longrightarrow> m \<in> U \<Longrightarrow> n \<in> U \<Longrightarrow> addr m = addr n \<Longrightarrow> m = n"
  by (auto simp: addr_unique_def)

lemma climb_to_level:
  assumes "wf_node H n" "d \<le> depth n"
  shows "\<exists>m. climb_to d n = Some m \<and> m \<in> set (ancestors n) \<and> depth m = d
     \<and> (\<forall>c \<in> set (ancestors n). depth c \<le> d \<longrightarrow> c \<in> set (ancestors m))"
  using assms
proof (induction n)
  case (BlockNode a e p t b)
  show ?case
  proof (cases "e = d")
    case True
    then show ?thesis by simp
  next
    case False
    with BlockNode.prems have "wf_node H p" "d \<le> depth p" by auto
    from BlockNode.IH [OF this] show ?thesis
      using False BlockNode.prems by (auto simp: ancestors_trans)
  qed
qed auto

lemma climb_both_meets:
  assumes "addr_unique (set (ancestors a) \<union> set (ancestors b))"
    and "wf_node H a" "wf_node H b" "depth a = depth b"
  shows "\<exists>l. climb_both a (Some b) = Some l \<and> l \<in> set (ancestors a) \<and> l \<in> set (ancestors b)
     \<and> (\<forall>c \<in> set (ancestors a) \<inter> set (ancestors b). depth c \<le> depth l)"
  using assms
proof (induction a arbitrary: b)
  case (FakeNode x)
  then have "b = FakeNode 0" using depth_0_root [of H b] by simp
  with FakeNode show ?case by simp
next
  case (BlockNode x d p t k)
  let ?a = "BlockNode x d p t k"
  show ?case
  proof (cases "x = addr b")
    case True
    have ab: "b = ?a"
      by (rule addr_uniqueD [OF BlockNode.prems(1)]) (simp_all add: True)
    have "\<forall>c \<in> set (ancestors ?a). depth c \<le> depth ?a"
      by (blast intro: ancestor_depth_le [OF BlockNode.prems(2)])
    then show ?thesis unfolding ab by (intro exI [of _ ?a] conjI) simp_all
  next
    case False
    from BlockNode.prems(3,4) obtain y q s j where b: "b = BlockNode y d q s j"
      by (cases b) (use BlockNode.prems(2) in auto)
    have "addr_unique (set (ancestors p) \<union> set (ancestors q))"
      using BlockNode.prems(1) b by (auto simp: addr_unique_def)
    moreover have "wf_node H p" "wf_node H q" "depth p = depth q"
      using BlockNode.prems b by auto
    ultimately obtain l where l: "climb_both p (Some q) = Some l" "l \<in> set (ancestors p)"
      "l \<in> set (ancestors q)" "\<forall>c \<in> set (ancestors p) \<inter> set (ancestors q). depth c \<le> depth l"
      using BlockNode.IH by blast
    have "?a \<noteq> b" using False by auto
    have "depth ?a = Suc (depth p)" "depth b = Suc (depth q)"
      using BlockNode.prems(2,3) b by simp_all
    then have "?a \<notin> set (ancestors q)" "b \<notin> set (ancestors p)"
      using ancestor_depth_le [OF \<open>wf_node H q\<close>, of ?a] ancestor_depth_le [OF \<open>wf_node H p\<close>, of b]
        \<open>depth p = depth q\<close> by linarith+
    then have "set (ancestors ?a) \<inter> set (ancestors b) = set (ancestors p) \<inter> set (ancestors q)"
      using \<open>?a \<noteq> b\<close> b by auto
    with l False b show ?thesis by auto
  qed
qed

lemma getLSA_meets:
  assumes "addr_unique (set (ancestors a) \<union> set (ancestors b))" "wf_node H a" "wf_node H b"
  shows "\<exists>l. getLSA a b = Some l \<and> l \<in> set (ancestors a) \<and> l \<in> set (ancestors b)
     \<and> (\<forall>c \<in> set (ancestors a) \<inter> set (ancestors b). depth c \<le> depth l)"
proof -
  have main: "\<exists>l m. climb_to (depth v) u = Some m \<and> climb_both m (Some v) = Some l
     \<and> l \<in> set (ancestors u) \<and> l \<in> set (ancestors v)
     \<and> (\<forall>c \<in> set (ancestors u) \<inter> set (ancestors v). depth c \<le> depth l)"
    if u: "addr_unique (set (ancestors u) \<union> set (ancestors v))" "wf_node H u" "wf_node H v"
      "depth v \<le> depth u" for u v
  proof -
    obtain m where m: "climb_to (depth v) u = Some m" "m \<in> set (ancestors u)" "depth m = depth v"
      "\<forall>c \<in> set (ancestors u). depth c \<le> depth v \<longrightarrow> c \<in> set (ancestors m)"
      using climb_to_level [OF u(2,4)] by blast
    have sub: "set (ancestors m) \<subseteq> set (ancestors u)" using m(2) ancestors_trans by blast
    then have "addr_unique (set (ancestors m) \<union> set (ancestors v))"
      using u(1) by (auto simp: addr_unique_def)
    from climb_both_meets [OF this wf_ancestor [OF u(2) m(2)] u(3) m(3)] obtain l where
      l: "climb_both m (Some v) = Some l" "l \<in> set (ancestors m)" "l \<in> set (ancestors v)"
        "\<forall>c \<in> set (ancestors m) \<inter> set (ancestors v). depth c \<le> depth l" by blast
    have "depth c \<le> depth l" if "c \<in> set (ancestors u) \<inter> set (ancestors v)" for c
    proof -
      have "depth c \<le> depth v" using ancestor_depth [OF u(3), of c] that by auto
      with that m(4) l(4) show ?thesis by blast
    qed
    with m l sub show ?thesis by blast
  qed
  show ?thesis
  proof (cases "depth b > depth a")
    case True
    with main [of b a] assms show ?thesis by (fastforce simp: getLSA_def Un_commute)
  next
    case False
    with main [of a b] assms show ?thesis by (fastforce simp: getLSA_def)
  qed
qed

end
