(* ===== verification/BlockchainManager.thy ===== *)
theory BlockchainManager
  imports BlockNode
begin

text \<open>
  The block tree of a gossiper, its longest chain, the pending transactions and the blocks
  that wait for their parent (\<open>models/blockchain/BlockchainManager.go\<close>). The methods run
  under the manager's mutex, except for the first half of a mining attempt, which reads the
  state without it: \<open>DoMining\<close> therefore takes the state it read and the state it finds when
  it has the lock.

  \<open>bm_next\<close> counts the nodes allocated so far. A map iteration whose order matters takes
  the order as an argument; \<open>ord\<close> gives it for the waiting blocks.
\<close>

section \<open>State and operations\<close>

record BlockchainManager =
  bm_tail :: blockNode
  bm_blocks :: "(hash, blockNode) fmap"
  bm_pendingTx :: TransactionsSet
  bm_noParentBlocks :: "(hash, Block) fmap"
  bm_next :: nat

definition InitBlockchainManager :: "digest \<Rightarrow> BlockchainManager" where
  "InitBlockchainManager H = (let t = InitFakeBlockNode 0 in
     \<lparr>bm_tail = t, bm_blocks = fmupd (getBlockHash H t) t fmempty, bm_pendingTx = InitEmpty,
      bm_noParentBlocks = fmempty, bm_next = 1\<rparr>)"

text \<open>\<open>curBlock == lsa\<close> for a node and a pointer that may be nil.\<close>

fun same_ptr :: "blockNode \<Rightarrow> blockNode option \<Rightarrow> bool" where
  "same_ptr cur None = False"
| "same_ptr cur (Some l) = (addr cur = addr l)"

text \<open>The two loops of a history rewrite, from a node down to the shared ancestor. The set
  of the fake node is nil, so passing it panics.\<close>

fun undo_history :: "blockNode option \<Rightarrow> blockNode \<Rightarrow> TransactionsSet \<Rightarrow> nat
    \<Rightarrow> (TransactionsSet \<times> nat) go" where
  "undo_history lsa (FakeNode a) pend undone =
     (if same_ptr (FakeNode a) lsa then Inr (pend, undone) else Inl NilDereference)"
| "undo_history lsa (BlockNode a d p t b) pend undone =
     (if same_ptr (BlockNode a d p t b) lsa then Inr (pend, undone)
      else undo_history lsa p (ts_union pend t) (undone + 1))"

fun apply_history :: "blockNode option \<Rightarrow> blockNode \<Rightarrow> TransactionsSet \<Rightarrow> TransactionsSet go" where
  "apply_history lsa (FakeNode a) pend =
     (if same_ptr (FakeNode a) lsa then Inr pend else Inl NilDereference)"
| "apply_history lsa (BlockNode a d p t b) pend =
     (if same_ptr (BlockNode a d p t b) lsa then Inr pend
      else apply_history lsa p (ts_subtract pend t))"

definition appendToTheTree :: "digest \<Rightarrow> BlockchainManager \<Rightarrow> Block \<Rightarrow> BlockchainManager go" where
  "appendToTheTree H bm block =
    (if b_PrevHash block = getBlockHash H (bm_tail bm) then
       let n = InitBlockNode (bm_next bm) (bm_tail bm) block in
       Inr (bm\<lparr>bm_tail := n, bm_next := bm_next bm + 1,
               bm_blocks := fmupd (Block_Hash H block) n (bm_blocks bm),
               bm_pendingTx := ts_subtract (bm_pendingTx bm) (bn_txSet n)\<rparr>)
     else case fmlookup (bm_blocks bm) (b_PrevHash block) of
       None \<Rightarrow> Inl NilDereference
     | Some parentNode \<Rightarrow>
         let n = InitBlockNode (bm_next bm) parentNode block in
         if depth parentNode < depth (bm_tail bm) then
           Inr (bm\<lparr>bm_next := bm_next bm + 1,
                   bm_blocks := fmupd (Block_Hash H block) n (bm_blocks bm)\<rparr>)
         else
           let lsa = getLSA (bm_tail bm) parentNode in
           go_bind (undo_history lsa (bm_tail bm) (bm_pendingTx bm) 0) (\<lambda>(pend, undone).
           go_map (\<lambda>pend. bm\<lparr>bm_tail := n, bm_next := bm_next bm + 1,
               bm_blocks := fmupd (Block_Hash H block) n (bm_blocks bm),
               bm_pendingTx := pend\<rparr>)
             (apply_history lsa n pend)))"

text \<open>One pass over the waiting blocks; the test is on the block's own hash.\<close>

fun checkPendingBlocks :: "digest \<Rightarrow> hash list \<Rightarrow> BlockchainManager \<Rightarrow> bool
    \<Rightarrow> (BlockchainManager \<times> bool) go" where
  "checkPendingBlocks H [] bm changed = Inr (bm, changed)"
| "checkPendingBlocks H (hash # ks) bm changed =
     (case fmlookup (bm_noParentBlocks bm) hash of
        None \<Rightarrow> checkPendingBlocks H ks bm changed
      | Some block \<Rightarrow>
          if \<not> has_key (bm_blocks bm) hash then checkPendingBlocks H ks bm changed
          else go_bind
            (appendToTheTree H (bm\<lparr>bm_noParentBlocks := fmdrop hash (bm_noParentBlocks bm)\<rparr>) block)
            (\<lambda>bm. checkPendingBlocks H ks bm True))"

lemma append_noParent:
  "appendToTheTree H bm b = Inr bm' \<Longrightarrow> bm_noParentBlocks bm' = bm_noParentBlocks bm"
  by (auto simp: appendToTheTree_def Let_def split: if_splits option.splits)

lemma map_len_drop: "has_key m k \<Longrightarrow> map_len (fmdrop k m) < map_len m"
  unfolding map_len_def has_key_def fmdom_drop by (rule fcard_fminus1_less)

lemma checkPending_decreases:
  "checkPendingBlocks H ks bm c = Inr (bm', c') \<Longrightarrow>
     map_len (bm_noParentBlocks bm') \<le> map_len (bm_noParentBlocks bm)
     \<and> (c' \<and> \<not> c \<longrightarrow> map_len (bm_noParentBlocks bm') < map_len (bm_noParentBlocks bm))"
proof (induction ks arbitrary: bm c)
  case (Cons h ks)
  show ?case
  proof (cases "\<exists>b. fmlookup (bm_noParentBlocks bm) h = Some b \<and> has_key (bm_blocks bm) h")
    case True
    then obtain b bm1 where b: "fmlookup (bm_noParentBlocks bm) h = Some b"
      and a: "appendToTheTree H (bm\<lparr>bm_noParentBlocks := fmdrop h (bm_noParentBlocks bm)\<rparr>) b = Inr bm1"
      and r: "checkPendingBlocks H ks bm1 True = Inr (bm', c')"
      using Cons.prems by (auto split: option.splits)
    from map_len_drop [OF has_keyI [OF b]] append_noParent [OF a]
    have "map_len (bm_noParentBlocks bm1) < map_len (bm_noParentBlocks bm)" by simp
    with Cons.IH [OF r] show ?thesis by linarith
  next
    case False
    with Cons.prems have "checkPendingBlocks H ks bm c = Inr (bm', c')"
      by (auto split: option.splits if_splits)
    from Cons.IH [OF this] show ?thesis .
  qed
qed auto

text \<open>\<open>for bm.checkPendingBlocks() {}\<close>: every pass that changes something removes a block.\<close>

function settlePendingBlocks :: "digest \<Rightarrow> ((hash, Block) fmap \<Rightarrow> hash list) \<Rightarrow> BlockchainManager
    \<Rightarrow> BlockchainManager go" where
  "settlePendingBlocks H ord bm =
     (case checkPendingBlocks H (ord (bm_noParentBlocks bm)) bm False of
        Inl e \<Rightarrow> Inl e
      | Inr (bm', changed) \<Rightarrow> if changed then settlePendingBlocks H ord bm' else Inr bm')"
  by pat_completeness auto
termination
  by (relation "measure (\<lambda>(H, ord, bm). map_len (bm_noParentBlocks bm))")
    (auto dest!: checkPending_decreases)

declare settlePendingBlocks.simps [simp del]

definition AddBlock :: "digest \<Rightarrow> ((hash, Block) fmap \<Rightarrow> hash list) \<Rightarrow> BlockchainManager \<Rightarrow> Block
    \<Rightarrow> (BlockchainManager \<times> bool) go" where
  "AddBlock H ord bm block =
    (if has_key (bm_blocks bm) (Block_Hash H block) then Inr (bm, False)
     else if \<not> IsGood H block then Inr (bm, False)
     else if \<not> has_key (bm_blocks bm) (b_PrevHash block) then
       Inr (bm\<lparr>bm_noParentBlocks := fmupd (Block_Hash H block) block (bm_noParentBlocks bm)\<rparr>, False)
     else go_bind (appendToTheTree H bm block) (\<lambda>bm.
          go_map (\<lambda>bm. (bm, True)) (settlePendingBlocks H ord bm)))"

text \<open>The walk along the official history.\<close>

fun in_history :: "blockNode \<Rightarrow> TxPublish \<Rightarrow> bool" where
  "in_history (FakeNode a) tx = False"
| "in_history (BlockNode a d p t b) tx =
     (if ts_contains t tx then True
      else if ts_containsFilename t (tx_name tx) then True
      else in_history p tx)"

definition AddTransaction :: "BlockchainManager \<Rightarrow> TxPublish \<Rightarrow> BlockchainManager \<times> bool" where
  "AddTransaction bm tx =
    (if ts_contains (bm_pendingTx bm) tx then (bm, False)
     else if ts_containsFilename (bm_pendingTx bm) (tx_name tx) then (bm, False)
     else if in_history (bm_tail bm) tx then (bm, False)
     else (bm\<lparr>bm_pendingTx := fst (ts_add (bm_pendingTx bm) tx)\<rparr>, True))"

definition GetBlockNumber :: "BlockchainManager \<Rightarrow> int" where
  "GetBlockNumber bm = int (map_len (bm_blocks bm)) - 1"

text \<open>
  One iteration of the mining loop. \<open>seen\<close> is the state read without the lock and \<open>ks\<close> the
  order of its pending map; \<open>bm\<close> and \<open>ks'\<close> are the same once the lock is held. The result
  has the mined block, or none when the loop continues.
\<close>

definition DoMining :: "digest \<Rightarrow> byte list \<Rightarrow> string list \<Rightarrow> BlockchainManager
    \<Rightarrow> string list \<Rightarrow> BlockchainManager \<Rightarrow> BlockchainManager \<times> Block option" where
  "DoMining H nonce ks seen ks' bm =
    (if ts_isEmpty (bm_pendingTx seen) then (bm, None)
     else
       let newBlock = \<lparr>b_PrevHash = getBlockHash H (bm_tail seen), b_Nonce = copy32 nonce,
                       b_Transactions = getSliceCopy ks (bm_pendingTx seen)\<rparr> in
       if \<not> IsGood H newBlock then (bm, None)
       else
         let newBlock = newBlock\<lparr>b_Transactions := getSliceCopy ks' (bm_pendingTx bm),
                                 b_PrevHash := getBlockHash H (bm_tail bm)\<rparr> in
         if \<not> IsGood H newBlock \<or> ts_isEmpty (bm_pendingTx bm) then (bm, None)
         else
           let n = InitBlockNode (bm_next bm) (bm_tail bm) newBlock in
           (bm\<lparr>bm_tail := n, bm_next := bm_next bm + 1,
               bm_blocks := fmupd (Block_Hash H newBlock) n (bm_blocks bm),
               bm_pendingTx := ts_clear (bm_pendingTx bm)\<rparr>, Some newBlock))"

section \<open>Rewriting history\<close>

text \<open>The nodes from \<open>n\<close> down to, and without, \<open>l\<close>.\<close>

definition branch :: "blockNode \<Rightarrow> blockNode \<Rightarrow> blockNode list" where
  "branch l n = takeWhile (\<lambda>m. addr m \<noteq> addr l) (ancestors n)"

definition branch_names :: "blockNode \<Rightarrow> blockNode \<Rightarrow> string set" where
  "branch_names l n = \<Union> (ts_names ` set (map bn_txSet (branch l n)))"

lemma undo_history_ok:
  "l \<in> set (ancestors n) \<Longrightarrow>
   undo_history (Some l) n s k =
     Inr (fold (\<lambda>x s. ts_union s x) (map bn_txSet (branch l n)) s, k + length (branch l n))"
  by (induction n arbitrary: s k) (auto simp: branch_def)

lemma apply_history_ok:
  "l \<in> set (ancestors n) \<Longrightarrow>
   apply_history (Some l) n s = Inr (fold (\<lambda>x s. ts_subtract s x) (map bn_txSet (branch l n)) s)"
  by (induction n arbitrary: s) (auto simp: branch_def)

fun chain_names :: "blockNode \<Rightarrow> string set" where
  "chain_names (FakeNode a) = {}"
| "chain_names (BlockNode a d p t b) = ts_names t \<union> chain_names p"

fun chain_blocks :: "blockNode \<Rightarrow> Block set" where
  "chain_blocks (FakeNode a) = {}"
| "chain_blocks (BlockNode a d p t b) = insert b (chain_blocks p)"

lemma in_history_iff: "in_history n tx \<longleftrightarrow> tx_name tx \<in> chain_names n"
  by (induction n) (auto simp: txs.contains_iff)

lemma chain_names_Init [chain_simps]:
  "chain_names (InitBlockNode a p b) = tx_name ` set (b_Transactions b) \<union> chain_names p"
  by (simp add: InitBlockNode_def)

lemma chain_blocks_Init [chain_simps]:
  "chain_blocks (InitBlockNode a p b) = insert b (chain_blocks p)"
  by (simp add: InitBlockNode_def)

lemma bn_txSet_Init [chain_simps]:
  "bn_txSet (InitBlockNode a p b) = InitFromSlice (b_Transactions b)"
  by (simp add: InitBlockNode_def)

lemma chain_names_split:
  "l \<in> set (ancestors n) \<Longrightarrow> addr_unique (set (ancestors n)) \<Longrightarrow>
   chain_names n = branch_names l n \<union> chain_names l"
proof (induction n)
  case (BlockNode a d p t b)
  let ?n = "BlockNode a d p t b"
  show ?case
  proof (cases "addr l = a")
    case True
    then have "l = ?n"
      by (intro addr_uniqueD [OF BlockNode.prems(2,1)]) simp_all
    then show ?thesis by (simp add: branch_names_def branch_def)
  next
    case False
    then have "l \<in> set (ancestors p)" using BlockNode.prems(1) by auto
    moreover have "addr_unique (set (ancestors p))"
      using BlockNode.prems(2) by (auto simp: addr_unique_def)
    ultimately show ?thesis
      using BlockNode.IH False by (auto simp: branch_names_def branch_def)
  qed
qed (simp add: branch_names_def branch_def)

section \<open>Invariant\<close>

text \<open>
  \<open>B\<close> is the set of blocks that ever occur. The digest is only used to identify them: no
  two of them may share a hash while naming different parents, and none may have the
  all-zero hash, which the manager gives to the fake root.
\<close>

definition collision_free :: "digest \<Rightarrow> Block set \<Rightarrow> bool" where
  "collision_free H B \<longleftrightarrow>
     (\<forall>x \<in> B. \<forall>y \<in> B. Block_Hash H x = Block_Hash H y \<longrightarrow> b_PrevHash x = b_PrevHash y)
     \<and> (\<forall>x \<in> B. Block_Hash H x \<noteq> zero_hash)"

definition universe :: "BlockchainManager \<Rightarrow> blockNode set" where
  "universe bm = set (ancestors (bm_tail bm)) \<union>
     (\<Union>n \<in> {n. \<exists>h. fmlookup (bm_blocks bm) h = Some n}. set (ancestors n))"

text \<open>A node that the tree may hold: well-formed, of blocks of \<open>B\<close>, with every proper
  ancestor's hash known.\<close>

definition node_ok :: "digest \<Rightarrow> Block set \<Rightarrow> (hash, blockNode) fmap \<Rightarrow> blockNode \<Rightarrow> bool" where
  "node_ok H B m n \<longleftrightarrow> wf_node H n \<and> chain_blocks n \<subseteq> B \<and> has_key m (getBlockHash H n)
     \<and> (\<forall>p. parent n = Some p \<longrightarrow> has_key m (getBlockHash H p))"

definition tree_inv :: "digest \<Rightarrow> Block set \<Rightarrow> BlockchainManager \<Rightarrow> bool" where
  "tree_inv H B bm \<longleftrightarrow>
     fmlookup (bm_blocks bm) zero_hash = Some (FakeNode 0)
     \<and> (\<forall>h n. fmlookup (bm_blocks bm) h = Some n \<longrightarrow>
          getBlockHash H n = h \<and> node_ok H B (bm_blocks bm) n \<and> depth n \<le> depth (bm_tail bm))
     \<and> node_ok H B (bm_blocks bm) (bm_tail bm)"

definition addr_inv :: "BlockchainManager \<Rightarrow> bool" where
  "addr_inv bm \<longleftrightarrow> addr_unique (universe bm) \<and> (\<forall>n \<in> universe bm. addr n < bm_next bm)"

definition wait_inv :: "digest \<Rightarrow> Block set \<Rightarrow> BlockchainManager \<Rightarrow> bool" where
  "wait_inv H B bm \<longleftrightarrow>
     (\<forall>h b. fmlookup (bm_noParentBlocks bm) h = Some b \<longrightarrow>
        Block_Hash H b = h \<and> IsGood H b \<and> b \<in> B)"

definition bm_inv :: "digest \<Rightarrow> Block set \<Rightarrow> BlockchainManager \<Rightarrow> bool" where
  "bm_inv H B bm \<longleftrightarrow> tree_inv H B bm \<and> addr_inv bm \<and> wait_inv H B bm"

lemma node_okD:
  assumes "node_ok H B m n"
  shows "wf_node H n" "chain_blocks n \<subseteq> B" "has_key m (getBlockHash H n)"
    "parent n = Some p \<Longrightarrow> has_key m (getBlockHash H p)"
  using assms by (auto simp: node_ok_def)

lemma tree_invD:
  assumes "tree_inv H B bm"
  shows "fmlookup (bm_blocks bm) h = Some n \<Longrightarrow> getBlockHash H n = h"
    and "fmlookup (bm_blocks bm) h = Some n \<Longrightarrow> node_ok H B (bm_blocks bm) n"
    and "fmlookup (bm_blocks bm) h = Some n \<Longrightarrow> depth n \<le> depth (bm_tail bm)"
    and "node_ok H B (bm_blocks bm) (bm_tail bm)"
    and "fmlookup (bm_blocks bm) zero_hash = Some (FakeNode 0)"
  using assms by (auto simp: tree_inv_def)

lemma bm_inv_Init: "bm_inv H B (InitBlockchainManager H)"
  by (auto simp: bm_inv_def tree_inv_def addr_inv_def wait_inv_def node_ok_def universe_def
      addr_unique_def InitBlockchainManager_def InitFakeBlockNode_def Let_def)

lemma universe_tail: "n \<in> set (ancestors (bm_tail bm)) \<Longrightarrow> n \<in> universe bm"
  by (simp add: universe_def)

lemma universe_block:
  "fmlookup (bm_blocks bm) h = Some m \<Longrightarrow> n \<in> set (ancestors m) \<Longrightarrow> n \<in> universe bm"
  by (auto simp: universe_def)

lemma addr_unique_subset: "addr_unique U \<Longrightarrow> V \<subseteq> U \<Longrightarrow> addr_unique V"
  by (auto simp: addr_unique_def)

lemma addr_fresh:
  assumes "addr_unique U" "\<forall>x \<in> U. addr x < k" "addr n = k"
  shows "addr_unique (insert n U)" and "\<forall>x \<in> insert n U. addr x < Suc k"
proof -
  have "addr x \<noteq> addr n" if "x \<in> U" for x using assms(2,3) that by auto
  note ne = this
  show "addr_unique (insert n U)"
    unfolding addr_unique_def
  proof (intro ballI impI)
    fix x y assume xy: "x \<in> insert n U" "y \<in> insert n U" "addr x = addr y"
    then consider "x = y" | "x = n" "y \<in> U" | "x \<in> U" "y = n" | "x \<in> U" "y \<in> U" by blast
    then show "x = y"
    proof cases
      case 2 with ne [of y] xy(3) show ?thesis by simp
    next
      case 3 with ne [of x] xy(3) show ?thesis by simp
    next
      case 4 with addr_uniqueD [OF assms(1)] xy(3) show ?thesis by blast
    qed
  qed
  show "\<forall>x \<in> insert n U. addr x < Suc k"
    using assms(2,3) by (auto intro: less_SucI)
qed

lemma collision_freeD:
  assumes "collision_free H B"
  shows "x \<in> B \<Longrightarrow> y \<in> B \<Longrightarrow> Block_Hash H x = Block_Hash H y \<Longrightarrow> b_PrevHash x = b_PrevHash y"
    and "x \<in> B \<Longrightarrow> Block_Hash H x \<noteq> zero_hash"
  using assms unfolding collision_free_def by blast+

text \<open>
  Hanging a new node for \<open>b\<close> under a node of the tree keeps the invariant, whether the tail
  moves to it or not, as long as the tail stays a deepest node.
\<close>

lemma hang_node:
  assumes inv: "bm_inv H B bm" and cf: "collision_free H B"
    and p: "p = bm_tail bm \<or> fmlookup (bm_blocks bm) (b_PrevHash b) = Some p"
    and b: "b \<in> B" "IsGood H b" "b_PrevHash b = getBlockHash H p"
    and nt: "nt = n \<and> depth (bm_tail bm) \<le> depth p \<or> nt = bm_tail bm \<and> depth p < depth (bm_tail bm)"
    and n: "n = InitBlockNode (bm_next bm) p b"
    and bm': "bm_tail bm' = nt" "bm_next bm' = Suc (bm_next bm)"
      "bm_blocks bm' = fmupd (Block_Hash H b) n (bm_blocks bm)"
    and w: "\<And>h x. fmlookup (bm_noParentBlocks bm') h = Some x \<Longrightarrow> fmlookup (bm_noParentBlocks bm) h = Some x"
  shows "bm_inv H B bm'"
proof -
  have t: "tree_inv H B bm" and a: "addr_inv bm" and wi: "wait_inv H B bm"
    using inv by (simp_all add: bm_inv_def)
  have pok: "node_ok H B (bm_blocks bm) p" and pu: "set (ancestors p) \<subseteq> universe bm"
    using p tree_invD [OF t] universe_tail universe_block by blast+
  have nz: "Block_Hash H b \<noteq> zero_hash" using cf b(1) by (auto simp: collision_free_def)
  have mono: "node_ok H B (bm_blocks bm) x \<Longrightarrow> node_ok H B (bm_blocks bm') x" for x
    by (auto simp: node_ok_def bm')
  have nok: "node_ok H B (bm_blocks bm') n"
    using pok b by (auto simp: node_ok_def n chain_simps bm' InitBlockNode_def)
  have dn: "depth n = Suc (depth p)" by (simp add: n chain_simps)
  have dt: "depth x \<le> depth (bm_tail bm')" if "x = n \<or> depth x \<le> depth (bm_tail bm)" for x
    using nt that dn by (auto simp: bm')
  have "node_ok H B (bm_blocks bm') (bm_tail bm')"
    using nt nok mono [OF tree_invD(4) [OF t]] by (auto simp: bm')
  moreover have "getBlockHash H x = h \<and> node_ok H B (bm_blocks bm') x \<and> depth x \<le> depth (bm_tail bm')"
    if "fmlookup (bm_blocks bm') h = Some x" for h x
    using that nok dt tree_invD(1-3) [OF t] mono by (auto simp: bm' n chain_simps split: if_splits)
  ultimately have "tree_inv H B bm'"
    using nz tree_invD(5) [OF t] by (auto simp: tree_inv_def bm')
  moreover have "addr_inv bm'"
  proof -
    have sub: "universe bm' \<subseteq> insert n (universe bm)"
      using pu nt by (auto simp: universe_def bm' n chain_simps split: if_splits)
    have "addr n = bm_next bm" by (simp add: n chain_simps)
    with addr_fresh [of "universe bm" "bm_next bm" n] a
    have "addr_unique (insert n (universe bm))" "\<forall>x \<in> insert n (universe bm). addr x < Suc (bm_next bm)"
      by (simp_all add: addr_inv_def)
    with sub show ?thesis by (auto simp: addr_inv_def bm' intro: addr_unique_subset)
  qed
  moreover have "wait_inv H B bm'"
    using wi w by (auto simp: wait_inv_def)
  ultimately show ?thesis by (simp add: bm_inv_def)
qed

lemma same_hash_same_depth:
  assumes "collision_free H B" "wf_node H m" "wf_node H n" "chain_blocks m \<subseteq> B" "chain_blocks n \<subseteq> B"
    and "getBlockHash H m = getBlockHash H n"
  shows "depth m = depth n"
  using assms(2-)
proof (induction m arbitrary: n)
  case (FakeNode a)
  show ?case
  proof (cases n)
    case (BlockNode a' d' p' t' b')
    then have "Block_Hash H b' = zero_hash" "b' \<in> B" using FakeNode.prems by simp_all
    then show ?thesis using collision_freeD(2) [OF assms(1)] by blast
  qed simp
next
  case (BlockNode a d p t b)
  have bB: "b \<in> B" using BlockNode.prems by simp
  show ?case
  proof (cases n)
    case (FakeNode x)
    then have "Block_Hash H b = zero_hash" using BlockNode.prems by simp
    then show ?thesis using collision_freeD(2) [OF assms(1) bB] by blast
  next
    case n: (BlockNode a' d' p' t' b')
    have "Block_Hash H b = Block_Hash H b'" "b' \<in> B" using BlockNode.prems n by simp_all
    then have "b_PrevHash b = b_PrevHash b'" using collision_freeD(1) [OF assms(1) bB] by blast
    moreover have "wf_node H p" "wf_node H p'" "chain_blocks p \<subseteq> B" "chain_blocks p' \<subseteq> B"
      "b_PrevHash b = getBlockHash H p" "b_PrevHash b' = getBlockHash H p'"
      using BlockNode.prems n by simp_all
    ultimately have "depth p = depth p'" by (intro BlockNode.IH) simp_all
    then show ?thesis using n BlockNode.prems(1,2) by simp
  qed
qed

section \<open>Appending a block\<close>

lemma append_extend:
  "b_PrevHash b = getBlockHash H (bm_tail bm) \<Longrightarrow>
   appendToTheTree H bm b = Inr (bm\<lparr>bm_tail := InitBlockNode (bm_next bm) (bm_tail bm) b,
     bm_next := bm_next bm + 1,
     bm_blocks := fmupd (Block_Hash H b) (InitBlockNode (bm_next bm) (bm_tail bm) b) (bm_blocks bm),
     bm_pendingTx := ts_subtract (bm_pendingTx bm) (InitFromSlice (b_Transactions b))\<rparr>)"
  by (simp add: appendToTheTree_def Let_def chain_simps)

lemma append_short:
  "b_PrevHash b \<noteq> getBlockHash H (bm_tail bm) \<Longrightarrow> fmlookup (bm_blocks bm) (b_PrevHash b) = Some p \<Longrightarrow>
   depth p < depth (bm_tail bm) \<Longrightarrow>
   appendToTheTree H bm b = Inr (bm\<lparr>bm_next := bm_next bm + 1,
     bm_blocks := fmupd (Block_Hash H b) (InitBlockNode (bm_next bm) p b) (bm_blocks bm)\<rparr>)"
  by (simp add: appendToTheTree_def Let_def)

text \<open>The pending set after a rewrite that abandons \<open>old\<close> for \<open>new\<close> above \<open>l\<close>.\<close>

definition rewritten :: "blockNode \<Rightarrow> blockNode \<Rightarrow> blockNode \<Rightarrow> TransactionsSet \<Rightarrow> TransactionsSet" where
  "rewritten l old new s =
     fold (\<lambda>x s. ts_subtract s x) (map bn_txSet (branch l new))
       (fold (\<lambda>x s. ts_union s x) (map bn_txSet (branch l old)) s)"

lemma rewritten_names:
  "ts_names (rewritten l old new s) = (ts_names s \<union> branch_names l old) - branch_names l new"
  unfolding rewritten_def txs.names_reapply branch_names_def ..

text \<open>The deepest node that two chains share.\<close>

definition shared_ancestor :: "blockNode \<Rightarrow> blockNode \<Rightarrow> blockNode \<Rightarrow> bool" where
  "shared_ancestor l a b \<longleftrightarrow> l \<in> set (ancestors a) \<and> l \<in> set (ancestors b)
     \<and> (\<forall>c \<in> set (ancestors a) \<inter> set (ancestors b). depth c \<le> depth l)"

lemma append_switch:
  assumes inv: "bm_inv H B bm"
    and p: "fmlookup (bm_blocks bm) (b_PrevHash b) = Some p"
    and b: "b_PrevHash b \<noteq> getBlockHash H (bm_tail bm)" "depth (bm_tail bm) \<le> depth p"
  shows "\<exists>l. getLSA (bm_tail bm) p = Some l \<and> shared_ancestor l (bm_tail bm) p \<and>
    appendToTheTree H bm b = Inr (bm\<lparr>bm_tail := InitBlockNode (bm_next bm) p b,
     bm_next := bm_next bm + 1,
     bm_blocks := fmupd (Block_Hash H b) (InitBlockNode (bm_next bm) p b) (bm_blocks bm),
     bm_pendingTx := rewritten l (bm_tail bm) (InitBlockNode (bm_next bm) p b) (bm_pendingTx bm)\<rparr>)"
proof -
  have t: "tree_inv H B bm" and a: "addr_unique (universe bm)"
    using inv by (simp_all add: bm_inv_def addr_inv_def)
  have "set (ancestors (bm_tail bm)) \<union> set (ancestors p) \<subseteq> universe bm"
    using universe_tail universe_block [OF p] by blast
  from getLSA_meets [OF addr_unique_subset [OF a this] node_okD(1) [OF tree_invD(4) [OF t]]
      node_okD(1) [OF tree_invD(2) [OF t p]]]
  obtain l where l: "getLSA (bm_tail bm) p = Some l" "shared_ancestor l (bm_tail bm) p"
    unfolding shared_ancestor_def by blast
  let ?n = "InitBlockNode (bm_next bm) p b"
  have "l \<in> set (ancestors (bm_tail bm))" "l \<in> set (ancestors ?n)"
    using l(2) by (simp_all add: shared_ancestor_def chain_simps)
  note ok = undo_history_ok [OF this(1)] apply_history_ok [OF this(2)]
  show ?thesis
    using l b p by (simp add: appendToTheTree_def Let_def ok rewritten_def)
qed

lemma append_cases:
  assumes inv: "bm_inv H B bm" and k: "has_key (bm_blocks bm) (b_PrevHash b)"
  obtains (extend) "b_PrevHash b = getBlockHash H (bm_tail bm)"
  | (short) p where "b_PrevHash b \<noteq> getBlockHash H (bm_tail bm)"
      "fmlookup (bm_blocks bm) (b_PrevHash b) = Some p" "depth p < depth (bm_tail bm)"
  | (switch) p where "b_PrevHash b \<noteq> getBlockHash H (bm_tail bm)"
      "fmlookup (bm_blocks bm) (b_PrevHash b) = Some p" "depth (bm_tail bm) \<le> depth p"
  using k unfolding has_key_lookup by (meson not_le)

lemma append_inv:
  assumes inv: "bm_inv H B bm" and cf: "collision_free H B"
    and b: "b \<in> B" "IsGood H b" and k: "has_key (bm_blocks bm) (b_PrevHash b)"
  shows "\<exists>bm'. appendToTheTree H bm b = Inr bm' \<and> bm_inv H B bm'
     \<and> fmdom (bm_blocks bm') = finsert (Block_Hash H b) (fmdom (bm_blocks bm))"
  using inv k
proof (cases rule: append_cases)
  case extend
  let ?n = "InitBlockNode (bm_next bm) (bm_tail bm) b"
  have "bm_inv H B (bm\<lparr>bm_tail := ?n, bm_next := bm_next bm + 1,
      bm_blocks := fmupd (Block_Hash H b) ?n (bm_blocks bm),
      bm_pendingTx := ts_subtract (bm_pendingTx bm) (InitFromSlice (b_Transactions b))\<rparr>)"
    by (rule hang_node [OF inv cf _ b extend, where nt = ?n and n = ?n]) simp_all
  then show ?thesis unfolding append_extend [OF extend] by simp
next
  case (short p)
  let ?n = "InitBlockNode (bm_next bm) p b"
  have t: "tree_inv H B bm" using inv by (simp add: bm_inv_def)
  have ph: "b_PrevHash b = getBlockHash H p" using tree_invD(1) [OF t short(2)] by simp
  have "bm_inv H B (bm\<lparr>bm_next := bm_next bm + 1,
      bm_blocks := fmupd (Block_Hash H b) ?n (bm_blocks bm)\<rparr>)"
    by (rule hang_node [OF inv cf _ b ph, where nt = "bm_tail bm" and n = ?n]) (simp_all add: short)
  then show ?thesis unfolding append_short [OF short] by simp
next
  case (switch p)
  let ?n = "InitBlockNode (bm_next bm) p b"
  have t: "tree_inv H B bm" using inv by (simp add: bm_inv_def)
  have ph: "b_PrevHash b = getBlockHash H p" using tree_invD(1) [OF t switch(2)] by simp
  from append_switch [OF inv switch(2,1,3)] obtain l where
    l: "appendToTheTree H bm b = Inr (bm\<lparr>bm_tail := ?n, bm_next := bm_next bm + 1,
     bm_blocks := fmupd (Block_Hash H b) ?n (bm_blocks bm),
     bm_pendingTx := rewritten l (bm_tail bm) ?n (bm_pendingTx bm)\<rparr>)" by blast
  have "bm_inv H B (bm\<lparr>bm_tail := ?n, bm_next := bm_next bm + 1,
     bm_blocks := fmupd (Block_Hash H b) ?n (bm_blocks bm),
     bm_pendingTx := rewritten l (bm_tail bm) ?n (bm_pendingTx bm)\<rparr>)"
    by (rule hang_node [OF inv cf _ b ph, where nt = ?n and n = ?n]) (simp_all add: switch)
  then show ?thesis unfolding l by simp
qed

section \<open>Waiting blocks\<close>

text \<open>What the passes over the waiting blocks may change: a block that is already in the tree
  is hung there once more, under the same hash, and leaves the waiting map.\<close>

definition settled :: "BlockchainManager \<Rightarrow> BlockchainManager \<Rightarrow> bool" where
  "settled bm bm' \<longleftrightarrow> bm_tail bm' = bm_tail bm \<and> bm_pendingTx bm' = bm_pendingTx bm
     \<and> fmdom (bm_blocks bm') = fmdom (bm_blocks bm)
     \<and> (\<forall>h x. fmlookup (bm_noParentBlocks bm') h = Some x \<longrightarrow> fmlookup (bm_noParentBlocks bm) h = Some x)
     \<and> (\<forall>h x. fmlookup (bm_noParentBlocks bm) h = Some x \<and> \<not> has_key (bm_blocks bm) h \<longrightarrow>
          fmlookup (bm_noParentBlocks bm') h = Some x)"

lemma settled_refl [simp]: "settled bm bm"
  by (simp add: settled_def)

lemma settled_trans: "settled a b \<Longrightarrow> settled b c \<Longrightarrow> settled a c"
  unfolding settled_def has_key_def by metis

lemma known_is_short:
  assumes inv: "bm_inv H B bm" and cf: "collision_free H B"
    and w: "fmlookup (bm_noParentBlocks bm) h = Some b" and k: "has_key (bm_blocks bm) h"
  obtains q where "b \<in> B" "IsGood H b" "Block_Hash H b = h" "b_PrevHash b \<noteq> getBlockHash H (bm_tail bm)"
    "fmlookup (bm_blocks bm) (b_PrevHash b) = Some q" "depth q < depth (bm_tail bm)"
proof -
  have t: "tree_inv H B bm" using inv by (simp add: bm_inv_def)
  have b: "b \<in> B" "IsGood H b" "Block_Hash H b = h"
    using inv w by (auto simp: bm_inv_def wait_inv_def)
  obtain n where n: "fmlookup (bm_blocks bm) h = Some n"
    using k by (auto simp: has_key_lookup)
  note nok = tree_invD(2) [OF t n]
  obtain a d p s b' where nb: "n = BlockNode a d p s b'"
  proof (cases n)
    case (FakeNode x)
    then have "h = zero_hash" using tree_invD(1) [OF t n] by simp
    then show ?thesis using collision_freeD(2) [OF cf b(1)] b(3) by simp
  qed
  have b': "b' \<in> B" "Block_Hash H b' = h" "b_PrevHash b' = getBlockHash H p"
    using node_okD(1,2) [OF nok] tree_invD(1) [OF t n] nb by auto
  have ph: "b_PrevHash b = getBlockHash H p"
    using collision_freeD(1) [OF cf b(1) b'(1)] b(3) b' by simp
  then have "has_key (bm_blocks bm) (b_PrevHash b)"
    using node_okD(4) [OF nok, of p] nb by simp
  then obtain q where q: "fmlookup (bm_blocks bm) (b_PrevHash b) = Some q"
    by (auto simp: has_key_lookup)
  note qok = tree_invD(2) [OF t q]
  have dn: "depth n \<le> depth (bm_tail bm)" "depth n = Suc (depth p)"
    using tree_invD(3) [OF t n] node_okD(1) [OF nok] nb by simp_all
  have pB: "wf_node H p" "chain_blocks p \<subseteq> B" using node_okD(1,2) [OF nok] nb by auto
  have same: "depth x = depth p" if "node_ok H B (bm_blocks bm) x" "getBlockHash H x = getBlockHash H p" for x
    by (rule same_hash_same_depth [OF cf node_okD(1) [OF that(1)] pB(1) node_okD(2) [OF that(1)] pB(2) that(2)])
  have "depth q < depth (bm_tail bm)"
    using same [OF qok] tree_invD(1) [OF t q] ph dn by simp
  moreover have "b_PrevHash b \<noteq> getBlockHash H (bm_tail bm)"
    using same [OF tree_invD(4) [OF t]] ph dn by auto
  ultimately show ?thesis using that b q by blast
qed

lemma append_known:
  assumes inv: "bm_inv H B bm" and cf: "collision_free H B"
    and w: "fmlookup (bm_noParentBlocks bm) h = Some b" and k: "has_key (bm_blocks bm) h"
  shows "\<exists>bm'. appendToTheTree H (bm\<lparr>bm_noParentBlocks := fmdrop h (bm_noParentBlocks bm)\<rparr>) b = Inr bm'
     \<and> bm_inv H B bm' \<and> settled bm bm'"
proof -
  let ?bm = "bm\<lparr>bm_noParentBlocks := fmdrop h (bm_noParentBlocks bm)\<rparr>"
  obtain q where b: "b \<in> B" "IsGood H b" "Block_Hash H b = h" and
    q: "b_PrevHash b \<noteq> getBlockHash H (bm_tail bm)" "fmlookup (bm_blocks bm) (b_PrevHash b) = Some q"
      "depth q < depth (bm_tail bm)"
    by (rule known_is_short [OF assms])
  have inv': "bm_inv H B ?bm"
    using inv by (auto simp: bm_inv_def tree_inv_def addr_inv_def wait_inv_def universe_def)
  from append_inv [OF inv' cf b(1,2)] q(2) obtain bm' where
    a: "appendToTheTree H ?bm b = Inr bm'" "bm_inv H B bm'" by (auto intro: has_keyI)
  have "bm' = ?bm\<lparr>bm_next := bm_next ?bm + 1,
     bm_blocks := fmupd (Block_Hash H b) (InitBlockNode (bm_next ?bm) q b) (bm_blocks ?bm)\<rparr>"
    using append_short [of b H ?bm q] q a(1) by simp
  then have "settled bm bm'"
    using b(3) k by (auto simp: settled_def has_key_def)
  with a show ?thesis by blast
qed

lemma checkPendingBlocks_ok:
  assumes "collision_free H B" "bm_inv H B bm"
  shows "\<exists>bm' c'. checkPendingBlocks H ks bm c = Inr (bm', c') \<and> bm_inv H B bm' \<and> settled bm bm'"
  using assms(2)
proof (induction ks arbitrary: bm c)
  case (Cons h ks)
  show ?case
  proof (cases "\<exists>b. fmlookup (bm_noParentBlocks bm) h = Some b \<and> has_key (bm_blocks bm) h")
    case True
    then obtain b where b: "fmlookup (bm_noParentBlocks bm) h = Some b" "has_key (bm_blocks bm) h"
      by blast
    from append_known [OF Cons.prems assms(1) b] obtain bm1 where
      a: "appendToTheTree H (bm\<lparr>bm_noParentBlocks := fmdrop h (bm_noParentBlocks bm)\<rparr>) b = Inr bm1"
        "bm_inv H B bm1" "settled bm bm1" by blast
    from Cons.IH [OF a(2), of True] a b show ?thesis by (auto intro: settled_trans)
  next
    case False
    then have "checkPendingBlocks H (h # ks) bm c = checkPendingBlocks H ks bm c"
      by (auto split: option.splits)
    then show ?thesis using Cons.IH [OF Cons.prems] by simp
  qed
qed simp

lemma settlePendingBlocks_ok:
  assumes "collision_free H B"
  shows "bm_inv H B bm \<Longrightarrow> \<exists>bm'. settlePendingBlocks H ord bm = Inr bm' \<and> bm_inv H B bm' \<and> settled bm bm'"
  using assms
proof (induction H ord bm rule: settlePendingBlocks.induct)
  case (1 H ord bm)
  from checkPendingBlocks_ok [OF "1.prems"(2,1)] obtain bm1 c where
    c: "checkPendingBlocks H (ord (bm_noParentBlocks bm)) bm False = Inr (bm1, c)"
      "bm_inv H B bm1" "settled bm bm1" by blast
  show ?case
  proof (cases c)
    case True
    from "1.IH" [OF c(1) refl True c(2) "1.prems"(2)] c True show ?thesis
      by (subst settlePendingBlocks.simps) (auto intro: settled_trans)
  next
    case False
    with c show ?thesis by (subst settlePendingBlocks.simps) auto
  qed
qed

section \<open>AddBlock\<close>

definition acceptable :: "digest \<Rightarrow> BlockchainManager \<Rightarrow> Block \<Rightarrow> bool" where
  "acceptable H bm b \<longleftrightarrow> \<not> has_key (bm_blocks bm) (Block_Hash H b) \<and> IsGood H b
     \<and> has_key (bm_blocks bm) (b_PrevHash b)"

lemma AddBlock_accept:
  assumes "bm_inv H B bm" "collision_free H B" "b \<in> B" "acceptable H bm b"
  shows "\<exists>bm1 bm'. appendToTheTree H bm b = Inr bm1 \<and> AddBlock H ord bm b = Inr (bm', True)
     \<and> bm_inv H B bm' \<and> settled bm1 bm'
     \<and> fmdom (bm_blocks bm') = finsert (Block_Hash H b) (fmdom (bm_blocks bm))"
proof -
  have ok: "IsGood H b" "has_key (bm_blocks bm) (b_PrevHash b)"
    "\<not> has_key (bm_blocks bm) (Block_Hash H b)"
    using assms(4) by (simp_all add: acceptable_def)
  from append_inv [OF assms(1-3) ok(1,2)] obtain bm1 where
    a: "appendToTheTree H bm b = Inr bm1" "bm_inv H B bm1"
      "fmdom (bm_blocks bm1) = finsert (Block_Hash H b) (fmdom (bm_blocks bm))" by blast
  from settlePendingBlocks_ok [OF assms(2) a(2)] obtain bm' where
    s: "settlePendingBlocks H ord bm1 = Inr bm'" "bm_inv H B bm'" "settled bm1 bm'" by blast
  have "AddBlock H ord bm b = Inr (bm', True)"
    using ok a(1) s(1) by (simp add: AddBlock_def)
  moreover have "fmdom (bm_blocks bm') = fmdom (bm_blocks bm1)"
    using s(3) by (simp add: settled_def)
  ultimately show ?thesis using a s by auto
qed

lemma AddBlock_refuse:
  assumes "\<not> acceptable H bm b"
  shows "AddBlock H ord bm b = Inr
     (if \<not> has_key (bm_blocks bm) (Block_Hash H b) \<and> IsGood H b
      then bm\<lparr>bm_noParentBlocks := fmupd (Block_Hash H b) b (bm_noParentBlocks bm)\<rparr> else bm, False)"
  using assms by (auto simp: acceptable_def AddBlock_def)

lemma AddBlock_inv:
  assumes "bm_inv H B bm" "collision_free H B" "b \<in> B"
  shows "\<exists>bm'. AddBlock H ord bm b = Inr (bm', acceptable H bm b) \<and> bm_inv H B bm'"
proof (cases "acceptable H bm b")
  case True
  then show ?thesis using AddBlock_accept [OF assms True] by auto
next
  case False
  have "bm_inv H B (bm\<lparr>bm_noParentBlocks := fmupd (Block_Hash H b) b (bm_noParentBlocks bm)\<rparr>)"
    if "IsGood H b"
    using assms that by (auto simp: bm_inv_def tree_inv_def addr_inv_def wait_inv_def universe_def)
  then show ?thesis using AddBlock_refuse [OF False, of ord] assms(1) False by auto
qed

section \<open>Mining\<close>

lemma DoMining_some:
  assumes "DoMining H nonce ks seen ks' bm = (bm', Some nb)"
  shows "IsGood H nb \<and> b_PrevHash nb = getBlockHash H (bm_tail bm)
     \<and> b_Nonce nb = copy32 nonce \<and> b_Transactions nb = getSliceCopy ks' (bm_pendingTx bm)
     \<and> ts_names (bm_pendingTx bm) \<noteq> {}
     \<and> bm' = bm\<lparr>bm_tail := InitBlockNode (bm_next bm) (bm_tail bm) nb, bm_next := bm_next bm + 1,
               bm_blocks := fmupd (Block_Hash H nb) (InitBlockNode (bm_next bm) (bm_tail bm) nb) (bm_blocks bm),
               bm_pendingTx := InitEmpty\<rparr>"
  using assms by (auto simp: DoMining_def Let_def ts_isEmpty_iff ts_clear_def split: if_splits)

lemma DoMining_none: "snd (DoMining H nonce ks seen ks' bm) = None \<Longrightarrow> fst (DoMining H nonce ks seen ks' bm) = bm"
  by (auto simp: DoMining_def Let_def split: if_splits)

lemma DoMining_inv:
  assumes "bm_inv H B bm" "collision_free H B"
    and "\<And>nb. snd (DoMining H nonce ks seen ks' bm) = Some nb \<Longrightarrow> nb \<in> B"
  shows "bm_inv H B (fst (DoMining H nonce ks seen ks' bm))"
proof (cases "snd (DoMining H nonce ks seen ks' bm)")
  case None
  with assms(1) DoMining_none show ?thesis by metis
next
  case (Some nb)
  then obtain bm' where m: "DoMining H nonce ks seen ks' bm = (bm', Some nb)"
    by (metis prod.collapse)
  note d = DoMining_some [OF m]
  have "bm_inv H B bm'"
    by (rule hang_node [OF assms(1,2) _ assms(3) [OF Some], where p = "bm_tail bm"
        and nt = "InitBlockNode (bm_next bm) (bm_tail bm) nb"
        and n = "InitBlockNode (bm_next bm) (bm_tail bm) nb"]) (simp_all add: d)
  with m show ?thesis by simp
qed

lemma AddTransaction_inv: "bm_inv H B bm \<Longrightarrow> bm_inv H B (fst (AddTransaction bm tx))"
  by (auto simp: AddTransaction_def bm_inv_def tree_inv_def addr_inv_def wait_inv_def universe_def)

section \<open>Reachable states\<close>

text \<open>Blocks arrive, transactions arrive, mining attempts happen, in any order; \<open>B\<close> is the set
  of all blocks that arrive or are mined.\<close>

inductive bc_reach :: "digest \<Rightarrow> Block set \<Rightarrow> BlockchainManager \<Rightarrow> bool" for H B where
  start: "bc_reach H B (InitBlockchainManager H)"
| add_block: "bc_reach H B bm \<Longrightarrow> b \<in> B \<Longrightarrow> AddBlock H ord bm b = Inr (bm', ok) \<Longrightarrow> bc_reach H B bm'"
| add_tx: "bc_reach H B bm \<Longrightarrow> bc_reach H B (fst (AddTransaction bm tx))"
| mine: "bc_reach H B bm \<Longrightarrow> (\<And>nb. snd (DoMining H nonce ks seen ks' bm) = Some nb \<Longrightarrow> nb \<in> B) \<Longrightarrow>
    bc_reach H B (fst (DoMining H nonce ks seen ks' bm))"

lemma bc_reach_inv: "bc_reach H B bm \<Longrightarrow> collision_free H B \<Longrightarrow> bm_inv H B bm"
proof (induction rule: bc_reach.induct)
  case (add_block bm b ord bm' ok)
  then show ?case using AddBlock_inv [of H B bm b ord] by auto
qed (auto intro: bm_inv_Init AddTransaction_inv DoMining_inv)

section \<open>Names on the official history\<close>

text \<open>A block is honest when, hung under any chain of \<open>B\<close> that it names as its parent, it claims
  only names that the chain has not claimed.\<close>

definition honest_blocks :: "digest \<Rightarrow> Block set \<Rightarrow> bool" where
  "honest_blocks H B \<longleftrightarrow> (\<forall>b \<in> B. \<forall>p. wf_node H p \<and> chain_blocks p \<subseteq> B \<and> b_PrevHash b = getBlockHash H p
     \<longrightarrow> tx_name ` set (b_Transactions b) \<inter> chain_names p = {})"

fun claimed_once :: "blockNode \<Rightarrow> bool" where
  "claimed_once (FakeNode a) = True"
| "claimed_once (BlockNode a d p t b) = (ts_names t \<inter> chain_names p = {} \<and> claimed_once p)"

lemma honest_claimed_once:
  assumes "honest_blocks H B"
  shows "wf_node H n \<Longrightarrow> chain_blocks n \<subseteq> B \<Longrightarrow> claimed_once n"
proof (induction n)
  case (BlockNode a d p t b)
  then have "tx_name ` set (b_Transactions b) \<inter> chain_names p = {}"
    using assms unfolding honest_blocks_def by auto
  then show ?case using BlockNode by simp
qed simp

lemma claimed_once_branch:
  "claimed_once n \<Longrightarrow> l \<in> set (ancestors n) \<Longrightarrow> addr_unique (set (ancestors n)) \<Longrightarrow>
   branch_names l n \<inter> chain_names l = {}"
proof (induction n)
  case (BlockNode a d p t b)
  show ?case
  proof (cases "addr l = a")
    case True
    then show ?thesis by (simp add: branch_names_def branch_def)
  next
    case False
    then have l: "l \<in> set (ancestors p)" using BlockNode.prems by auto
    have u: "addr_unique (set (ancestors p))"
      using BlockNode.prems(3) by (auto simp: addr_unique_def)
    have "branch_names l (BlockNode a d p t b) = ts_names t \<union> branch_names l p"
      using False by (auto simp: branch_names_def branch_def)
    moreover have "chain_names l \<subseteq> chain_names p"
      using chain_names_split [OF l u] by blast
    ultimately show ?thesis using BlockNode.IH l u BlockNode.prems(1) by auto
  qed
qed (simp add: branch_names_def branch_def)

lemma append_disjoint:
  assumes inv: "bm_inv H B bm" and hon: "honest_blocks H B"
    and k: "has_key (bm_blocks bm) (b_PrevHash b)" and a: "appendToTheTree H bm b = Inr bm'"
    and d: "ts_names (bm_pendingTx bm) \<inter> chain_names (bm_tail bm) = {}"
  shows "ts_names (bm_pendingTx bm') \<inter> chain_names (bm_tail bm') = {}"
  using inv k
proof (cases rule: append_cases)
  case extend
  then show ?thesis using a d by (auto simp: append_extend chain_simps)
next
  case (short p)
  then show ?thesis using a d by (auto simp: append_short)
next
  case (switch p)
  let ?n = "InitBlockNode (bm_next bm) p b"
  from append_switch [OF inv switch(2,1,3)] a obtain l where
    l: "shared_ancestor l (bm_tail bm) p" and bm': "bm_tail bm' = ?n"
      "bm_pendingTx bm' = rewritten l (bm_tail bm) ?n (bm_pendingTx bm)" by auto
  have t: "tree_inv H B bm" and ai: "addr_inv bm"
    using inv by (simp_all add: bm_inv_def)
  have la: "l \<in> set (ancestors (bm_tail bm))" "l \<in> set (ancestors ?n)"
    using l by (simp_all add: shared_ancestor_def chain_simps)
  have u: "addr_unique (set (ancestors (bm_tail bm)))"
    using ai universe_tail by (auto simp: addr_inv_def intro: addr_unique_subset)
  have "set (ancestors p) \<subseteq> universe bm" using universe_block [OF switch(2)] by blast
  then have un: "addr_unique (set (ancestors ?n))"
    using addr_fresh(1) [of "universe bm" "bm_next bm" ?n] ai
    by (auto simp: addr_inv_def chain_simps intro: addr_unique_subset)
  have "claimed_once (bm_tail bm)"
    using honest_claimed_once [OF hon] node_okD(1,2) [OF tree_invD(4) [OF t]] by blast
  from claimed_once_branch [OF this la(1) u] chain_names_split [OF la(1) u]
    chain_names_split [OF la(2) un] d
  show ?thesis unfolding bm' rewritten_names by blast
qed

lemma AddBlock_disjoint:
  assumes "bm_inv H B bm" "collision_free H B" "honest_blocks H B" "b \<in> B"
    and "AddBlock H ord bm b = Inr (bm', ok)"
    and "ts_names (bm_pendingTx bm) \<inter> chain_names (bm_tail bm) = {}"
  shows "ts_names (bm_pendingTx bm') \<inter> chain_names (bm_tail bm') = {}"
proof (cases "acceptable H bm b")
  case True
  from AddBlock_accept [OF assms(1,2,4) True, of ord] obtain bm1 bm2 where
    a: "appendToTheTree H bm b = Inr bm1" and r: "AddBlock H ord bm b = Inr (bm2, True)"
    and s: "settled bm1 bm2" by blast
  have "ts_names (bm_pendingTx bm1) \<inter> chain_names (bm_tail bm1) = {}"
    using append_disjoint [OF assms(1,3) _ a assms(6)] True by (simp add: acceptable_def)
  moreover have "bm2 = bm'" using r assms(5) by simp
  ultimately show ?thesis using s by (simp add: settled_def)
next
  case False
  with AddBlock_refuse [OF False, of ord] assms(5,6) show ?thesis by (auto split: if_splits)
qed

lemma AddTransaction_iff:
  "snd (AddTransaction bm tx) \<longleftrightarrow>
     tx_name tx \<notin> ts_names (bm_pendingTx bm) \<and> tx_name tx \<notin> chain_names (bm_tail bm)"
  by (auto simp: AddTransaction_def in_history_iff txs.contains_iff)

lemma AddTransaction_state:
  "fst (AddTransaction bm tx) = (if snd (AddTransaction bm tx)
     then bm\<lparr>bm_pendingTx := fmupd (tx_name tx) tx (bm_pendingTx bm)\<rparr> else bm)"
proof -
  have "tx_name tx \<notin> ts_names (bm_pendingTx bm) \<Longrightarrow>
      fst (ts_add (bm_pendingTx bm) tx) = fmupd (tx_name tx) tx (bm_pendingTx bm)"
    by (simp add: ts_add_def ts_names_def has_key_def)
  then show ?thesis by (auto simp: AddTransaction_def)
qed

lemma reach_disjoint:
  "bc_reach H B bm \<Longrightarrow> collision_free H B \<Longrightarrow> honest_blocks H B \<Longrightarrow>
   ts_names (bm_pendingTx bm) \<inter> chain_names (bm_tail bm) = {}"
proof (induction rule: bc_reach.induct)
  case start
  show ?case by (simp add: InitBlockchainManager_def Let_def)
next
  case (add_block bm b ord bm' ok)
  then show ?case using AddBlock_disjoint [OF bc_reach_inv] by blast
next
  case (add_tx bm tx)
  then show ?case
    using AddTransaction_iff [of bm tx] by (auto simp: AddTransaction_state ts_names_def)
next
  case (mine bm nonce ks seen ks')
  show ?case
  proof (cases "snd (DoMining H nonce ks seen ks' bm)")
    case None
    with mine DoMining_none show ?thesis by metis
  next
    case (Some nb)
    then obtain bm' where "DoMining H nonce ks seen ks' bm = (bm', Some nb)"
      by (metis prod.collapse)
    from DoMining_some [OF this] this show ?thesis by simp
  qed
qed

end
