(* ===== verification/BlockchainProps.thy ===== *)
theory BlockchainProps
  imports BlockchainManager
begin

text \<open>
  The properties of the block tree, the mining and the claims of file names, over the
  reachable states of \<open>BlockchainManager\<close>, with their witnesses. The witnesses use a toy
  digest that reads the block's nonce, so that concrete good blocks can be written down.
\<close>

section \<open>A digest for the witnesses\<close>

definition toy :: digest where
  "toy d = 0 # 0 # take 30 (drop 32 d)"

definition toyh :: "byte \<Rightarrow> hash" where
  "toyh k = 0 # 0 # replicate 30 k"

definition toy_block :: "hash \<Rightarrow> byte \<Rightarrow> TxPublish list \<Rightarrow> Block" where
  "toy_block prev k txs = \<lparr>b_PrevHash = prev, b_Nonce = replicate 32 k, b_Transactions = txs\<rparr>"

definition toy_tx :: "string \<Rightarrow> TxPublish" where
  "toy_tx n = \<lparr>tx_File = \<lparr>f_Name = n, f_Size = 1, f_MetafileHash = []\<rparr>, tx_HopLimit = 0\<rparr>"

lemma toy_tx_name [simp]: "f_Name (tx_File (toy_tx n)) = n"
  by (simp add: toy_tx_def)

lemma toy_block_sel [simp]:
  "b_PrevHash (toy_block prev k txs) = prev" "b_Transactions (toy_block prev k txs) = txs"
  by (simp_all add: toy_block_def)

lemma toyh_eq [simp]: "toyh j = toyh k \<longleftrightarrow> j = k"
  by (simp add: toyh_def)

lemma zero_toyh: "zero_hash = toyh 0"
  by (simp add: zero_hash_def toyh_def eval_nat_numeral)

lemma length_toyh [simp]: "length (toyh k) = 32"
  by (simp add: toyh_def)

lemma toy_hash [simp]: "length prev = 32 \<Longrightarrow> Block_Hash toy (toy_block prev k txs) = toyh k"
  by (simp add: Block_Hash_def Block_preimage_def toy_block_def toy_def toyh_def copy32_id)

lemma toy_good [simp]: "length prev = 32 \<Longrightarrow> IsGood toy (toy_block prev k txs)"
  by (simp add: IsGood_iff toyh_def)

lemma toy_like_hash:
  "length (b_PrevHash b) = 32 \<Longrightarrow> b_Nonce b = replicate 32 k \<Longrightarrow> Block_Hash toy b = toyh k"
  by (simp add: Block_Hash_def Block_preimage_def toy_def toyh_def copy32_id)

text \<open>Blocks with pairwise different non-zero nonces.\<close>

lemma toy_collision_free:
  assumes "\<forall>b \<in> B. length (b_PrevHash b) = 32 \<and> (\<exists>k. k \<noteq> 0 \<and> b_Nonce b = replicate 32 k)"
    and "\<forall>b \<in> B. \<forall>c \<in> B. b_Nonce b = b_Nonce c \<longrightarrow> b = c"
  shows "collision_free toy B"
  unfolding collision_free_def
proof (intro conjI ballI impI)
  fix x assume "x \<in> B"
  with assms(1) obtain k where "k \<noteq> 0" "Block_Hash toy x = toyh k" using toy_like_hash by blast
  then show "Block_Hash toy x \<noteq> zero_hash" by (simp add: zero_toyh)
next
  fix x y assume xy: "x \<in> B" "y \<in> B" "Block_Hash toy x = Block_Hash toy y"
  with assms(1) obtain j k where
    e: "b_Nonce x = replicate 32 j" "b_Nonce y = replicate 32 k"
      "Block_Hash toy x = toyh j" "Block_Hash toy y = toyh k" using toy_like_hash by blast
  then have "b_Nonce x = b_Nonce y" using xy(3) by simp
  with assms(2) xy have "x = y" by blast
  then show "b_PrevHash x = b_PrevHash y" by simp
qed

text \<open>A first block with two claims, and a competing branch of two blocks without claims.\<close>

definition blockA :: Block where
  "blockA = toy_block zero_hash 1 [toy_tx ''a'', toy_tx ''b'']"

definition blockB :: Block where
  "blockB = toy_block zero_hash 2 []"

definition blockC :: Block where
  "blockC = toy_block (toyh 2) 3 []"

text \<open>A block on top of \<open>blockA\<close> that claims a name once more.\<close>

definition blockD :: Block where
  "blockD = toy_block (toyh 1) 4 [toy_tx ''a'']"

lemmas toy_blocks = blockA_def blockB_def blockC_def blockD_def

definition toy_universe :: "Block set" where
  "toy_universe = {blockA, blockB, blockC, blockD}"

lemma toy_universe_collision_free: "collision_free toy toy_universe"
proof (rule toy_collision_free)
  show "\<forall>b \<in> toy_universe. length (b_PrevHash b) = 32 \<and> (\<exists>k. k \<noteq> 0 \<and> b_Nonce b = replicate 32 k)"
    unfolding toy_universe_def by (simp add: toy_blocks) (simp add: toy_block_def)
  show "\<forall>b \<in> toy_universe. \<forall>c \<in> toy_universe. b_Nonce b = b_Nonce c \<longrightarrow> b = c"
    unfolding toy_universe_def by (simp add: toy_blocks) (simp add: toy_block_def)
qed

definition no_order :: "(hash, Block) fmap \<Rightarrow> hash list" where
  "no_order m = []"

lemma settle_no_order [simp]: "settlePendingBlocks H no_order bm = Inr bm"
  by (subst settlePendingBlocks.simps) (simp add: no_order_def)

text \<open>The states after \<open>blockA\<close>, then \<open>blockB\<close>, then \<open>blockC\<close>.\<close>

definition stateA :: BlockchainManager where
  "stateA = \<lparr>bm_tail = InitBlockNode 1 (FakeNode 0) blockA,
     bm_blocks = fmupd (toyh 1) (InitBlockNode 1 (FakeNode 0) blockA) (fmupd (toyh 0) (FakeNode 0) fmempty),
     bm_pendingTx = ts_subtract InitEmpty (InitFromSlice (b_Transactions blockA)),
     bm_noParentBlocks = fmempty, bm_next = 2\<rparr>"

definition stateB :: BlockchainManager where
  "stateB = stateA\<lparr>bm_blocks := fmupd (toyh 2) (InitBlockNode 2 (FakeNode 0) blockB) (bm_blocks stateA),
     bm_next := 3\<rparr>"

lemma Init_toy: "InitBlockchainManager toy = \<lparr>bm_tail = FakeNode 0,
     bm_blocks = fmupd (toyh 0) (FakeNode 0) fmempty, bm_pendingTx = InitEmpty,
     bm_noParentBlocks = fmempty, bm_next = 1\<rparr>"
  by (simp add: InitBlockchainManager_def InitFakeBlockNode_def zero_toyh Let_def)

lemma add_blockA: "AddBlock toy no_order (InitBlockchainManager toy) blockA = Inr (stateA, True)"
  by (simp add: Init_toy AddBlock_def append_extend stateA_def blockA_def zero_toyh)

lemma add_blockB: "AddBlock toy no_order stateA blockB = Inr (stateB, True)"
  by (simp add: AddBlock_def append_short [where p = "FakeNode 0"] stateA_def stateB_def
      blockA_def blockB_def zero_toyh chain_simps)

lemma reach_A: "bc_reach toy toy_universe stateA"
  by (rule bc_reach.add_block [OF bc_reach.start _ add_blockA]) (simp add: toy_universe_def)

lemma reach_B: "bc_reach toy toy_universe stateB"
  by (rule bc_reach.add_block [OF reach_A _ add_blockB]) (simp add: toy_universe_def)

lemma shared_AB: "getLSA (bm_tail stateB) (InitBlockNode 2 (FakeNode 0) blockB) = Some (FakeNode 0)"
  by (simp add: stateB_def stateA_def getLSA_def InitBlockNode_def)

text \<open>After \<open>blockC\<close> the branch of \<open>blockB\<close> is longer: both names of \<open>blockA\<close> are pending
  again, and under both the set holds the transaction of the last one.\<close>

definition stateC :: BlockchainManager where
  "stateC = stateB\<lparr>bm_tail := InitBlockNode 3 (InitBlockNode 2 (FakeNode 0) blockB) blockC,
     bm_next := 4,
     bm_blocks := fmupd (toyh 3) (InitBlockNode 3 (InitBlockNode 2 (FakeNode 0) blockB) blockC)
       (bm_blocks stateB),
     bm_pendingTx := fmupd ''b'' (toy_tx ''b'') (fmupd ''a'' (toy_tx ''b'') fmempty)\<rparr>"

lemma txset_A: "InitFromSlice (b_Transactions blockA)
    = fmupd ''b'' (toy_tx ''b'') (fmupd ''a'' (toy_tx ''b'') fmempty)"
  by (rule fmap_ext) (simp add: InitFromSlice_def blockA_def ts_add_def InitEmpty_def)

lemma txset_BC: "InitFromSlice (b_Transactions blockB) = fmempty" "InitFromSlice (b_Transactions blockC) = fmempty"
  by (simp_all add: InitFromSlice_def blockB_def blockC_def InitEmpty_def)

lemma fmap_steps [simp]: "fmempty ++\<^sub>f m = m" "fmdrop_fset {||} m = m" "ts_subtract fmempty m = fmempty"
  by (simp_all add: ts_subtract_def fmap_ext)

lemma pending_A: "bm_pendingTx stateA = fmempty"
  by (simp add: stateA_def InitEmpty_def)

lemma add_blockC: "AddBlock toy no_order stateB blockC = Inr (stateC, True)"
proof -
  have l: "bm_blocks stateB = fmupd (toyh 2) (InitBlockNode 2 (FakeNode 0) blockB) (bm_blocks stateA)"
    "bm_tail stateB = InitBlockNode 1 (FakeNode 0) blockA" "bm_next stateB = 3"
    "bm_pendingTx stateB = fmempty"
    by (simp_all add: stateB_def pending_A) (simp add: stateA_def)
  have c: "b_PrevHash blockC = toyh 2" "Block_Hash toy blockC = toyh 3" "IsGood toy blockC"
    "Block_Hash toy blockA = toyh 1"
    by (simp_all add: blockC_def blockA_def)
  have u: "undo_history (Some (FakeNode 0)) (InitBlockNode 1 (FakeNode 0) blockA) fmempty 0
      = Inr (InitFromSlice (b_Transactions blockA), 1)"
    by (simp add: InitBlockNode_def ts_union_def)
  have v: "apply_history (Some (FakeNode 0)) (InitBlockNode 3 (InitBlockNode 2 (FakeNode 0) blockB) blockC) s
      = Inr s" for s
    by (simp add: InitBlockNode_def txset_BC ts_subtract_def)
  have k: "\<not> has_key (bm_blocks stateA) (toyh 3)"
    by (simp add: stateA_def)
  have "appendToTheTree toy stateB blockC = Inr stateC"
    using shared_AB by (simp add: appendToTheTree_def Let_def l c u v chain_simps txset_A stateC_def
        del: go_bind_Inr go_map_Inr One_nat_def)
  then show ?thesis
    using k by (simp add: AddBlock_def c l)
qed

lemma reach_C: "bc_reach toy toy_universe stateC"
  by (rule bc_reach.add_block [OF reach_B _ add_blockC]) (simp add: toy_universe_def)

section \<open>The block tree\<close>

text \<open>C20: In no reachable state does the arrival of a block make the manager panic, and the
  passes over the waiting blocks end: \<open>AddBlock\<close> returns, and it returns true exactly for a
  block whose hash is new, whose hash is good and whose parent is known.\<close>
theorem AddBlock_never_panics:
  assumes "bc_reach H B bm" "collision_free H B" "b \<in> B"
  shows "\<exists>bm'. AddBlock H ord bm b = Inr (bm', acceptable H bm b)"
  using AddBlock_inv [OF bc_reach_inv [OF assms(1,2)] assms(2,3)] by blast

theorem AddBlock_never_panics_witness:
  "\<exists>bm'. AddBlock toy no_order stateA blockB = Inr (bm', acceptable toy stateA blockB)"
  by (rule AddBlock_never_panics [OF reach_A toy_universe_collision_free])
    (simp add: toy_universe_def)

text \<open>C7: In every reachable state each entry of the block map is a node with that hash, from
  which the parent links lead over good blocks, each naming the hash of the next, to the
  fake root; and the tail is one of the deepest nodes: the official history is a longest
  chain.\<close>
theorem tail_is_longest_chain:
  assumes "bc_reach H B bm" "collision_free H B" "fmlookup (bm_blocks bm) h = Some n"
  shows "getBlockHash H n = h \<and> wf_node H n \<and> length (ancestors n) = Suc (depth n)
     \<and> depth n \<le> depth (bm_tail bm) \<and> wf_node H (bm_tail bm)"
proof -
  have t: "tree_inv H B bm"
    using bc_reach_inv [OF assms(1,2)] by (simp add: bm_inv_def)
  note n = tree_invD(1-3) [OF t assms(3)]
  show ?thesis
    using n(1,3) node_okD(1) [OF n(2)] node_okD(1) [OF tree_invD(4) [OF t]] depth_length by blast
qed

theorem tail_is_longest_chain_witness:
  "depth (InitBlockNode 2 (FakeNode 0) blockB) \<le> depth (bm_tail stateB)"
  using tail_is_longest_chain [OF reach_B toy_universe_collision_free,
      of "toyh 2" "InitBlockNode 2 (FakeNode 0) blockB"]
  by (simp add: stateB_def)

text \<open>C21: What an accepted block does to the tree: exactly its own hash becomes known, whatever
  was waiting; a block on the tail becomes the tail; otherwise it becomes the tail exactly
  when its parent is as deep as the tail, and the official history then grows by one.\<close>
theorem AddBlock_grows_tree:
  assumes "bc_reach H B bm" "collision_free H B" "b \<in> B" "acceptable H bm b"
  shows "\<exists>bm' p. AddBlock H ord bm b = Inr (bm', True)
     \<and> fmdom (bm_blocks bm') = finsert (Block_Hash H b) (fmdom (bm_blocks bm))
     \<and> p = (if b_PrevHash b = getBlockHash H (bm_tail bm) then Some (bm_tail bm)
             else fmlookup (bm_blocks bm) (b_PrevHash b)) \<and> p \<noteq> None
     \<and> bm_tail bm' = (if depth (bm_tail bm) \<le> depth (the p)
                        then InitBlockNode (bm_next bm) (the p) b else bm_tail bm)
     \<and> depth (bm_tail bm') \<in> {depth (bm_tail bm), Suc (depth (bm_tail bm))}"
proof -
  have inv: "bm_inv H B bm" by (rule bc_reach_inv [OF assms(1,2)])
  then have t: "tree_inv H B bm" by (simp add: bm_inv_def)
  from AddBlock_accept [OF inv assms(2-4), of ord] obtain bm1 bm' where
    a: "appendToTheTree H bm b = Inr bm1" "AddBlock H ord bm b = Inr (bm', True)"
      "bm_tail bm' = bm_tail bm1"
      "fmdom (bm_blocks bm') = finsert (Block_Hash H b) (fmdom (bm_blocks bm))"
    unfolding settled_def by blast
  have k: "has_key (bm_blocks bm) (b_PrevHash b)" using assms(4) by (simp add: acceptable_def)
  show ?thesis
    using inv k
  proof (cases rule: append_cases)
    case extend
    then show ?thesis using a by (auto simp: append_extend chain_simps)
  next
    case (short p)
    then show ?thesis using a by (auto simp: append_short)
  next
    case (switch p)
    from append_switch [OF inv switch(2,1,3)] a(1)
    have "bm_tail bm1 = InitBlockNode (bm_next bm) p b" by auto
    moreover have "depth p = depth (bm_tail bm)"
      using tree_invD(3) [OF t switch(2)] switch(3) by simp
    ultimately show ?thesis using a switch by (auto simp: chain_simps)
  qed
qed

lemma acceptable_C: "acceptable toy stateB blockC"
  by (simp add: acceptable_def blockC_def stateB_def stateA_def)

theorem AddBlock_grows_tree_witness:
  "\<exists>bm'. AddBlock toy no_order stateB blockC = Inr (bm', True)
     \<and> fmdom (bm_blocks bm') = finsert (Block_Hash toy blockC) (fmdom (bm_blocks stateB))"
  using AddBlock_grows_tree [OF reach_B toy_universe_collision_free _ acceptable_C, of no_order]
  by (simp add: toy_universe_def) blast

text \<open>C22: For any two nodes of a reachable tree \<open>getLSA\<close> returns the deepest node that both
  chains share, so the rollback of a history rewrite is as short as possible.\<close>
theorem getLSA_is_deepest_shared:
  assumes "bc_reach H B bm" "collision_free H B"
    and "fmlookup (bm_blocks bm) h = Some m" "fmlookup (bm_blocks bm) k = Some n"
  shows "\<exists>l. getLSA m n = Some l \<and> shared_ancestor l m n"
proof -
  have t: "tree_inv H B bm" and a: "addr_unique (universe bm)"
    using bc_reach_inv [OF assms(1,2)] by (simp_all add: bm_inv_def addr_inv_def)
  have "set (ancestors m) \<union> set (ancestors n) \<subseteq> universe bm"
    using universe_block [OF assms(3)] universe_block [OF assms(4)] by blast
  from getLSA_meets [OF addr_unique_subset [OF a this] node_okD(1) [OF tree_invD(2) [OF t assms(3)]]
      node_okD(1) [OF tree_invD(2) [OF t assms(4)]]]
  show ?thesis unfolding shared_ancestor_def by blast
qed

theorem getLSA_is_deepest_shared_witness:
  "\<exists>l. getLSA (InitBlockNode 1 (FakeNode 0) blockA) (InitBlockNode 2 (FakeNode 0) blockB) = Some l
     \<and> shared_ancestor l (InitBlockNode 1 (FakeNode 0) blockA) (InitBlockNode 2 (FakeNode 0) blockB)"
  by (rule getLSA_is_deepest_shared [OF reach_B toy_universe_collision_free, of "toyh 1" _ "toyh 2"])
    (simp_all add: stateB_def stateA_def)

text \<open>C23: When a block makes another branch the longest, the names pending afterwards are the
  ones pending before and the ones of the abandoned blocks, down to the deepest shared
  node, without those of the new branch.\<close>
theorem rewrite_pending_names:
  assumes "bc_reach H B bm" "collision_free H B" "b \<in> B" "acceptable H bm b"
    and "b_PrevHash b \<noteq> getBlockHash H (bm_tail bm)"
    and "fmlookup (bm_blocks bm) (b_PrevHash b) = Some p" "depth (bm_tail bm) \<le> depth p"
  shows "\<exists>bm' l. AddBlock H ord bm b = Inr (bm', True) \<and> shared_ancestor l (bm_tail bm) p
     \<and> ts_names (bm_pendingTx bm') =
         (ts_names (bm_pendingTx bm) \<union> branch_names l (bm_tail bm)) - branch_names l (bm_tail bm')"
proof -
  have inv: "bm_inv H B bm" by (rule bc_reach_inv [OF assms(1,2)])
  from append_switch [OF inv assms(6,5,7)] AddBlock_accept [OF inv assms(2-4), of ord]
  obtain l bm1 bm' where
    "shared_ancestor l (bm_tail bm) p" "AddBlock H ord bm b = Inr (bm', True)" "settled bm1 bm'"
    "bm_tail bm1 = InitBlockNode (bm_next bm) p b"
    "bm_pendingTx bm1 = rewritten l (bm_tail bm) (InitBlockNode (bm_next bm) p b) (bm_pendingTx bm)"
    by fastforce
  then show ?thesis using rewritten_names by (auto simp: settled_def)
qed

theorem rewrite_pending_names_witness:
  "\<exists>bm' l. AddBlock toy no_order stateB blockC = Inr (bm', True)
     \<and> shared_ancestor l (bm_tail stateB) (InitBlockNode 2 (FakeNode 0) blockB)
     \<and> ts_names (bm_pendingTx bm') =
         (ts_names (bm_pendingTx stateB) \<union> branch_names l (bm_tail stateB)) - branch_names l (bm_tail bm')"
  by (rule rewrite_pending_names [OF reach_B toy_universe_collision_free _ acceptable_C])
    (simp_all add: toy_universe_def stateB_def stateA_def blockC_def blockA_def chain_simps)

text \<open>C36: A block that waits for its parent keeps waiting when the parent arrives: the pass over
  the waiting blocks tests their own hash, so the child stays unknown and in the waiting
  map.\<close>
theorem waiting_child_not_attached:
  assumes "bc_reach H B bm" "collision_free H B" "b \<in> B" "acceptable H bm b"
    and "fmlookup (bm_noParentBlocks bm) h = Some c" "\<not> has_key (bm_blocks bm) h"
    and "b_PrevHash c = Block_Hash H b" "Block_Hash H b \<noteq> h"
  shows "\<exists>bm'. AddBlock H ord bm b = Inr (bm', True) \<and> has_key (bm_blocks bm') (b_PrevHash c)
     \<and> \<not> has_key (bm_blocks bm') h \<and> fmlookup (bm_noParentBlocks bm') h = Some c"
proof -
  have inv: "bm_inv H B bm" by (rule bc_reach_inv [OF assms(1,2)])
  from AddBlock_accept [OF inv assms(2-4), of ord] obtain bm1 bm' where
    a: "appendToTheTree H bm b = Inr bm1" "AddBlock H ord bm b = Inr (bm', True)"
      "settled bm1 bm'" "fmdom (bm_blocks bm') = finsert (Block_Hash H b) (fmdom (bm_blocks bm))"
    by blast
  have "\<not> has_key (bm_blocks bm') h" "has_key (bm_blocks bm') (b_PrevHash c)"
    using a(4) assms(6,7,8) by (auto simp: has_key_def)
  moreover have "\<not> has_key (bm_blocks bm1) h"
    using a(3) calculation(1) by (auto simp: settled_def has_key_def)
  moreover have "fmlookup (bm_noParentBlocks bm1) h = Some c"
    unfolding append_noParent [OF a(1)] by (rule assms(5))
  ultimately show ?thesis using a(2,3) unfolding settled_def by blast
qed

definition stateW :: BlockchainManager where
  "stateW = (InitBlockchainManager toy)\<lparr>bm_noParentBlocks := fmupd (toyh 3) blockC fmempty\<rparr>"

lemma reach_W: "bc_reach toy toy_universe stateW"
proof (rule bc_reach.add_block [OF bc_reach.start])
  show "blockC \<in> toy_universe" by (simp add: toy_universe_def)
  show "AddBlock toy no_order (InitBlockchainManager toy) blockC = Inr (stateW, False)"
    by (simp add: AddBlock_def stateW_def blockC_def Init_toy)
qed

theorem waiting_child_not_attached_witness:
  "\<exists>bm'. AddBlock toy no_order stateW blockB = Inr (bm', True)
     \<and> has_key (bm_blocks bm') (b_PrevHash blockC)
     \<and> \<not> has_key (bm_blocks bm') (toyh 3) \<and> fmlookup (bm_noParentBlocks bm') (toyh 3) = Some blockC"
  by (rule waiting_child_not_attached [OF reach_W toy_universe_collision_free])
    (simp_all add: toy_universe_def acceptable_def stateW_def Init_toy blockB_def blockC_def zero_toyh)

section \<open>Claims of file names\<close>

text \<open>C25: If every block is honest, that is claims only names that no chain it extends has
  claimed, then in every reachable state no name is claimed by two blocks of the official
  history, and no pending name is already claimed there.\<close>
theorem honest_claims_are_unique:
  assumes "bc_reach H B bm" "collision_free H B" "honest_blocks H B"
  shows "claimed_once (bm_tail bm) \<and> ts_names (bm_pendingTx bm) \<inter> chain_names (bm_tail bm) = {}"
proof -
  have t: "tree_inv H B bm"
    using bc_reach_inv [OF assms(1,2)] by (simp add: bm_inv_def)
  show ?thesis
    using honest_claimed_once [OF assms(3)] node_okD(1,2) [OF tree_invD(4) [OF t]]
      reach_disjoint [OF assms] by blast
qed

lemma honest_A: "honest_blocks toy {blockA}"
proof -
  have "chain_names p = {}"
    if "wf_node toy p" "chain_blocks p \<subseteq> {blockA}" "b_PrevHash blockA = getBlockHash toy p" for p
  proof (cases p)
    case (BlockNode a d q t b)
    with that have "getBlockHash toy p = toyh 1" by (simp add: blockA_def)
    with that(3) show ?thesis by (simp add: blockA_def zero_toyh)
  qed simp
  then show ?thesis by (simp add: honest_blocks_def)
qed

theorem honest_claims_are_unique_witness:
  "claimed_once (bm_tail stateA) \<and> ts_names (bm_pendingTx stateA) \<inter> chain_names (bm_tail stateA) = {}"
proof -
  have "bc_reach toy {blockA} stateA"
    by (rule bc_reach.add_block [OF bc_reach.start _ add_blockA]) simp
  moreover have "collision_free toy {blockA}"
    using toy_universe_collision_free by (simp add: collision_free_def toy_universe_def)
  ultimately show ?thesis using honest_claims_are_unique [OF _ _ honest_A] by blast
qed

text \<open>\<open>AddBlock\<close> does not look at the names a block claims: there is a reachable state, an
  acceptable block that extends the official history and claims a name that is already
  claimed on it, and after its arrival the name is claimed twice.\<close>
theorem AddBlock_accepts_second_claim:
  "\<exists>bm'. bc_reach toy toy_universe stateA \<and> collision_free toy toy_universe
     \<and> AddBlock toy no_order stateA blockD = Inr (bm', True)
     \<and> ''a'' \<in> chain_names (bm_tail stateA) \<and> \<not> claimed_once (bm_tail bm')"
proof -
  have "AddBlock toy no_order stateA blockD = Inr (stateA\<lparr>bm_tail := InitBlockNode 2 (bm_tail stateA) blockD,
     bm_next := 3,
     bm_blocks := fmupd (toyh 4) (InitBlockNode 2 (bm_tail stateA) blockD) (bm_blocks stateA),
     bm_pendingTx := ts_subtract (bm_pendingTx stateA) (InitFromSlice (b_Transactions blockD))\<rparr>, True)"
    by (simp add: AddBlock_def append_extend stateA_def blockD_def blockA_def chain_simps)
  moreover have "\<not> claimed_once (InitBlockNode 2 (bm_tail stateA) blockD)"
    "''a'' \<in> chain_names (bm_tail stateA)"
    by (auto simp: stateA_def InitBlockNode_def blockA_def blockD_def)
  ultimately show ?thesis using reach_A toy_universe_collision_free by auto
qed

text \<open>The set built from a block's transactions has the name of each of them, and under
  every name the last transaction of the block: the stored pointers are all to the one
  loop variable.\<close>
theorem InitFromSlice_holds_last:
  "fmlookup (InitFromSlice s) k = (if k \<in> tx_name ` set s then Some (last s) else None)"
proof -
  have "k |\<in>| fmdom (InitFromSlice s) \<longleftrightarrow> k \<in> tx_name ` set s"
    using ts_names_InitFromSlice [of s] unfolding ts_names_def by blast
  moreover have "fmlookup (InitFromSlice s) k = Some tx \<Longrightarrow> tx = last s" for tx
    by (auto simp: InitFromSlice_def)
  ultimately show ?thesis by (auto simp: fmdom_notD)
qed


section \<open>Mining\<close>


definition stateP :: BlockchainManager where
  "stateP = (InitBlockchainManager toy)\<lparr>bm_pendingTx := fmupd ''a'' (toy_tx ''a'') fmempty\<rparr>"


end
