(* ===== verification/Consensus.thy ===== *)
theory Consensus
  imports BlockchainProps
begin

text \<open>
  Two blockchain managers that know the same blocks, whatever the order in which they learned of
  them and whichever they mined themselves: how far their official histories agree.
\<close>

definition chain_hashes :: "digest \<Rightarrow> blockNode \<Rightarrow> hash list" where
  "chain_hashes H n = map (getBlockHash H) (ancestors n)"

text \<open>The hashes of the blocks at the depth of the tail.\<close>

definition deepest :: "BlockchainManager \<Rightarrow> hash set" where
  "deepest bm = {h. \<exists>n. fmlookup (bm_blocks bm) h = Some n \<and> depth n = depth (bm_tail bm)}"

lemma same_hash_same_chain:
  assumes "collision_free H B" "wf_node H m" "wf_node H n" "chain_blocks m \<subseteq> B" "chain_blocks n \<subseteq> B"
    and "getBlockHash H m = getBlockHash H n"
  shows "chain_hashes H m = chain_hashes H n"
  using assms(2-)
proof (induction m arbitrary: n)
  case (FakeNode a)
  have "depth n = 0" using same_hash_same_depth [OF assms(1) FakeNode.prems] by simp
  then obtain x where "n = FakeNode x" using FakeNode.prems(2) by (cases n) auto
  then show ?case by (simp add: chain_hashes_def)
next
  case (BlockNode a d p t b)
  have "depth n = d" using same_hash_same_depth [OF assms(1) BlockNode.prems] by simp
  then obtain a' d' p' t' b' where n: "n = BlockNode a' d' p' t' b'" using BlockNode.prems(1) by (cases n) auto
  have "b_PrevHash b = b_PrevHash b'"
    using collision_freeD(1) [OF assms(1), of b b'] BlockNode.prems n by simp
  then have "chain_hashes H p = chain_hashes H p'"
    using BlockNode.prems n by (intro BlockNode.IH) auto
  then show ?case using n BlockNode.prems(5) by (simp add: chain_hashes_def)
qed

text \<open>Two managers with the same known blocks.\<close>

lemma known_depth:
  assumes "bc_reach H B bm1" "bc_reach H B bm2" "collision_free H B" "fmdom (bm_blocks bm1) = fmdom (bm_blocks bm2)"
    and "fmlookup (bm_blocks bm1) h = Some n"
  obtains n' where "fmlookup (bm_blocks bm2) h = Some n'" "depth n' = depth n"
proof -
  have t: "tree_inv H B bm1" "tree_inv H B bm2"
    using bc_reach_inv assms(1-3) by (auto simp: bm_inv_def)
  obtain n' where n': "fmlookup (bm_blocks bm2) h = Some n'"
    using assms(4,5) by (metis fmdomE fmdomI)
  note o = tree_invD(2) [OF t(1) assms(5)] tree_invD(2) [OF t(2) n']
  have "depth n' = depth n"
    by (rule same_hash_same_depth [OF assms(3) node_okD(1) [OF o(2)] node_okD(1) [OF o(1)] node_okD(2) [OF o(2)] node_okD(2) [OF o(1)]])
      (simp add: tree_invD(1) [OF t(1) assms(5)] tree_invD(1) [OF t(2) n'])
  with n' show ?thesis by (rule that)
qed

lemma tail_deepest:
  assumes "bc_reach H B bm" "collision_free H B"
  shows "getBlockHash H (bm_tail bm) \<in> deepest bm"
proof -
  have t: "tree_inv H B bm" using bc_reach_inv assms by (auto simp: bm_inv_def)
  note o = tree_invD(4) [OF t]
  obtain n where n: "fmlookup (bm_blocks bm) (getBlockHash H (bm_tail bm)) = Some n"
    using node_okD(3) [OF o] by (auto simp: has_key_lookup)
  note on = tree_invD(2) [OF t n]
  have "depth n = depth (bm_tail bm)"
    by (rule same_hash_same_depth [OF assms(2) node_okD(1) [OF on] node_okD(1) [OF o] node_okD(2) [OF on] node_okD(2) [OF o]])
      (simp add: tree_invD(1) [OF t n])
  with n show ?thesis by (auto simp: deepest_def)
qed

lemma same_height:
  assumes "bc_reach H B bm1" "bc_reach H B bm2" "collision_free H B" "fmdom (bm_blocks bm1) = fmdom (bm_blocks bm2)"
  shows "depth (bm_tail bm1) = depth (bm_tail bm2)" "deepest bm1 = deepest bm2"
proof -
  have le: "depth (bm_tail a) \<le> depth (bm_tail b)"
    if r: "bc_reach H B a" "bc_reach H B b" "fmdom (bm_blocks a) = fmdom (bm_blocks b)" for a b
  proof -
    obtain n where n: "fmlookup (bm_blocks a) (getBlockHash H (bm_tail a)) = Some n" "depth n = depth (bm_tail a)"
      using tail_deepest [OF r(1) assms(3)] by (auto simp: deepest_def)
    obtain n' where n': "fmlookup (bm_blocks b) (getBlockHash H (bm_tail a)) = Some n'" "depth n' = depth n"
      by (rule known_depth [OF r(1,2) assms(3) r(3) n(1)])
    have "tree_inv H B b" using bc_reach_inv r(2) assms(3) by (auto simp: bm_inv_def)
    from tree_invD(3) [OF this n'(1)] n(2) n'(2) show ?thesis by simp
  qed
  then show d: "depth (bm_tail bm1) = depth (bm_tail bm2)" using assms by (simp add: order_antisym)
  have sub: "deepest a \<subseteq> deepest b"
    if r: "bc_reach H B a" "bc_reach H B b" "fmdom (bm_blocks a) = fmdom (bm_blocks b)" "depth (bm_tail a) = depth (bm_tail b)" for a b
  proof
    fix h assume "h \<in> deepest a"
    then obtain n where n: "fmlookup (bm_blocks a) h = Some n" "depth n = depth (bm_tail a)" by (auto simp: deepest_def)
    obtain n' where "fmlookup (bm_blocks b) h = Some n'" "depth n' = depth n"
      by (rule known_depth [OF r(1,2) assms(3) r(3) n(1)])
    then show "h \<in> deepest b" using n(2) r(4) by (auto simp: deepest_def)
  qed
  show "deepest bm1 = deepest bm2" using sub assms d by (simp add: subset_antisym)
qed

lemma same_tail_same_chain:
  assumes "bc_reach H B bm1" "bc_reach H B bm2" "collision_free H B"
    and "getBlockHash H (bm_tail bm1) = getBlockHash H (bm_tail bm2)"
  shows "chain_hashes H (bm_tail bm1) = chain_hashes H (bm_tail bm2)"
proof -
  have "node_ok H B (bm_blocks bm1) (bm_tail bm1)" "node_ok H B (bm_blocks bm2) (bm_tail bm2)"
    using bc_reach_inv assms(1-3) by (auto simp: bm_inv_def tree_inv_def)
  then show ?thesis
    by (intro same_hash_same_chain [OF assms(3)] node_okD(1,2) assms(4))
qed

text \<open>A block on one of the deepest blocks becomes the tail.\<close>

lemma deepest_extended:
  assumes r: "bc_reach H B bm" and cf: "collision_free H B" and b: "b \<in> B" "acceptable H bm b" "b_PrevHash b \<in> deepest bm"
  obtains bm' where "AddBlock H ord bm b = Inr (bm', True)" "bc_reach H B bm'"
    "getBlockHash H (bm_tail bm') = Block_Hash H b"
proof -
  have inv: "bm_inv H B bm" by (rule bc_reach_inv [OF r cf])
  from AddBlock_accept [OF inv cf b(1,2), of ord] obtain bm1 bm' where
    a: "appendToTheTree H bm b = Inr bm1" "AddBlock H ord bm b = Inr (bm', True)" "bm_tail bm' = bm_tail bm1"
    unfolding settled_def by blast
  have k: "has_key (bm_blocks bm) (b_PrevHash b)" using b(2) by (simp add: acceptable_def)
  have "getBlockHash H (bm_tail bm1) = Block_Hash H b"
    using inv k
  proof (cases rule: append_cases)
    case extend
    then show ?thesis using a(1) by (auto simp: append_extend chain_simps)
  next
    case (short p)
    then show ?thesis using b(3) by (auto simp: deepest_def)
  next
    case (switch p)
    from append_switch [OF inv switch(2,1,3)] a(1) show ?thesis by (auto simp: chain_simps)
  qed
  with a(3) have "getBlockHash H (bm_tail bm') = Block_Hash H b" by simp
  with a(2) bc_reach.add_block [OF r b(1) a(2)] show ?thesis by (rule that)
qed

text \<open>C8: Two gossipers that know the same blocks, in whatever order they learned of them, have
  official histories of the same length; if there is only one block at that depth, the
  histories are the same block for block; and if there are several, so that the two may be on
  different branches, the next block on any of them makes both switch to the same history.\<close>
theorem same_blocks_same_chain:
  assumes "bc_reach H B bm1" "bc_reach H B bm2" "collision_free H B" "fmdom (bm_blocks bm1) = fmdom (bm_blocks bm2)"
  shows "depth (bm_tail bm1) = depth (bm_tail bm2)
     \<and> (is_singleton (deepest bm1) \<longrightarrow> chain_hashes H (bm_tail bm1) = chain_hashes H (bm_tail bm2))
     \<and> (\<forall>b \<in> B. acceptable H bm1 b \<and> b_PrevHash b \<in> deepest bm1 \<longrightarrow>
          (\<exists>bm1' bm2'. AddBlock H ord bm1 b = Inr (bm1', True) \<and> AddBlock H ord' bm2 b = Inr (bm2', True)
             \<and> chain_hashes H (bm_tail bm1') = chain_hashes H (bm_tail bm2')))"
proof (intro conjI impI ballI)
  note sh = same_height [OF assms]
  show "depth (bm_tail bm1) = depth (bm_tail bm2)" by (rule sh(1))
  show "chain_hashes H (bm_tail bm1) = chain_hashes H (bm_tail bm2)" if "is_singleton (deepest bm1)"
    using that tail_deepest [OF assms(1,3)] tail_deepest [OF assms(2,3)] sh(2)
    by (intro same_tail_same_chain [OF assms(1-3)]) (auto simp: is_singleton_def)
  fix b assume b: "b \<in> B" "acceptable H bm1 b \<and> b_PrevHash b \<in> deepest bm1"
  have b2: "acceptable H bm2 b" "b_PrevHash b \<in> deepest bm2"
    using b assms(4) sh(2) by (auto simp: acceptable_def has_key_def)
  obtain bm1' where 1: "AddBlock H ord bm1 b = Inr (bm1', True)" "bc_reach H B bm1'" "getBlockHash H (bm_tail bm1') = Block_Hash H b"
    using deepest_extended [OF assms(1,3) b(1), of ord] b(2) by blast
  obtain bm2' where 2: "AddBlock H ord' bm2 b = Inr (bm2', True)" "bc_reach H B bm2'" "getBlockHash H (bm_tail bm2') = Block_Hash H b"
    using deepest_extended [OF assms(2,3) b(1) b2, of ord'] by blast
  from same_tail_same_chain [OF 1(2) 2(2) assms(3)] 1 2 show "\<exists>bm1' bm2'. AddBlock H ord bm1 b = Inr (bm1', True)
     \<and> AddBlock H ord' bm2 b = Inr (bm2', True) \<and> chain_hashes H (bm_tail bm1') = chain_hashes H (bm_tail bm2')"
    by simp
qed

text \<open>The manager that received \<open>blockB\<close> before \<open>blockA\<close> is on the other branch; after
  \<open>blockC\<close> both are on the same.\<close>

definition stateB1 :: BlockchainManager where
  "stateB1 = \<lparr>bm_tail = InitBlockNode 1 (FakeNode 0) blockB,
     bm_blocks = fmupd (toyh 2) (InitBlockNode 1 (FakeNode 0) blockB) (fmupd (toyh 0) (FakeNode 0) fmempty),
     bm_pendingTx = ts_subtract InitEmpty (InitFromSlice (b_Transactions blockB)),
     bm_noParentBlocks = fmempty, bm_next = 2\<rparr>"

definition stateBA :: BlockchainManager where
  "stateBA = stateB1\<lparr>bm_blocks := fmupd (toyh 1) (InitBlockNode 2 (FakeNode 0) blockA) (bm_blocks stateB1),
     bm_next := 3\<rparr>"

lemma reach_BA: "bc_reach toy toy_universe stateBA"
proof -
  have "AddBlock toy no_order (InitBlockchainManager toy) blockB = Inr (stateB1, True)"
    by (simp add: Init_toy AddBlock_def append_extend stateB1_def blockB_def zero_toyh)
  from bc_reach.add_block [OF bc_reach.start _ this] have r: "bc_reach toy toy_universe stateB1"
    by (simp add: toy_universe_def)
  have "AddBlock toy no_order stateB1 blockA = Inr (stateBA, True)"
    by (simp add: AddBlock_def append_short [where p = "FakeNode 0"] stateB1_def stateBA_def
        blockA_def blockB_def zero_toyh chain_simps)
  from bc_reach.add_block [OF r _ this] show ?thesis
    by (simp add: toy_universe_def)
qed

lemma states_AB:
  "bm_blocks stateB = fmupd (toyh 2) (InitBlockNode 2 (FakeNode 0) blockB)
     (fmupd (toyh 1) (InitBlockNode 1 (FakeNode 0) blockA) (fmupd (toyh 0) (FakeNode 0) fmempty))"
  "bm_blocks stateBA = fmupd (toyh 1) (InitBlockNode 2 (FakeNode 0) blockA)
     (fmupd (toyh 2) (InitBlockNode 1 (FakeNode 0) blockB) (fmupd (toyh 0) (FakeNode 0) fmempty))"
  "bm_tail stateB = InitBlockNode 1 (FakeNode 0) blockA" "bm_tail stateBA = InitBlockNode 1 (FakeNode 0) blockB"
  by (simp_all add: stateB_def stateA_def stateBA_def stateB1_def)

theorem same_blocks_same_chain_witness:
  "chain_hashes toy (bm_tail stateB) \<noteq> chain_hashes toy (bm_tail stateBA)
   \<and> (\<exists>bm1' bm2'. AddBlock toy no_order stateB blockC = Inr (bm1', True)
        \<and> AddBlock toy no_order stateBA blockC = Inr (bm2', True)
        \<and> chain_hashes toy (bm_tail bm1') = chain_hashes toy (bm_tail bm2'))"
proof
  show "chain_hashes toy (bm_tail stateB) \<noteq> chain_hashes toy (bm_tail stateBA)"
    by (simp add: states_AB chain_hashes_def InitBlockNode_def blockA_def blockB_def zero_toyh)
  have dom: "fmdom (bm_blocks stateB) = fmdom (bm_blocks stateBA)"
    by (simp add: states_AB) blast
  have "blockC \<in> toy_universe" "acceptable toy stateB blockC \<and> b_PrevHash blockC \<in> deepest stateB"
    by (simp_all add: toy_universe_def acceptable_def deepest_def states_AB has_key_lookup blockC_def InitBlockNode_def)
  with same_blocks_same_chain [OF reach_B reach_BA toy_universe_collision_free dom, of no_order no_order]
  show "\<exists>bm1' bm2'. AddBlock toy no_order stateB blockC = Inr (bm1', True)
        \<and> AddBlock toy no_order stateBA blockC = Inr (bm2', True)
        \<and> chain_hashes toy (bm_tail bm1') = chain_hashes toy (bm_tail bm2')"
    by blast
qed

end
