(* ===== verification/Config.thy ===== *)
theory Config
  imports Prelude
begin

text \<open>
  The constants of \<open>config/Constants.go\<close> and \<open>config/GossiperConfig.go\<close> that the model
  uses, at the types they have where they are used. A timer that fires is an event of the
  model; the durations, in nanoseconds, say when it comes.
\<close>

definition FileChunkSize :: nat where
  "FileChunkSize = 8 * 1024"

definition MaxFileSize :: nat where
  "MaxFileSize = (FileChunkSize div 32) * FileChunkSize"

definition FileDownloadTimeoutsLimit :: int where
  "FileDownloadTimeoutsLimit = 5"

definition FileSearchStartBudget :: int where
  "FileSearchStartBudget = 2"

definition FileSearchMaxBudget :: int where
  "FileSearchMaxBudget = 32"

definition FileSearchFullMatchesThreshold :: nat where
  "FileSearchFullMatchesThreshold = 2"

definition DefaultHopLimit :: u32 where
  "DefaultHopLimit = 5"

definition BlockchainTxHopLimit :: u32 where
  "BlockchainTxHopLimit = 10"

definition BlockchainBlockPublishHopLimit :: u32 where
  "BlockchainBlockPublishHopLimit = 20"

definition LocalIp :: string where
  "LocalIp = ''127.0.0.1''"

section \<open>Durations\<close>

definition Millisecond :: int where
  "Millisecond = 10 ^ 6"

definition Second :: int where
  "Second = 1000 * Millisecond"

definition RumorTimeout :: int where
  "RumorTimeout = 1 * Second"

definition AntiEntropyTimeout :: int where
  "AntiEntropyTimeout = 1 * Second"

definition FileDownloadReplyTimeout :: int where
  "FileDownloadReplyTimeout = 5 * Second"

definition FileSearchReplyTimeout :: int where
  "FileSearchReplyTimeout = 1 * Second"

definition RecentSearchRequestTimeout :: int where
  "RecentSearchRequestTimeout = 500 * Millisecond"

definition BlockchainNoTxTimeout :: int where
  "BlockchainNoTxTimeout = 2 * Second"

lemma FileChunkSize_pos [simp]: "0 < FileChunkSize" "FileChunkSize \<noteq> 0"
  by (simp_all add: FileChunkSize_def)

end
