(* ===== verification/FileSystem.thy ===== *)
theory FileSystem
  imports GoStd
begin

text \<open>
  The file system as the program uses it through \<open>os\<close>, \<open>io/ioutil\<close> and
  \<open>path/filepath\<close>. A path is the list of its components from the root, as
  \<open>filepath.Clean\<close> leaves it; \<open>Join\<close> resolves the components of a further string, so that
  a name with slashes or \<open>..\<close> leads where it leads in the program. The state has the
  working directory and a map from paths to directories and files. Permissions, links,
  limits on names and on space are not modelled: an operation fails only because of what
  exists at the path and above it. The program ignores the errors of \<open>Mkdir\<close>,
  \<open>WriteFile\<close> and \<open>Remove\<close>, so a failing one changes nothing.
\<close>

type_synonym path = "string list"

datatype fsnode = Dir | Data "byte list"

record filesystem =
  fs_cwd :: path
  fs_nodes :: "(path, fsnode) fmap"

abbreviation node_at :: "filesystem \<Rightarrow> path \<Rightarrow> fsnode option" where
  "node_at fs \<equiv> fmlookup (fs_nodes fs)"

section \<open>Paths\<close>

definition path_step :: "path \<Rightarrow> string \<Rightarrow> path" where
  "path_step p c = (if c = [] \<or> c = ''.'' then p else if c = ''..'' then butlast p else p @ [c])"

definition Join :: "path \<Rightarrow> string \<Rightarrow> path" where
  "Join p s = foldl path_step p (strings_Split s (CHR ''/''))"

definition Base :: "path \<Rightarrow> string" where
  "Base p = (if p = [] then ''/'' else last p)"

text \<open>A name that is one component of a path.\<close>

definition plain_name :: "string \<Rightarrow> bool" where
  "plain_name s \<longleftrightarrow> s \<noteq> [] \<and> s \<noteq> ''.'' \<and> s \<noteq> ''..'' \<and> CHR ''/'' \<notin> set s"

lemma Join_plain [simp]: "plain_name s \<Longrightarrow> Join p s = p @ [s]"
  by (simp add: Join_def plain_name_def strings_Split_plain path_step_def)

section \<open>Operations\<close>

datatype stat_error = NotExist | NotDirectory

definition os_Stat :: "filesystem \<Rightarrow> path \<Rightarrow> stat_error + fsnode" where
  "os_Stat fs p = (case node_at fs p of
     Some n \<Rightarrow> Inr n
   | None \<Rightarrow> Inl (if list_ex (\<lambda>i. \<exists>d. node_at fs (take i p) = Some (Data d)) [0..<length p]
                  then NotDirectory else NotExist))"

text \<open>\<open>_, err := os.Stat(p); os.IsNotExist(err)\<close>\<close>

definition IsNotExist :: "filesystem \<Rightarrow> path \<Rightarrow> bool" where
  "IsNotExist fs p \<longleftrightarrow> os_Stat fs p = Inl NotExist"

definition Mkdir :: "filesystem \<Rightarrow> path \<Rightarrow> filesystem" where
  "Mkdir fs p = (if p \<noteq> [] \<and> node_at fs p = None \<and> node_at fs (butlast p) = Some Dir
     then fs\<lparr>fs_nodes := fmupd p Dir (fs_nodes fs)\<rparr> else fs)"

definition WriteFile :: "filesystem \<Rightarrow> path \<Rightarrow> byte list \<Rightarrow> filesystem" where
  "WriteFile fs p d = (if p \<noteq> [] \<and> node_at fs p \<noteq> Some Dir \<and> node_at fs (butlast p) = Some Dir
     then fs\<lparr>fs_nodes := fmupd p (Data d) (fs_nodes fs)\<rparr> else fs)"

definition ReadFile :: "filesystem \<Rightarrow> path \<Rightarrow> byte list option" where
  "ReadFile fs p = (case node_at fs p of Some (Data d) \<Rightarrow> Some d | _ \<Rightarrow> None)"

definition os_Remove :: "filesystem \<Rightarrow> path \<Rightarrow> filesystem" where
  "os_Remove fs p = (if p = [] \<or> fBex (fmdom (fs_nodes fs)) (\<lambda>q. q \<noteq> [] \<and> butlast q = p) then fs
     else fs\<lparr>fs_nodes := fmdrop p (fs_nodes fs)\<rparr>)"

definition RemoveAll :: "filesystem \<Rightarrow> path \<Rightarrow> filesystem" where
  "RemoveAll fs p = fs\<lparr>fs_nodes := fmfilter (\<lambda>q. take (length p) q \<noteq> p) (fs_nodes fs)\<rparr>"

lemma cwd_ops [simp]:
  "fs_cwd (Mkdir fs p) = fs_cwd fs" "fs_cwd (WriteFile fs p d) = fs_cwd fs"
  "fs_cwd (os_Remove fs p) = fs_cwd fs" "fs_cwd (RemoveAll fs p) = fs_cwd fs"
  by (simp_all add: Mkdir_def WriteFile_def os_Remove_def RemoveAll_def)

section \<open>Closed file systems\<close>

text \<open>What exists lies in a directory.\<close>

definition fs_closed :: "filesystem \<Rightarrow> bool" where
  "fs_closed fs \<longleftrightarrow> node_at fs [] = Some Dir
     \<and> (\<forall>p. p \<noteq> [] \<and> node_at fs p \<noteq> None \<longrightarrow> node_at fs (butlast p) = Some Dir)"

lemma fs_closedD: "fs_closed fs \<Longrightarrow> node_at fs p = Some n \<Longrightarrow> p \<noteq> [] \<Longrightarrow> node_at fs (butlast p) = Some Dir"
  by (auto simp: fs_closed_def)

lemma fs_closed_child: "fs_closed fs \<Longrightarrow> node_at fs p \<noteq> Some Dir \<Longrightarrow> node_at fs (p @ [c]) = None"
  using fs_closedD [of fs "p @ [c]"] by (cases "node_at fs (p @ [c])") auto

lemma fs_closedI:
  "node_at fs [] = Some Dir \<Longrightarrow>
   (\<And>p n. p \<noteq> [] \<Longrightarrow> node_at fs p = Some n \<Longrightarrow> node_at fs (butlast p) = Some Dir) \<Longrightarrow> fs_closed fs"
  unfolding fs_closed_def by blast

lemma fs_closed_root: "fs_closed fs \<Longrightarrow> node_at fs [] = Some Dir"
  unfolding fs_closed_def by blast

lemma Mkdir_closed [intro]:
  assumes "fs_closed fs" shows "fs_closed (Mkdir fs p)"
proof (rule fs_closedI)
  show "node_at (Mkdir fs p) [] = Some Dir"
    using fs_closed_root [OF assms] by (simp add: Mkdir_def)
next
  fix q n assume "q \<noteq> []" "node_at (Mkdir fs p) q = Some n"
  then show "node_at (Mkdir fs p) (butlast q) = Some Dir"
    using fs_closedD [OF assms, of q] fs_closed_root [OF assms] by (auto simp: Mkdir_def split: if_splits)
qed

lemma WriteFile_closed [intro]:
  assumes "fs_closed fs" shows "fs_closed (WriteFile fs p d)"
proof (rule fs_closedI)
  show "node_at (WriteFile fs p d) [] = Some Dir"
    using fs_closed_root [OF assms] by (simp add: WriteFile_def)
next
  fix q n assume q: "q \<noteq> []" "node_at (WriteFile fs p d) q = Some n"
  then have "node_at fs (butlast q) = Some Dir"
    using fs_closedD [OF assms, of q] by (cases "node_at fs q") (auto simp: WriteFile_def split: if_splits)
  then show "node_at (WriteFile fs p d) (butlast q) = Some Dir"
    by (auto simp: WriteFile_def)
qed

lemma Remove_closed [intro]:
  assumes "fs_closed fs" shows "fs_closed (os_Remove fs p)"
proof (cases "p = [] \<or> fBex (fmdom (fs_nodes fs)) (\<lambda>q. q \<noteq> [] \<and> butlast q = p)")
  case False
  then have e: "butlast q \<noteq> p" if "q \<noteq> []" "node_at fs q = Some n" for q n
    using that by (metis fBexI fmdomI)
  from False have r: "node_at (os_Remove fs p) q = (if q = p then None else node_at fs q)" for q
    unfolding os_Remove_def by (subst if_not_P) auto
  show ?thesis
  proof (rule fs_closedI)
    show "node_at (os_Remove fs p) [] = Some Dir"
      using False fs_closed_root [OF assms] r by metis
    fix q n assume "q \<noteq> []" "node_at (os_Remove fs p) q = Some n"
    then show "node_at (os_Remove fs p) (butlast q) = Some Dir"
      unfolding r using e fs_closedD [OF assms] by (metis option.discI)
  qed
next
  case True
  then show ?thesis by (simp add: os_Remove_def assms)
qed

lemma take_butlast_prefix: "take (length p) (butlast q) = p \<Longrightarrow> take (length p) q = p"
  by (cases q rule: rev_cases) (auto dest: arg_cong [where f = length])

lemma RemoveAll_closed [intro]:
  assumes "fs_closed fs" "p \<noteq> []" shows "fs_closed (RemoveAll fs p)"
proof (rule fs_closedI)
  show "node_at (RemoveAll fs p) [] = Some Dir"
    using assms fs_closed_root by (auto simp: RemoveAll_def)
next
  fix q n assume "q \<noteq> []" "node_at (RemoveAll fs p) q = Some n"
  then show "node_at (RemoveAll fs p) (butlast q) = Some Dir"
    using fs_closedD [OF assms(1)] take_butlast_prefix [of p q]
    by (auto simp: RemoveAll_def split: if_splits)
qed

section \<open>What the operations do\<close>

lemma node_Mkdir:
  "node_at (Mkdir fs p) q = (if q = p \<and> p \<noteq> [] \<and> node_at fs p = None \<and> node_at fs (butlast p) = Some Dir
     then Some Dir else node_at fs q)"
  by (auto simp: Mkdir_def)

lemma node_WriteFile:
  "node_at (WriteFile fs p d) q =
     (if q = p \<and> p \<noteq> [] \<and> node_at fs p \<noteq> Some Dir \<and> node_at fs (butlast p) = Some Dir
      then Some (Data d) else node_at fs q)"
  by (auto simp: WriteFile_def)

lemma node_WriteFile_dir [simp]: "node_at (WriteFile fs p d) q = Some Dir \<longleftrightarrow> node_at fs q = Some Dir"
  by (auto simp: node_WriteFile)

lemma node_Mkdir_mono: "node_at fs q = Some n \<Longrightarrow> node_at (Mkdir fs p) q = Some n"
  by (auto simp: node_Mkdir)

lemma node_Mkdir_new:
  "fs_closed fs \<Longrightarrow> p \<noteq> [] \<Longrightarrow> node_at fs (butlast p) = Some Dir \<Longrightarrow> node_at fs p = None
     \<Longrightarrow> node_at (Mkdir fs p) p = Some Dir"
  by (simp add: node_Mkdir)

lemma node_Remove: "node_at (os_Remove fs p) q = node_at fs q \<or> q = p \<and> node_at (os_Remove fs p) q = None"
  by (simp add: os_Remove_def)

lemma ReadFile_Some: "ReadFile fs p = Some d \<longleftrightarrow> node_at fs p = Some (Data d)"
  by (auto simp: ReadFile_def split: option.splits fsnode.splits)

lemma not_IsNotExist: "node_at fs p = Some n \<Longrightarrow> \<not> IsNotExist fs p"
  by (simp add: IsNotExist_def os_Stat_def)

lemma IsNotExist_node: "IsNotExist fs p \<Longrightarrow> node_at fs p = None"
  by (auto simp: IsNotExist_def os_Stat_def split: option.splits)

lemma IsNotExist_in_dir:
  assumes "fs_closed fs" "node_at fs p = Some Dir"
  shows "IsNotExist fs (p @ [c]) \<longleftrightarrow> node_at fs (p @ [c]) = None"
proof -
  have d: "node_at fs (take i p) = Some Dir" for i
  proof (induction "length p - i" arbitrary: i)
    case (Suc k)
    then have i: "i < length p" by simp
    have "node_at fs (take (Suc i) p) = Some Dir" using Suc by simp
    moreover have "butlast (take (Suc i) p) = take i p" using i by (simp add: take_Suc_conv_app_nth)
    moreover have "take (Suc i) p \<noteq> []" using i by auto
    ultimately show ?case using fs_closedD [OF assms(1)] by metis
  qed (simp add: assms(2))
  show ?thesis
  proof (cases "node_at fs (p @ [c])")
    case None
    have "\<not> list_ex (\<lambda>i. \<exists>d. node_at fs (take i (p @ [c])) = Some (Data d)) [0..<length (p @ [c])]"
      unfolding list_ex_iff using d d [of "length p"] by (auto simp: take_append)
    then show ?thesis unfolding IsNotExist_def os_Stat_def None option.case by simp
  qed (simp add: not_IsNotExist)
qed

section \<open>Emptying a directory\<close>

text \<open>Both managers start by removing their chunks directory and creating it again, with its
  parent if need be.\<close>

definition outside :: "path \<Rightarrow> path \<Rightarrow> bool" where
  "outside p q \<longleftrightarrow> take (length p) q \<noteq> p"

lemma outside_append: "outside p q \<Longrightarrow> outside (p @ x) q"
  by (auto simp: outside_def dest: arg_cong [where f = "take (length p)"])

lemma outside_not_below: "outside p q \<Longrightarrow> q \<noteq> p @ x"
  by (auto simp: outside_def)

lemma reset_dirs:
  assumes "fs_closed fs" "node_at fs (fs_cwd fs) = Some Dir"
    and S: "S = fs_cwd fs @ [s]" "C = S @ [c]" and "\<And>d. node_at fs S \<noteq> Some (Data d)"
    and fs1: "fs1 = (if \<not> IsNotExist fs C then RemoveAll fs C else fs)"
    and fs2: "fs2 = (if IsNotExist fs1 S then Mkdir fs1 S else fs1)"
    and fs': "fs' = Mkdir fs2 C"
  shows "fs_closed fs' \<and> fs_cwd fs' = fs_cwd fs \<and> node_at fs' C = Some Dir
    \<and> (\<forall>x. node_at fs' (C @ [x]) = None) \<and> (\<forall>x y. node_at fs' (C @ [x, y]) = None)
    \<and> (\<forall>q. outside S q \<longrightarrow> node_at fs' q = node_at fs q)"
proof -
  have cw: "fs_cwd fs1 = fs_cwd fs" "fs_cwd fs2 = fs_cwd fs" by (simp_all add: fs1 fs2)
  have cl1: "fs_closed fs1" using assms(1) S by (auto simp: fs1)
  then have cl2: "fs_closed fs2" by (auto simp: fs2)
  have k: "node_at fs1 p = node_at fs p" if "length p < length C" for p
    using that by (auto simp: fs1 RemoveAll_def dest: arg_cong [where f = length])
  have dS: "node_at fs2 S = Some Dir"
  proof (cases "node_at fs S")
    case None
    have "IsNotExist fs1 S"
      unfolding S(1) by (subst IsNotExist_in_dir [OF cl1]) (use k None assms(2) S in auto)
    then show ?thesis using k None assms(2) S by (simp add: fs2 node_Mkdir)
  next
    case (Some n)
    with assms(5) have "n = Dir" by (cases n) auto
    with Some have "node_at fs1 S = Some Dir" using k S by simp
    then show ?thesis using not_IsNotExist by (simp add: fs2)
  qed
  have "node_at fs1 C = None"
    by (auto simp: fs1 RemoveAll_def dest: IsNotExist_node)
  then have n2: "node_at fs2 C = None" using S by (auto simp: fs2 node_Mkdir)
  then have n3: "node_at fs2 (C @ [x]) = None" for x using fs_closed_child [OF cl2, of C x] by simp
  then have n4: "node_at fs2 (C @ [x, y]) = None" for x y
    using fs_closed_child [OF cl2, of "C @ [x]" y] by simp
  have w: "node_at fs' q = (if q = C then Some Dir else node_at fs2 q)" for q
    using dS n2 S unfolding fs' by (auto simp: node_Mkdir butlast_append)
  have "node_at fs' q = node_at fs q" if o: "outside S q" for q
  proof -
    have "q \<noteq> C" "q \<noteq> S" using outside_not_below [OF o, of "[]"] outside_not_below [OF o] S(2) by auto
    moreover have "outside C q" using outside_append [OF o] S(2) by blast
    ultimately show ?thesis
      unfolding w by (auto simp: fs2 fs1 node_Mkdir RemoveAll_def outside_def)
  qed
  moreover have "fs_closed fs'" using cl2 unfolding fs' by auto
  ultimately show ?thesis using n3 n4 cw w by (auto simp: fs')
qed

section \<open>Directories of the program\<close>

definition SharedFilesPath :: "filesystem \<Rightarrow> path" where
  "SharedFilesPath fs = Join (fs_cwd fs) ''_SharedFiles''"

definition DownloadsPath :: "filesystem \<Rightarrow> path" where
  "DownloadsPath fs = Join (fs_cwd fs) ''_Downloads''"

definition SharedFilesChunksPath :: "filesystem \<Rightarrow> path" where
  "SharedFilesChunksPath fs = Join (SharedFilesPath fs) ''chunks''"

definition DownloadsChunksPath :: "filesystem \<Rightarrow> path" where
  "DownloadsChunksPath fs = Join (DownloadsPath fs) ''chunks''"

lemma paths_eq [simp]:
  "SharedFilesPath fs = fs_cwd fs @ [''_SharedFiles'']"
  "DownloadsPath fs = fs_cwd fs @ [''_Downloads'']"
  "SharedFilesChunksPath fs = fs_cwd fs @ [''_SharedFiles'', ''chunks'']"
  "DownloadsChunksPath fs = fs_cwd fs @ [''_Downloads'', ''chunks'']"
proof -
  have "plain_name ''_SharedFiles''" "plain_name ''_Downloads''" "plain_name ''chunks''"
    by (simp_all add: plain_name_def)
  then show "SharedFilesPath fs = fs_cwd fs @ [''_SharedFiles'']"
    "DownloadsPath fs = fs_cwd fs @ [''_Downloads'']"
    "SharedFilesChunksPath fs = fs_cwd fs @ [''_SharedFiles'', ''chunks'']"
    "DownloadsChunksPath fs = fs_cwd fs @ [''_Downloads'', ''chunks'']"
    by (simp_all add: SharedFilesPath_def DownloadsPath_def SharedFilesChunksPath_def DownloadsChunksPath_def)
qed

end
