(* ===== verification/Chunking.thy ===== *)
theory Chunking
  imports Config Utils
begin

text \<open>
  The loops that cut a sequence into pieces: the bytes of a file into chunks
  (\<open>shareFile\<close>), a metafile into hashes (\<open>gotMetafile\<close>) and a level of a Merkle tree into
  groups of children (\<open>ShareMerkleFile\<close>). Each loop is translated as it is written, with
  its index and its accumulators, and proved equal to \<open>blocks\<close>, which cuts off pieces of a
  fixed size.
\<close>

fun chunk_loop :: "nat \<Rightarrow> nat \<Rightarrow> nat \<Rightarrow> 'a list \<Rightarrow> 'a list list \<Rightarrow> 'a list \<Rightarrow> 'a list list" where
  "chunk_loop sz len i cur acc [] = acc"
| "chunk_loop sz len i cur acc (b # bs) =
     (let cur = cur @ [b] in
      if (i + 1) mod sz = 0 \<or> i + 1 = len then chunk_loop sz len (i + 1) [] (acc @ [cur]) bs
      else chunk_loop sz len (i + 1) cur acc bs)"

definition split_chunks :: "byte list \<Rightarrow> byte list list" where
  "split_chunks fileBytes = chunk_loop FileChunkSize (length fileBytes) 0 [] [] fileBytes"

fun hashes_loop :: "nat \<Rightarrow> hash \<Rightarrow> hash list \<Rightarrow> byte list \<Rightarrow> hash list" where
  "hashes_loop i currentChunk acc [] = acc"
| "hashes_loop i currentChunk acc (b # bs) =
     (let currentChunk = currentChunk[i mod 32 := b] in
      if (i + 1) mod 32 = 0 then hashes_loop (i + 1) currentChunk (acc @ [currentChunk]) bs
      else hashes_loop (i + 1) currentChunk acc bs)"

definition parse_metafile :: "byte list \<Rightarrow> hash list" where
  "parse_metafile metafile = hashes_loop 0 zero_hash [] metafile"

section \<open>Pieces of a fixed size\<close>

function blocks :: "nat \<Rightarrow> 'a list \<Rightarrow> 'a list list" where
  "blocks n xs = (if n = 0 \<or> xs = [] then [] else take n xs # blocks n (drop n xs))"
  by pat_completeness auto
termination by (relation "measure (\<lambda>(n, xs). length xs)") auto

declare blocks.simps [simp del]

lemma blocks_Nil [simp]: "blocks n [] = []"
  by (subst blocks.simps) simp

lemma blocks_step: "0 < n \<Longrightarrow> xs \<noteq> [] \<Longrightarrow> blocks n xs = take n xs # blocks n (drop n xs)"
  by (subst blocks.simps) simp

lemma blocks_app: "0 < n \<Longrightarrow> length xs = n \<Longrightarrow> blocks n (xs @ ys) = xs # blocks n ys"
  by (subst blocks_step) auto

lemma blocks_short: "xs \<noteq> [] \<Longrightarrow> length xs \<le> n \<Longrightarrow> blocks n xs = [xs]"
  by (cases xs) (simp_all add: blocks_step)

lemma concat_blocks [simp]: "0 < n \<Longrightarrow> concat (blocks n xs) = xs"
proof (induction n xs rule: blocks.induct)
  case (1 n xs)
  show ?case
  proof (cases "xs = []")
    case False
    with 1 show ?thesis by (simp add: blocks_step)
  qed simp
qed

lemma blocks_sizes: "p \<in> set (blocks n xs) \<Longrightarrow> p \<noteq> [] \<and> length p \<le> n"
proof (induction n xs rule: blocks.induct)
  case (1 n xs)
  have ne: "\<not> (n = 0 \<or> xs = [])"
  proof
    assume "n = 0 \<or> xs = []"
    then have "blocks n xs = []" by (subst blocks.simps) simp
    with 1(2) show False by simp
  qed
  with 1(2) have "p = take n xs \<or> p \<in> set (blocks n (drop n xs))" by (simp add: blocks_step)
  then show ?case using 1(1) ne by auto
qed

lemma blocks_concat:
  "0 < n \<Longrightarrow> \<forall>x \<in> set xs. length x = n \<Longrightarrow> blocks n (concat xs) = xs"
  by (induction xs) (auto simp: blocks_app)

lemma blocks_exact:
  "0 < n \<Longrightarrow> n dvd length xs \<Longrightarrow> p \<in> set (blocks n xs) \<Longrightarrow> length p = n"
proof (induction n xs rule: blocks.induct)
  case (1 n xs)
  show ?case
  proof (cases "xs = []")
    case False
    then have l: "n \<le> length xs" using 1(3) by (simp add: dvd_imp_le)
    then have "p = take n xs \<or> p \<in> set (blocks n (drop n xs))" using 1(2,4) False by (simp add: blocks_step)
    moreover have "n dvd length (drop n xs)" using 1(3) by simp
    ultimately show ?thesis using 1(1,2) False l by auto
  qed (use 1 in simp)
qed

lemma length_blocks:
  "0 < n \<Longrightarrow> length (blocks n xs) = (length xs + n - 1) div n"
proof (induction n xs rule: blocks.induct)
  case (1 n xs)
  show ?case
  proof (cases "xs = []")
    case False
    with 1 have "length (blocks n xs) = Suc ((length xs - n + n - 1) div n)"
      by (simp add: blocks_step)
    also have "\<dots> = (length xs + n - 1) div n"
    proof (cases "length xs \<le> n")
      case True
      moreover have "length xs + n - 1 = n + (length xs - 1)" using False by (cases xs) auto
      moreover have "length xs - 1 < n" using False True \<open>0 < n\<close> by (cases xs) auto
      ultimately have "(length xs + n - 1) div n = Suc 0" using \<open>0 < n\<close> by (metis div_add_self1 div_less less_not_refl2 One_nat_def plus_1_eq_Suc add.commute)
      then show ?thesis using True \<open>0 < n\<close> by simp
    next
      case f: False
      then have "length xs + n - 1 = (length xs - n + n - 1) + n" by simp
      then show ?thesis using \<open>0 < n\<close> by (metis div_add_self2 Suc_eq_plus1 less_not_refl2)
    qed
    finally show ?thesis .
  qed (use 1 in simp)
qed

section \<open>The loops compute the pieces\<close>

lemma chunk_loop_blocks:
  "0 < sz \<Longrightarrow> i mod sz = length cur \<Longrightarrow> len = i + length bs \<Longrightarrow> bs \<noteq> [] \<Longrightarrow>
   chunk_loop sz len i cur acc bs = acc @ blocks sz (cur @ bs)"
proof (induction bs arbitrary: i cur acc)
  case (Cons b bs)
  have lt: "length cur < sz" using Cons.prems by (metis mod_less_divisor)
  show ?case
  proof (cases "bs = []")
    case True
    then show ?thesis using Cons.prems lt by (simp add: blocks_short)
  next
    case ne: False
    show ?thesis
    proof (cases "(i + 1) mod sz = 0")
      case True
      then have l: "length (cur @ [b]) = sz"
        using Cons.prems(2) lt by (auto simp: mod_Suc split: if_splits)
      have "chunk_loop sz len i cur acc (b # bs) = (acc @ [cur @ [b]]) @ blocks sz ([] @ bs)"
        using Cons.IH [of "i + 1" "[]" "acc @ [cur @ [b]]"] True ne Cons.prems by simp
      also have "\<dots> = acc @ blocks sz ((cur @ [b]) @ bs)"
        using blocks_app [OF Cons.prems(1) l] by simp
      finally show ?thesis by simp
    next
      case False
      then have "(i + 1) mod sz = length (cur @ [b])"
        using Cons.prems(2) by (auto simp: mod_Suc split: if_splits)
      then show ?thesis using Cons.IH [of "i + 1" "cur @ [b]" acc] False ne Cons.prems by simp
    qed
  qed
qed simp

lemma chunk_loop_spec: "0 < sz \<Longrightarrow> chunk_loop sz (length bs) 0 [] [] bs = blocks sz bs"
  by (cases "bs = []") (simp_all add: chunk_loop_blocks)

lemma split_chunks_blocks: "split_chunks bs = blocks FileChunkSize bs"
  by (simp add: split_chunks_def chunk_loop_spec)

lemma hashes_loop_step:
  "i mod 32 + length xs = 32 \<Longrightarrow> xs \<noteq> [] \<Longrightarrow> length cur = 32 \<Longrightarrow>
   hashes_loop i cur acc (xs @ ys) =
     hashes_loop (i + length xs) (take (i mod 32) cur @ xs) (acc @ [take (i mod 32) cur @ xs]) ys"
proof (induction xs arbitrary: i cur)
  case (Cons x xs)
  let ?cur = "cur[i mod 32 := x]"
  have lt: "i mod 32 < 32" by simp
  have t: "take (Suc (i mod 32)) ?cur = take (i mod 32) cur @ [x]"
    using Cons.prems(3) lt by (simp add: take_Suc_conv_app_nth)
  show ?case
  proof (cases "xs = []")
    case True
    then have m: "(i + 1) mod 32 = 0" "i mod 32 = 31" using Cons.prems by (auto simp: mod_Suc)
    then have "?cur = take (i mod 32) cur @ [x]"
      using t Cons.prems(3) by simp
    then show ?thesis using m True by (simp add: Let_def)
  next
    case False
    then have m: "(i + 1) mod 32 = Suc (i mod 32)"
      using Cons.prems(1) by (cases xs) (auto simp: mod_Suc)
    then have "hashes_loop i cur acc ((x # xs) @ ys) = hashes_loop (i + 1) ?cur acc (xs @ ys)"
      by simp
    also have "\<dots> = hashes_loop (i + 1 + length xs) (take (i mod 32) cur @ x # xs)
        (acc @ [take (i mod 32) cur @ x # xs]) ys"
      using Cons.IH [of "i + 1" ?cur] False Cons.prems m t by simp
    finally show ?thesis by simp
  qed
qed simp

lemma hashes_loop_blocks:
  "i mod 32 = 0 \<Longrightarrow> length cur = 32 \<Longrightarrow> 32 dvd length bs \<Longrightarrow>
   hashes_loop i cur acc bs = acc @ blocks 32 bs"
proof (induction "32 :: nat" bs arbitrary: i cur acc rule: blocks.induct)
  case (1 bs)
  show ?case
  proof (cases "bs = []")
    case False
    then have l: "length (take 32 bs) = 32" using 1(4) by (simp add: dvd_imp_le)
    have "hashes_loop i cur acc (take 32 bs @ drop 32 bs) =
        hashes_loop (i + 32) (take 32 bs) (acc @ [take 32 bs]) (drop 32 bs)"
      by (subst hashes_loop_step) (use l 1(2,3) in auto)
    also have "\<dots> = (acc @ [take 32 bs]) @ blocks 32 (drop 32 bs)"
      using 1(1) [of "i + 32" "take 32 bs" "acc @ [take 32 bs]"] 1(2,4) False l by simp
    finally show ?thesis using False by (simp add: blocks_step)
  qed simp
qed

lemma parse_metafile_blocks: "32 dvd length bs \<Longrightarrow> parse_metafile bs = blocks 32 bs"
  by (simp add: parse_metafile_def hashes_loop_blocks)

lemma parse_metafile_concat: "\<forall>h \<in> set hs. length h = 32 \<Longrightarrow> parse_metafile (concat hs) = hs"
proof -
  assume a: "\<forall>h \<in> set hs. length h = 32"
  then have "length (concat hs) = 32 * length hs" by (induction hs) auto
  then show ?thesis using a by (simp add: parse_metafile_blocks blocks_concat)
qed

end
