(* ===== verification/SharedFile.thy ===== *)
theory SharedFile
  imports Messages Chunking
begin

text \<open>
  Sharing a file (\<open>models/filesharing/SharedFile.go\<close>): the file is cut into chunks, each
  chunk is written to disk under its hash, the metafile is the sequence of the hashes and
  its own hash names the file. \<open>shareFile\<close> returns the new file system with the shared
  file, or none where the code returns \<open>nil\<close>; it panics where the code reads the result of
  a failed \<open>Stat\<close>.

  A byte slice that may be \<open>nil\<close> is an option. \<open>regexp.MatchString\<close> is an argument: any
  function from pattern and text to a verdict, or none for an error.
\<close>

type_synonym matcher = "string \<Rightarrow> string \<Rightarrow> bool option"

record sharedFile =
  sf_Name :: string
  sf_Size :: nat
  sf_MetaHash :: hash
  sf_MetaSlice :: "byte list"
  sf_MetaSet :: "hash fset"

definition store_chunk :: "digest \<Rightarrow> path \<Rightarrow> filesystem \<times> byte list \<times> hash fset \<Rightarrow> byte list
    \<Rightarrow> filesystem \<times> byte list \<times> hash fset" where
  "store_chunk H chunksPath st chunk = (case st of (fs, metaSlice, metaSet) \<Rightarrow>
     let chunkHash = Sum256 H chunk in
     (WriteFile fs (Join chunksPath (GetChunkFileName chunkHash)) chunk,
      metaSlice @ chunkHash, finsert chunkHash metaSet))"

definition shareFile :: "digest \<Rightarrow> filesystem \<Rightarrow> path \<Rightarrow> (filesystem \<times> sharedFile option) go" where
  "shareFile H fs path =
    (case os_Stat fs path of
       Inl NotExist \<Rightarrow> Inr (fs, None)
     | Inl NotDirectory \<Rightarrow> Inl NilDereference
     | Inr Dir \<Rightarrow> Inr (fs, None)
     | Inr (Data _) \<Rightarrow>
        let fs = (if IsNotExist fs (SharedFilesPath fs) then Mkdir fs (SharedFilesPath fs) else fs);
            fs = (if IsNotExist fs (SharedFilesChunksPath fs) then Mkdir fs (SharedFilesChunksPath fs) else fs);
            name = Base path;
            chunksPath = Join (SharedFilesChunksPath fs) name
        in if \<not> IsNotExist fs chunksPath then Inr (fs, None)
        else
          let fs = Mkdir fs chunksPath in
          case ReadFile fs path of
            None \<Rightarrow> Inr (fs, None)
          | Some fileBytes \<Rightarrow>
              if MaxFileSize < length fileBytes then Inr (fs, None)
              else (case foldl (store_chunk H chunksPath) (fs, [], {||}) (split_chunks fileBytes) of
                (fs, metaSlice, metaSet) \<Rightarrow>
                  let metaHash = Sum256 H metaSlice;
                      fs = WriteFile fs (Join chunksPath (hex_EncodeToString metaHash @ ''.metafile'')) metaSlice
                  in Inr (fs, Some \<lparr>sf_Name = name, sf_Size = length fileBytes, sf_MetaHash = metaHash,
                                   sf_MetaSlice = metaSlice, sf_MetaSet = metaSet\<rparr>)))"

definition chunkBelongsToFile :: "sharedFile \<Rightarrow> hash \<Rightarrow> bool" where
  "chunkBelongsToFile sf chunkHash = (chunkHash |\<in>| sf_MetaSet sf)"

definition getChunk :: "filesystem \<Rightarrow> sharedFile \<Rightarrow> hash \<Rightarrow> byte list option" where
  "getChunk fs sf hashValue =
    (if \<not> chunkBelongsToFile sf hashValue then None
     else let chunkPath = Join (Join (SharedFilesChunksPath fs) (sf_Name sf)) (GetChunkFileName hashValue) in
       if IsNotExist fs chunkPath then None
       else ReadFile fs chunkPath)"

definition matches :: "matcher \<Rightarrow> string \<Rightarrow> string \<Rightarrow> bool" where
  "matches re kw name = (re (''.*'' @ kw @ ''.*'') name = Some True)"

definition sf_getSearchResults :: "matcher \<Rightarrow> sharedFile \<Rightarrow> string list \<Rightarrow> SearchResult list" where
  "sf_getSearchResults re sf keywords =
    map (\<lambda>kw. \<lparr>sr_FileName = sf_Name sf, sr_MetafileHash = sf_MetaHash sf,
               sr_ChunkMap = map word_of_nat [1..<fcard (sf_MetaSet sf) + 1],
               sr_ChunkCount = word_of_nat (fcard (sf_MetaSet sf))\<rparr>)
      (filter (\<lambda>kw. matches re kw (sf_Name sf)) keywords)"

section \<open>What a shared file guarantees\<close>

text \<open>The metafile lists the hashes of the set, and each of them has a file with that hash.\<close>

definition sf_ok :: "digest \<Rightarrow> filesystem \<Rightarrow> sharedFile \<Rightarrow> bool" where
  "sf_ok H fs sf \<longleftrightarrow> plain_name (sf_Name sf) \<and> sf_MetaHash sf = Sum256 H (sf_MetaSlice sf)
     \<and> 32 dvd length (sf_MetaSlice sf)
     \<and> sf_MetaSet sf = fset_of_list (parse_metafile (sf_MetaSlice sf))
     \<and> (\<forall>h. h |\<in>| sf_MetaSet sf \<longrightarrow> (\<exists>d.
          node_at fs (SharedFilesChunksPath fs @ [sf_Name sf, GetChunkFileName h]) = Some (Data d)
          \<and> Sum256 H d = h))"

lemma sf_okD:
  assumes "sf_ok H fs sf"
  shows "plain_name (sf_Name sf)" "sf_MetaHash sf = Sum256 H (sf_MetaSlice sf)"
    "sf_MetaSet sf = fset_of_list (parse_metafile (sf_MetaSlice sf))"
  using assms by (simp_all add: sf_ok_def)

lemma sf_ok_chunk:
  assumes "sf_ok H fs sf" "h |\<in>| sf_MetaSet sf"
  obtains d where "node_at fs (SharedFilesChunksPath fs @ [sf_Name sf, GetChunkFileName h]) = Some (Data d)"
    "Sum256 H d = h"
  using assms unfolding sf_ok_def by blast

lemma getChunk_hash:
  assumes "sf_ok H fs sf"
  shows "getChunk fs sf h = (if h |\<in>| sf_MetaSet sf
     then ReadFile fs (SharedFilesChunksPath fs @ [sf_Name sf, GetChunkFileName h]) else None)"
proof (cases "h |\<in>| sf_MetaSet sf")
  case True
  let ?p = "SharedFilesChunksPath fs @ [sf_Name sf, GetChunkFileName h]"
  have p: "Join (Join (SharedFilesChunksPath fs) (sf_Name sf)) (GetChunkFileName h) = ?p"
    using sf_okD(1) [OF assms] by simp
  obtain d where "node_at fs ?p = Some (Data d)" using sf_ok_chunk [OF assms True] .
  then have "\<not> IsNotExist fs ?p" by (rule not_IsNotExist)
  with True show ?thesis by (simp only: getChunk_def chunkBelongsToFile_def Let_def p) simp
qed (simp add: getChunk_def chunkBelongsToFile_def)

lemma getChunk_verifies:
  assumes "sf_ok H fs sf" "getChunk fs sf h = Some d" shows "Sum256 H d = h"
  using assms(2) sf_ok_chunk [OF assms(1), of h]
  by (auto simp: getChunk_hash [OF assms(1)] ReadFile_Some split: if_splits)

lemma getChunk_present:
  assumes "sf_ok H fs sf" "h |\<in>| sf_MetaSet sf" shows "\<exists>d. getChunk fs sf h = Some d"
  using sf_ok_chunk [OF assms] assms(2) by (metis getChunk_hash [OF assms(1)] ReadFile_Some)

section \<open>Storing the chunks\<close>

definition free_dir :: "filesystem \<Rightarrow> path \<Rightarrow> bool" where
  "free_dir fs p \<longleftrightarrow> node_at fs p = Some Dir \<and> (\<forall>c. node_at fs (p @ [c]) \<noteq> Some Dir)"

lemma free_dir_Write [simp]: "free_dir (WriteFile fs q d) p = free_dir fs p"
  by (simp add: free_dir_def)

lemma node_Write_free:
  "free_dir fs p \<Longrightarrow> node_at (WriteFile fs (p @ [c]) d) q = (if q = p @ [c] then Some (Data d) else node_at fs q)"
  by (auto simp: free_dir_def node_WriteFile)

text \<open>The chunk that the file of hash \<open>h\<close> holds after all chunks are written: the last one
  with this hash.\<close>

definition last_with :: "digest \<Rightarrow> byte list list \<Rightarrow> hash \<Rightarrow> byte list option" where
  "last_with H cs h = foldl (\<lambda>r c. if Sum256 H c = h then Some c else r) None cs"

lemma last_with_snoc: "last_with H (cs @ [c]) h = (if Sum256 H c = h then Some c else last_with H cs h)"
  by (simp add: last_with_def)

lemma last_with_Some: "last_with H cs h = Some c \<Longrightarrow> c \<in> set cs \<and> Sum256 H c = h"
  by (induction cs rule: rev_induct) (auto simp: last_with_snoc last_with_def split: if_splits)

lemma last_with_mem: "c \<in> set cs \<Longrightarrow> \<exists>d. last_with H cs (Sum256 H c) = Some d"
  by (induction cs rule: rev_induct) (auto simp: last_with_snoc)

lemma last_with_None: "last_with H cs h = None \<longleftrightarrow> h \<notin> Sum256 H ` set cs"
  by (induction cs rule: rev_induct) (auto simp: last_with_snoc last_with_def)

lemma store_chunk_eq:
  "store_chunk H p (fs, sl, st) c = (WriteFile fs (p @ [GetChunkFileName (Sum256 H c)]) c,
     sl @ Sum256 H c, finsert (Sum256 H c) st)"
  by (simp add: store_chunk_def Let_def)

lemma store_chunks:
  assumes "free_dir fs p" "foldl (store_chunk H p) (fs, [], {||}) cs = (fs', sl, st)"
  shows "sl = concat (map (Sum256 H) cs) \<and> st = fset_of_list (map (Sum256 H) cs) \<and> fs_cwd fs' = fs_cwd fs
     \<and> free_dir fs' p \<and> (fs_closed fs \<longrightarrow> fs_closed fs')
     \<and> (\<forall>h d. last_with H cs h = Some d \<longrightarrow> node_at fs' (p @ [GetChunkFileName h]) = Some (Data d))
     \<and> (\<forall>q. (\<forall>h d. last_with H cs h = Some d \<longrightarrow> q \<noteq> p @ [GetChunkFileName h]) \<longrightarrow> node_at fs' q = node_at fs q)"
  using assms(2)
proof (induction cs arbitrary: fs' sl st rule: rev_induct)
  case Nil
  then show ?case using assms(1) by (auto simp: last_with_def)
next
  case (snoc c cs)
  obtain fs1 sl1 st1 where f: "foldl (store_chunk H p) (fs, [], {||}) cs = (fs1, sl1, st1)"
    using prod_cases3 by blast
  note IH = snoc.IH [OF f]
  have e: "fs' = WriteFile fs1 (p @ [GetChunkFileName (Sum256 H c)]) c"
    "sl = sl1 @ Sum256 H c" "st = finsert (Sum256 H c) st1"
    using snoc.prems by (simp_all add: f store_chunk_eq)
  have w: "node_at fs' q = (if q = p @ [GetChunkFileName (Sum256 H c)] then Some (Data c) else node_at fs1 q)" for q
    unfolding e(1) using IH node_Write_free by blast
  have k: "Some d = last_with H (cs @ [c]) h \<longleftrightarrow>
      (if Sum256 H c = h then d = c else last_with H cs h = Some d)" for d h
    by (auto simp: last_with_snoc)
  show ?case
  proof (intro conjI allI impI)
    show "sl = concat (map (Sum256 H) (cs @ [c]))" "st = fset_of_list (map (Sum256 H) (cs @ [c]))"
      "fs_cwd fs' = fs_cwd fs" "free_dir fs' p"
      using e IH by (auto simp: fset_of_list_map)
    show "fs_closed fs'" if "fs_closed fs" using that e(1) IH by auto
  next
    fix h d assume "last_with H (cs @ [c]) h = Some d"
    then show "node_at fs' (p @ [GetChunkFileName h]) = Some (Data d)"
      unfolding w using IH by (auto simp: last_with_snoc split: if_splits)
  next
    fix q assume a: "\<forall>h d. last_with H (cs @ [c]) h = Some d \<longrightarrow> q \<noteq> p @ [GetChunkFileName h]"
    then have "q \<noteq> p @ [GetChunkFileName (Sum256 H c)]" by (metis last_with_snoc)
    moreover have "\<forall>h d. last_with H cs h = Some d \<longrightarrow> q \<noteq> p @ [GetChunkFileName h]"
      using a by (metis last_with_snoc)
    ultimately show "node_at fs' q = node_at fs q" unfolding w using IH by simp
  qed
qed

section \<open>What sharing does\<close>

definition shared_dirs :: "filesystem \<Rightarrow> bool" where
  "shared_dirs fs \<longleftrightarrow> fs_closed fs \<and> node_at fs (SharedFilesChunksPath fs) = Some Dir"

definition fs_extends :: "filesystem \<Rightarrow> filesystem \<Rightarrow> bool" where
  "fs_extends fs fs' \<longleftrightarrow> fs_cwd fs' = fs_cwd fs
     \<and> (\<forall>q n. node_at fs q = Some n \<longrightarrow> node_at fs' q = Some n)"

lemma fs_extends_refl [simp]: "fs_extends fs fs"
  by (simp add: fs_extends_def)

lemma fs_extends_trans: "fs_extends a b \<Longrightarrow> fs_extends b c \<Longrightarrow> fs_extends a c"
  unfolding fs_extends_def by simp

lemma fs_extendsD: "fs_extends fs fs' \<Longrightarrow> node_at fs q = Some n \<Longrightarrow> node_at fs' q = Some n"
  unfolding fs_extends_def by blast

lemma fs_extends_cwd: "fs_extends fs fs' \<Longrightarrow> fs_cwd fs' = fs_cwd fs"
  unfolding fs_extends_def by blast

lemma fs_extends_Mkdir: "fs_extends fs (Mkdir fs p)"
  using node_Mkdir_mono [of fs] by (simp add: fs_extends_def)

lemma sf_ok_extends:
  assumes "sf_ok H fs sf" "fs_extends fs fs'" shows "sf_ok H fs' sf"
proof -
  have c: "SharedFilesChunksPath fs' = SharedFilesChunksPath fs"
    using fs_extends_cwd [OF assms(2)] by simp
  show ?thesis
    using assms(1) fs_extendsD [OF assms(2)] unfolding sf_ok_def c by blast
qed

lemma Mkdir_free:
  assumes "fs_closed fs" "node_at fs p = None" "p \<noteq> []" "node_at fs (butlast p) = Some Dir"
  shows "free_dir (Mkdir fs p) p"
proof -
  have "node_at fs (p @ [c]) = None" for c
    using fs_closed_child [OF assms(1), of p c] assms(2) by simp
  then show ?thesis using assms by (simp add: free_dir_def node_Mkdir)
qed

lemma shared_dirs_stat: "shared_dirs fs \<Longrightarrow> \<not> IsNotExist fs (SharedFilesPath fs) \<and> \<not> IsNotExist fs (SharedFilesChunksPath fs)"
proof -
  assume s: "shared_dirs fs"
  then have d: "node_at fs (SharedFilesChunksPath fs) = Some Dir" by (simp add: shared_dirs_def)
  from s fs_closedD [OF _ d] have "node_at fs (SharedFilesPath fs) = Some Dir"
    by (simp add: shared_dirs_def butlast_append)
  with d show ?thesis using not_IsNotExist by metis
qed

text \<open>The file system and the file after a successful run, in closed form.\<close>

lemma shareFile_cases:
  assumes "shared_dirs fs" "shareFile H fs path = Inr (fs', r)" "plain_name (Base path)"
  defines "cp \<equiv> SharedFilesChunksPath fs @ [Base path]"
  obtains
    (refused) "r = None" "fs' = fs"
  | (too_big) fileBytes where "r = None" "fs' = Mkdir fs cp" "node_at fs cp = None"
      "node_at fs path = Some (Data fileBytes)" "MaxFileSize < length fileBytes"
  | (shared) fileBytes fs1 sl st where "node_at fs cp = None" "node_at fs path = Some (Data fileBytes)"
      "length fileBytes \<le> MaxFileSize"
      "foldl (store_chunk H cp) (Mkdir fs cp, [], {||}) (blocks FileChunkSize fileBytes) = (fs1, sl, st)"
      "fs' = WriteFile fs1 (cp @ [GetMetafileName (Sum256 H sl)]) sl"
      "r = Some \<lparr>sf_Name = Base path, sf_Size = length fileBytes, sf_MetaHash = Sum256 H sl,
                 sf_MetaSlice = sl, sf_MetaSet = st\<rparr>"
proof -
  note d = shared_dirs_stat [OF assms(1)]
  have j: "Join (SharedFilesChunksPath fs) (Base path) = cp" "fs_closed fs"
    "node_at fs (SharedFilesChunksPath fs) = Some Dir"
    using assms(1,3) by (simp_all add: cp_def shared_dirs_def)
  have mf: "Join cp (hex_EncodeToString h @ ''.metafile'') = cp @ [GetMetafileName h]" for h
    using file_names_plain(3) [of h] by (simp add: GetMetafileName_def)
  show thesis
  proof (cases "os_Stat fs path")
    case (Inl e)
    then show thesis using assms(2) refused by (cases e) (auto simp: shareFile_def)
  next
    case (Inr n)
    show thesis
    proof (cases n)
      case Dir
      then show thesis using assms(2) Inr refused by (auto simp: shareFile_def)
    next
      case (Data bs)
      have n: "node_at fs path = Some (Data bs)"
        using Inr Data by (auto simp: os_Stat_def split: option.splits)
      have rd: "ReadFile (Mkdir fs cp) path = Some bs"
        using node_Mkdir_mono [OF n] by (simp add: ReadFile_Some)
      have run: "shareFile H fs path =
          (if \<not> IsNotExist fs cp then Inr (fs, None)
           else if MaxFileSize < length bs then Inr (Mkdir fs cp, None)
           else case foldl (store_chunk H cp) (Mkdir fs cp, [], {||}) (blocks FileChunkSize bs) of
             (fs1, sl, st) \<Rightarrow> Inr (WriteFile fs1 (cp @ [GetMetafileName (Sum256 H sl)]) sl,
               Some \<lparr>sf_Name = Base path, sf_Size = length bs, sf_MetaHash = Sum256 H sl,
                 sf_MetaSlice = sl, sf_MetaSet = st\<rparr>))"
        using d j(1) rd by (simp add: shareFile_def Inr Data Let_def split_chunks_blocks mf
            del: paths_eq split: prod.splits)
      show thesis
      proof (cases "IsNotExist fs cp")
        case False
        then show thesis using assms(2) run refused by simp
      next
        case True
        note ne = IsNotExist_node [OF True]
        obtain fs1 sl st where
          f: "foldl (store_chunk H cp) (Mkdir fs cp, [], {||}) (blocks FileChunkSize bs) = (fs1, sl, st)"
          using prod_cases3 by blast
        show thesis
        proof (cases "MaxFileSize < length bs")
          case big: True
          show thesis by (rule too_big [OF _ _ ne n big]) (use assms(2) run True big in auto)
        next
          case False
          show thesis
            by (rule shared [OF ne n _ f]) (use assms(2) run True False f in auto)
        qed
      qed
    qed
  qed
qed

lemma shareFile_frame:
  assumes "shared_dirs fs" "shareFile H fs path = Inr (fs', r)" "plain_name (Base path)"
  shows "fs_extends fs fs' \<and> shared_dirs fs'"
proof -
  let ?cp = "SharedFilesChunksPath fs @ [Base path]"
  have cl: "fs_closed fs" and dir: "node_at fs (SharedFilesChunksPath fs) = Some Dir"
    using assms(1) by (simp_all add: shared_dirs_def)
  have ext: "shared_dirs fs'" if "fs_extends fs fs'" "fs_closed fs'"
  proof -
    have "SharedFilesChunksPath fs' = SharedFilesChunksPath fs" using fs_extends_cwd [OF that(1)] by simp
    then show ?thesis using fs_extendsD [OF that(1) dir] that(2) by (simp only: shared_dirs_def)
  qed
  from assms show ?thesis
  proof (cases rule: shareFile_cases)
    case refused
    then show ?thesis using assms(1) by simp
  next
    case (too_big bs)
    then show ?thesis using fs_extends_Mkdir [of fs ?cp] ext cl by auto
  next
    case (shared bs fs1 sl st)
    have fr: "free_dir (Mkdir fs ?cp) ?cp"
      by (rule Mkdir_free [OF cl shared(1)]) (use dir in \<open>simp_all add: butlast_append\<close>)
    note S = store_chunks [OF fr shared(4)]
    have out: "node_at fs' q = node_at (Mkdir fs ?cp) q" if "butlast q \<noteq> ?cp" for q
    proof -
      have ne: "q \<noteq> ?cp @ [x]" for x using that by (metis butlast_snoc)
      then have "node_at fs' q = node_at fs1 q" unfolding shared(5) node_WriteFile by simp
      also have "\<dots> = node_at (Mkdir fs ?cp) q" using S ne by blast
      finally show ?thesis .
    qed
    have new: "butlast q \<noteq> ?cp" if "node_at fs q = Some n" for q n
    proof
      assume b: "butlast q = ?cp"
      then have "q \<noteq> []" by auto
      from fs_closedD [OF cl that this] b shared(1) show False by simp
    qed
    have "fs_extends fs fs'"
      unfolding fs_extends_def
    proof (intro conjI allI impI)
      show "fs_cwd fs' = fs_cwd fs" using S unfolding shared(5) by simp
      fix q n assume "node_at fs q = Some n"
      then show "node_at fs' q = Some n" using out new node_Mkdir_mono by metis
    qed
    moreover have "fs_closed fs'" unfolding shared(5) using S cl by auto
    ultimately show ?thesis using ext by blast
  qed
qed

text \<open>A shared file: its metafile lists the hashes of the chunks in order, and the file of a
  chunk holds the last chunk with the same hash.\<close>

lemma shareFile_content:
  assumes "shared_dirs fs" "shareFile H fs path = Inr (fs', Some sf)" "plain_name (Base path)"
  obtains fileBytes where "node_at fs path = Some (Data fileBytes)" "length fileBytes \<le> MaxFileSize"
    "sf_Name sf = Base path" "sf_Size sf = length fileBytes"
    "sf_MetaSlice sf = concat (map (Sum256 H) (blocks FileChunkSize fileBytes))"
    "sf_MetaHash sf = Sum256 H (sf_MetaSlice sf)"
    "sf_MetaSet sf = fset_of_list (map (Sum256 H) (blocks FileChunkSize fileBytes))"
    "\<And>h d. last_with H (blocks FileChunkSize fileBytes) h = Some d \<Longrightarrow>
       node_at fs' (SharedFilesChunksPath fs @ [Base path, GetChunkFileName h]) = Some (Data d)"
proof -
  let ?cp = "SharedFilesChunksPath fs @ [Base path]"
  have cl: "fs_closed fs" and dir: "node_at fs (SharedFilesChunksPath fs) = Some Dir"
    using assms(1) by (simp_all add: shared_dirs_def)
  from assms show thesis
  proof (cases rule: shareFile_cases)
    case (shared bs fs1 sl st)
    have fr: "free_dir (Mkdir fs ?cp) ?cp"
      by (rule Mkdir_free [OF cl shared(1)]) (use dir in \<open>simp_all add: butlast_append\<close>)
    note S = store_chunks [OF fr shared(4)]
    have f: "node_at fs' (SharedFilesChunksPath fs @ [Base path, GetChunkFileName h]) = Some (Data d)"
      if "last_with H (blocks FileChunkSize bs) h = Some d" for h d
    proof -
      have "node_at fs1 (?cp @ [GetChunkFileName h]) = Some (Data d)" using S that by blast
      then show ?thesis unfolding shared(5) by (simp add: node_WriteFile)
    qed
    show thesis
      by (rule that [OF shared(2,3) _ _ _ _ _ f]) (use shared(6) S in simp_all)
  qed auto
qed

lemma shareFile_ok:
  assumes "shared_dirs fs" "shareFile H fs path = Inr (fs', Some sf)" "plain_name (Base path)"
  shows "sf_ok H fs' sf"
proof -
  from shareFile_content [OF assms] obtain bs where
    c: "sf_Name sf = Base path" "sf_MetaSlice sf = concat (map (Sum256 H) (blocks FileChunkSize bs))"
      "sf_MetaHash sf = Sum256 H (sf_MetaSlice sf)"
      "sf_MetaSet sf = fset_of_list (map (Sum256 H) (blocks FileChunkSize bs))"
      "\<And>h d. last_with H (blocks FileChunkSize bs) h = Some d \<Longrightarrow>
       node_at fs' (SharedFilesChunksPath fs @ [Base path, GetChunkFileName h]) = Some (Data d)"
    by metis
  have "fs_cwd fs' = fs_cwd fs"
    using shareFile_frame [OF assms] fs_extends_cwd by blast
  then have p: "SharedFilesChunksPath fs' = SharedFilesChunksPath fs" by simp
  have m: "parse_metafile (sf_MetaSlice sf) = map (Sum256 H) (blocks FileChunkSize bs)"
    unfolding c(2) by (rule parse_metafile_concat) auto
  have l: "length (concat (map (Sum256 H) cs)) = 32 * length cs" for cs :: "byte list list"
    by (induction cs) auto
  have "\<exists>d. node_at fs' (SharedFilesChunksPath fs @ [Base path, GetChunkFileName h]) = Some (Data d) \<and> Sum256 H d = h"
    if "h |\<in>| sf_MetaSet sf" for h
  proof -
    from that obtain x where "x \<in> set (blocks FileChunkSize bs)" "h = Sum256 H x"
      by (auto simp: c(4) fset_of_list_elem)
    with last_with_mem obtain d where "last_with H (blocks FileChunkSize bs) h = Some d" by metis
    with c(5) last_with_Some show ?thesis by metis
  qed
  then show ?thesis
    unfolding sf_ok_def p using assms(3) c(1,3,4) m l c(2) by simp
qed

end
