(* ===== verification/SharedFilesManager.thy ===== *)
theory SharedFilesManager
  imports SharedFile
begin

text \<open>
  The files this gossiper shares (\<open>models/filesharing/SharedFilesManager.go\<close>): a map from
  metafile hashes to shared files, beside the file system that holds the chunks. Every
  method runs under the manager's mutex. The iteration orders of the map are arguments.
\<close>

record SharedFilesManager =
  sfm_sharedFiles :: "(hash, sharedFile) fmap"

definition InitSharedFilesManager :: "filesystem \<Rightarrow> filesystem \<times> SharedFilesManager" where
  "InitSharedFilesManager fs =
    (let fs = (if \<not> IsNotExist fs (SharedFilesChunksPath fs) then RemoveAll fs (SharedFilesChunksPath fs) else fs);
         fs = (if IsNotExist fs (SharedFilesPath fs) then Mkdir fs (SharedFilesPath fs) else fs);
         fs = Mkdir fs (SharedFilesChunksPath fs)
     in (fs, \<lparr>sfm_sharedFiles = fmempty\<rparr>))"

text \<open>The path is relative to \<open>_SharedFiles\<close>. The loop over the shared files only logs.\<close>

definition ShareFile :: "digest \<Rightarrow> filesystem \<Rightarrow> SharedFilesManager \<Rightarrow> string
    \<Rightarrow> (filesystem \<times> SharedFilesManager \<times> (string \<times> hash \<times> nat) option) go" where
  "ShareFile H fs sfm path =
     go_map (\<lambda>(fs, r). case r of
         None \<Rightarrow> (fs, sfm, None)
       | Some sf \<Rightarrow>
           if has_key (sfm_sharedFiles sfm) (sf_MetaHash sf) then (fs, sfm, None)
           else (fs, sfm\<lparr>sfm_sharedFiles := fmupd (sf_MetaHash sf) sf (sfm_sharedFiles sfm)\<rparr>,
                 Some (sf_Name sf, sf_MetaHash sf, sf_Size sf)))
       (shareFile H fs (Join (SharedFilesPath fs) path))"

fun find_shared_chunk :: "filesystem \<Rightarrow> SharedFilesManager \<Rightarrow> hash \<Rightarrow> hash list \<Rightarrow> byte list option" where
  "find_shared_chunk fs sfm h [] = None"
| "find_shared_chunk fs sfm h (k # ks) =
     (case fmlookup (sfm_sharedFiles sfm) k of
        None \<Rightarrow> find_shared_chunk fs sfm h ks
      | Some sf \<Rightarrow> if chunkBelongsToFile sf h then getChunk fs sf h else find_shared_chunk fs sfm h ks)"

definition sfm_GetChunkOrMetafile :: "hash list \<Rightarrow> filesystem \<Rightarrow> SharedFilesManager \<Rightarrow> byte list
    \<Rightarrow> byte list option" where
  "sfm_GetChunkOrMetafile ks fs sfm hashValue =
    (case GetTypeStrictHash hashValue of
       None \<Rightarrow> None
     | Some typedHashValue \<Rightarrow>
         (case fmlookup (sfm_sharedFiles sfm) typedHashValue of
            Some sf \<Rightarrow> Some (sf_MetaSlice sf)
          | None \<Rightarrow> find_shared_chunk fs sfm typedHashValue ks))"

definition sfm_GetSearchResults :: "matcher \<Rightarrow> hash list \<Rightarrow> SharedFilesManager \<Rightarrow> string list
    \<Rightarrow> SearchResult list" where
  "sfm_GetSearchResults re ks sfm keywords =
     concat (map (\<lambda>sf. sf_getSearchResults re sf keywords) (List.map_filter (fmlookup (sfm_sharedFiles sfm)) ks))"

definition GetSharedFilesList :: "hash list \<Rightarrow> SharedFilesManager \<Rightarrow> string list" where
  "GetSharedFilesList ks sfm = sort_Strings
     (map (\<lambda>sf. sf_Name sf @ '' - '' @ hex_EncodeToString (sf_MetaHash sf))
       (List.map_filter (fmlookup (sfm_sharedFiles sfm)) ks))"

section \<open>Invariant\<close>

definition clean_path :: "path \<Rightarrow> bool" where
  "clean_path p \<longleftrightarrow> list_all plain_name p"

definition sfm_inv :: "digest \<Rightarrow> filesystem \<Rightarrow> SharedFilesManager \<Rightarrow> bool" where
  "sfm_inv H fs sfm \<longleftrightarrow> shared_dirs fs \<and> clean_path (fs_cwd fs)
     \<and> (\<forall>k sf. fmlookup (sfm_sharedFiles sfm) k = Some sf \<longrightarrow> sf_MetaHash sf = k \<and> sf_ok H fs sf)"

lemma sfm_invD:
  assumes "sfm_inv H fs sfm"
  shows "shared_dirs fs" "clean_path (fs_cwd fs)"
    "fmlookup (sfm_sharedFiles sfm) k = Some sf \<Longrightarrow> sf_MetaHash sf = k"
    "fmlookup (sfm_sharedFiles sfm) k = Some sf \<Longrightarrow> sf_ok H fs sf"
  using assms unfolding sfm_inv_def by blast+

lemma Split_no_sep: "w \<in> set (strings_Split s c) \<Longrightarrow> c \<notin> set w"
  by (induction s arbitrary: w) (auto split: if_splits list.splits)

lemma foldl_path_step_clean:
  "clean_path p \<Longrightarrow> \<forall>w \<in> set ws. CHR ''/'' \<notin> set w \<Longrightarrow> clean_path (foldl path_step p ws)"
proof (induction ws arbitrary: p)
  case (Cons w ws)
  have "clean_path (path_step p w)"
    using Cons.prems by (auto simp: clean_path_def path_step_def plain_name_def list_all_iff dest: in_set_butlastD)
  with Cons show ?case by simp
qed simp

lemma Join_clean: "clean_path p \<Longrightarrow> clean_path (Join p s)"
  unfolding Join_def using foldl_path_step_clean Split_no_sep by blast

lemma Base_plain: "clean_path p \<Longrightarrow> p \<noteq> [] \<Longrightarrow> plain_name (Base p)"
  by (simp add: clean_path_def Base_def list_all_iff)

lemma shareFile_root: "fs_closed fs \<Longrightarrow> shareFile H fs [] = Inr (fs, None)"
  by (simp add: shareFile_def os_Stat_def fs_closed_root)

lemma clean_append [simp]: "clean_path (p @ q) \<longleftrightarrow> clean_path p \<and> clean_path q"
  by (simp add: clean_path_def)

lemma clean_dirs [simp]: "clean_path [''_SharedFiles'']" "clean_path [''_Downloads'']"
  by (simp_all add: clean_path_def plain_name_def)

lemma shareFile_safe:
  assumes "sfm_inv H fs sfm" "shareFile H fs (Join (SharedFilesPath fs) p) = Inr (fs', r)"
  shows "fs_extends fs fs' \<and> shared_dirs fs' \<and> (\<forall>sf. r = Some sf \<longrightarrow> sf_ok H fs' sf)"
proof -
  let ?path = "Join (SharedFilesPath fs) p"
  note s = sfm_invD(1,2) [OF assms(1)]
  have c: "clean_path ?path" using s(2) by (simp add: Join_clean)
  show ?thesis
  proof (cases "?path = []")
    case True
    then have "shareFile H fs ?path = Inr (fs, None)"
      using shareFile_root s(1) by (metis shared_dirs_def)
    then show ?thesis using assms(2) s(1) by simp
  next
    case False
    from Base_plain [OF c False] have b: "plain_name (Base ?path)" .
    show ?thesis using shareFile_frame [OF s(1) assms(2) b] shareFile_ok [OF s(1) _ b] assms(2) by blast
  qed
qed

lemma sfm_inv_extends:
  assumes "sfm_inv H fs sfm" "fs_extends fs fs'" "fs_closed fs'"
  shows "sfm_inv H fs' sfm"
proof -
  have c: "SharedFilesChunksPath fs' = SharedFilesChunksPath fs" "fs_cwd fs' = fs_cwd fs"
    using fs_extends_cwd [OF assms(2)] by simp_all
  have "node_at fs (SharedFilesChunksPath fs) = Some Dir"
    using sfm_invD(1) [OF assms(1)] by (simp add: shared_dirs_def)
  from fs_extendsD [OF assms(2) this] have "shared_dirs fs'"
    using assms(3) c by (simp add: shared_dirs_def)
  then show ?thesis
    using assms(1) sf_ok_extends [OF _ assms(2)] unfolding sfm_inv_def c by blast
qed

lemma ShareFile_inv:
  assumes "sfm_inv H fs sfm" "ShareFile H fs sfm p = Inr (fs', sfm', r)"
  shows "sfm_inv H fs' sfm' \<and> fs_extends fs fs'"
proof -
  from assms(2) obtain r0 where s: "shareFile H fs (Join (SharedFilesPath fs) p) = Inr (fs', r0)"
    and r: "sfm' = sfm \<or> (\<exists>sf. r0 = Some sf
       \<and> sfm' = sfm\<lparr>sfm_sharedFiles := fmupd (sf_MetaHash sf) sf (sfm_sharedFiles sfm)\<rparr>)"
    by (auto simp: ShareFile_def split: option.splits if_splits)
  from shareFile_safe [OF assms(1) s] have f: "fs_extends fs fs'" "shared_dirs fs'"
    "\<forall>sf. r0 = Some sf \<longrightarrow> sf_ok H fs' sf" by auto
  have i: "sfm_inv H fs' sfm"
    by (rule sfm_inv_extends [OF assms(1) f(1)]) (use f(2) in \<open>simp add: shared_dirs_def\<close>)
  from r show ?thesis
  proof
    assume "\<exists>sf. r0 = Some sf \<and> sfm' = sfm\<lparr>sfm_sharedFiles := fmupd (sf_MetaHash sf) sf (sfm_sharedFiles sfm)\<rparr>"
    then obtain sf where "r0 = Some sf"
      "sfm' = sfm\<lparr>sfm_sharedFiles := fmupd (sf_MetaHash sf) sf (sfm_sharedFiles sfm)\<rparr>" by blast
    then show ?thesis using i f by (auto simp: sfm_inv_def)
  qed (use i f in simp)
qed

lemma Init_shared:
  assumes "fs_closed fs" "clean_path (fs_cwd fs)" "node_at fs (fs_cwd fs) = Some Dir"
    and "\<And>d. node_at fs (SharedFilesPath fs) \<noteq> Some (Data d)"
    and "InitSharedFilesManager fs = (fs', sfm)"
  shows "sfm_inv H fs' sfm \<and> sfm_sharedFiles sfm = fmempty \<and> fs_cwd fs' = fs_cwd fs
    \<and> (\<forall>q. outside (SharedFilesPath fs) q \<longrightarrow> node_at fs' q = node_at fs q)"
proof -
  let ?S = "SharedFilesPath fs" and ?C = "SharedFilesChunksPath fs"
  define fs1 where "fs1 = (if \<not> IsNotExist fs ?C then RemoveAll fs ?C else fs)"
  define fs2 where "fs2 = (if IsNotExist fs1 ?S then Mkdir fs1 ?S else fs1)"
  have c: "fs_cwd fs1 = fs_cwd fs" "fs_cwd fs2 = fs_cwd fs" by (simp_all add: fs1_def fs2_def)
  have p: "SharedFilesPath fs1 = ?S" "SharedFilesChunksPath fs2 = ?C" using c by simp_all
  have "InitSharedFilesManager fs = (Mkdir fs2 ?C, \<lparr>sfm_sharedFiles = fmempty\<rparr>)"
    unfolding InitSharedFilesManager_def Let_def fs1_def [symmetric] p(1) fs2_def [symmetric] p(2) ..
  then have e: "fs' = Mkdir fs2 ?C" "sfm = \<lparr>sfm_sharedFiles = fmempty\<rparr>"
    using assms(5) by simp_all
  have "?S = fs_cwd fs @ [''_SharedFiles'']" "?C = ?S @ [''chunks'']" by simp_all
  from reset_dirs [OF assms(1,3) this assms(4) fs1_def fs2_def e(1)]
  show ?thesis using assms(2) e(2) by (auto simp: sfm_inv_def shared_dirs_def)
qed

section \<open>Answers\<close>

lemma find_shared_chunk_verifies:
  "sfm_inv H fs sfm \<Longrightarrow> find_shared_chunk fs sfm h ks = Some d \<Longrightarrow> Sum256 H d = h"
  by (induction ks) (auto split: option.splits if_splits dest: sfm_invD getChunk_verifies)

lemma sfm_answer_verifies:
  assumes "sfm_inv H fs sfm" "sfm_GetChunkOrMetafile ks fs sfm h = Some d"
  shows "Sum256 H d = h"
  using assms(2) sfm_invD(3,4) [OF assms(1)] find_shared_chunk_verifies [OF assms(1)] sf_okD(2)
  by (fastforce simp: sfm_GetChunkOrMetafile_def split: if_splits option.splits)

lemma find_shared_chunk_present:
  assumes "sfm_inv H fs sfm" "k \<in> set ks" "fmlookup (sfm_sharedFiles sfm) k = Some sf" "h |\<in>| sf_MetaSet sf"
  shows "\<exists>d. find_shared_chunk fs sfm h ks = Some d"
proof -
  have g: "\<exists>d. getChunk fs sf h = Some d"
    if "fmlookup (sfm_sharedFiles sfm) j = Some sf" "h |\<in>| sf_MetaSet sf" for j sf
    using getChunk_present [OF sfm_invD(4) [OF assms(1) that(1)] that(2)] .
  from assms(2) show ?thesis
    by (induction ks) (use assms(3,4) g in \<open>auto simp: chunkBelongsToFile_def split: option.splits\<close>)
qed

lemma GetChunk_present:
  assumes "sfm_inv H fs sfm" "range_order ks (sfm_sharedFiles sfm)"
    "fmlookup (sfm_sharedFiles sfm) k = Some sf" "h |\<in>| sf_MetaSet sf" "length h = 32"
  shows "\<exists>d. sfm_GetChunkOrMetafile ks fs sfm h = Some d"
proof -
  have "k \<in> set ks" using range_order_set [OF assms(2)] has_keyI [OF assms(3)] by blast
  from find_shared_chunk_present [OF assms(1) this assms(3,4)]
  show ?thesis using assms(5) by (auto simp: sfm_GetChunkOrMetafile_def split: option.splits)
qed

end
