(* ===== verification/DownloadingFile.thy ===== *)
theory DownloadingFile
  imports SharedFilesManager
begin

text \<open>
  One file being downloaded (\<open>models/filesharing/DownloadingFile.go\<close>). First the metafile is
  awaited, then the chunks whose hashes it lists, in any order; each reply is checked
  against its hash. When no chunk is missing the file is composed. Results of type
  \<open>*bool\<close> are options: \<open>None\<close> is \<open>nil\<close>, the error that makes the caller ask again.
\<close>

record downloadingFile =
  df_Name :: string
  df_MetaHash :: hash
  df_Metafile :: "byte list option"
  df_ChunksHashesSlice :: "hash list"
  df_ChunksHashesSet :: "hash fset"
  df_ChunksToDownload :: "hash fset"

definition initDownloadingFile :: "string \<Rightarrow> hash \<Rightarrow> downloadingFile" where
  "initDownloadingFile name metahash = \<lparr>df_Name = name, df_MetaHash = metahash, df_Metafile = None,
     df_ChunksHashesSlice = [], df_ChunksHashesSet = {||}, df_ChunksToDownload = {||}\<rparr>"

definition fileHasDownloadedChunk :: "downloadingFile \<Rightarrow> hash \<Rightarrow> bool" where
  "fileHasDownloadedChunk df hashValue =
    (if df_Metafile df = None then False
     else df_MetaHash df = hashValue
        \<or> (hashValue |\<in>| df_ChunksHashesSet df \<and> \<not> hashValue |\<in>| df_ChunksToDownload df))"

definition df_chunkPath :: "filesystem \<Rightarrow> downloadingFile \<Rightarrow> hash \<Rightarrow> path" where
  "df_chunkPath fs df h = Join (Join (DownloadsChunksPath fs) (df_Name df)) (GetChunkFileName h)"

definition df_getChunkOrMetafile :: "filesystem \<Rightarrow> downloadingFile \<Rightarrow> hash \<Rightarrow> byte list option" where
  "df_getChunkOrMetafile fs df hashValue =
    (if hashValue = df_MetaHash df then df_Metafile df
     else if fileHasDownloadedChunk df hashValue then
       (if IsNotExist fs (df_chunkPath fs df hashValue) then None
        else ReadFile fs (df_chunkPath fs df hashValue))
     else None)"

definition gotMetafile :: "filesystem \<Rightarrow> downloadingFile \<Rightarrow> hash \<Rightarrow> byte list
    \<Rightarrow> filesystem \<times> downloadingFile \<times> bool" where
  "gotMetafile fs df hashValue metafile =
    (if length metafile mod 32 \<noteq> 0 \<or> hashValue \<noteq> df_MetaHash df then (fs, df, False)
     else
       let df = df\<lparr>df_Metafile := Some metafile,
                   df_ChunksHashesSlice := parse_metafile metafile,
                   df_ChunksHashesSet := fset_of_list (parse_metafile metafile),
                   df_ChunksToDownload := fset_of_list (parse_metafile metafile)\<rparr>;
           fs = (if IsNotExist fs (DownloadsPath fs) then Mkdir fs (DownloadsPath fs) else fs);
           fs = (if IsNotExist fs (DownloadsChunksPath fs) then Mkdir fs (DownloadsChunksPath fs) else fs);
           fileChunksPath = Join (DownloadsChunksPath fs) (df_Name df)
       in if \<not> IsNotExist fs fileChunksPath then (fs, df, False)
       else
         let fs = Mkdir fs fileChunksPath;
             fs = WriteFile fs (Join fileChunksPath (GetMetafileName (df_MetaHash df))) metafile
         in (fs, df, True))"

fun compose_chunks :: "filesystem \<Rightarrow> downloadingFile \<Rightarrow> byte list \<Rightarrow> hash list \<Rightarrow> byte list option" where
  "compose_chunks fs df fileBytes [] = Some fileBytes"
| "compose_chunks fs df fileBytes (chunkHash # hs) =
     (if IsNotExist fs (df_chunkPath fs df chunkHash) then None
      else case ReadFile fs (df_chunkPath fs df chunkHash) of
        None \<Rightarrow> None
      | Some chunkBytes \<Rightarrow> compose_chunks fs df (fileBytes @ chunkBytes) hs)"

definition finishDownloading :: "filesystem \<Rightarrow> downloadingFile \<Rightarrow> filesystem" where
  "finishDownloading fs df =
    (case compose_chunks fs df [] (df_ChunksHashesSlice df) of
       None \<Rightarrow> fs
     | Some fileBytes \<Rightarrow>
         let p = Join (DownloadsPath fs) (df_Name df);
             fs = (if \<not> IsNotExist fs p then os_Remove fs p else fs)
         in WriteFile fs p fileBytes)"

definition df_processDataReply :: "digest \<Rightarrow> filesystem \<Rightarrow> downloadingFile \<Rightarrow> DataReply
    \<Rightarrow> filesystem \<times> downloadingFile \<times> bool option" where
  "df_processDataReply H fs df drpmsg =
    (case GetTypeStrictHash (dp_HashValue drpmsg) of
       None \<Rightarrow> (fs, df, None)
     | Some typedHashValue \<Rightarrow>
       let data = dp_Data drpmsg in
       if Sum256 H data \<noteq> typedHashValue then (fs, df, None)
       else if df_Metafile df = None then
         (case gotMetafile fs df typedHashValue data of
            (fs, df, ok) \<Rightarrow> (fs, df, if ok then Some False else None))
       else if \<not> typedHashValue |\<in>| df_ChunksToDownload df then (fs, df, Some False)
       else
         let df = df\<lparr>df_ChunksToDownload := df_ChunksToDownload df |-| {|typedHashValue|}\<rparr>;
             fs = WriteFile fs (df_chunkPath fs df typedHashValue) data
         in if df_ChunksToDownload df = {||} then (finishDownloading fs df, df, Some True)
            else (fs, df, Some False))"

text \<open>The key that \<open>range\<close> visits first; \<open>ks\<close> is the order.\<close>

definition getDataRequest :: "hash list \<Rightarrow> hash option" where
  "getDataRequest ks = (case ks of [] \<Rightarrow> None | k # _ \<Rightarrow> Some k)"

definition df_getSearchResults :: "matcher \<Rightarrow> downloadingFile \<Rightarrow> string list \<Rightarrow> SearchResult list" where
  "df_getSearchResults re df keywords =
    map (\<lambda>kw. \<lparr>sr_FileName = df_Name df, sr_MetafileHash = df_MetaHash df,
               sr_ChunkMap = map (\<lambda>i. word_of_nat (i + 1))
                 (filter (\<lambda>i. \<not> df_ChunksHashesSlice df ! i |\<in>| df_ChunksToDownload df)
                   [0..<length (df_ChunksHashesSlice df)]),
               sr_ChunkCount = word_of_nat (length (df_ChunksHashesSlice df))\<rparr>)
      (filter (\<lambda>kw. matches re kw (df_Name df)) keywords)"

section \<open>Invariant\<close>

text \<open>The layout of the downloads directory: a directory per file, with files in it.\<close>

definition downloads_dirs :: "filesystem \<Rightarrow> bool" where
  "downloads_dirs fs \<longleftrightarrow> fs_closed fs \<and> node_at fs (DownloadsChunksPath fs) = Some Dir
     \<and> (\<forall>c d. node_at fs (DownloadsChunksPath fs @ [c]) \<noteq> Some (Data d))
     \<and> (\<forall>c f. node_at fs (DownloadsChunksPath fs @ [c, f]) \<noteq> Some Dir)"

definition download_name :: "string \<Rightarrow> bool" where
  "download_name n \<longleftrightarrow> plain_name n \<and> n \<noteq> ''chunks''"

definition df_ok :: "digest \<Rightarrow> filesystem \<Rightarrow> downloadingFile \<Rightarrow> bool" where
  "df_ok H fs df \<longleftrightarrow> download_name (df_Name df) \<and>
     (case df_Metafile df of
        None \<Rightarrow> df_ChunksHashesSlice df = [] \<and> df_ChunksHashesSet df = {||} \<and> df_ChunksToDownload df = {||}
      | Some mf \<Rightarrow> df_MetaHash df = Sum256 H mf \<and> 32 dvd length mf
          \<and> df_ChunksHashesSlice df = parse_metafile mf
          \<and> df_ChunksHashesSet df = fset_of_list (parse_metafile mf)
          \<and> df_ChunksToDownload df |\<subseteq>| df_ChunksHashesSet df
          \<and> node_at fs (DownloadsChunksPath fs @ [df_Name df]) = Some Dir
          \<and> (\<forall>h. h |\<in>| df_ChunksHashesSet df \<and> \<not> h |\<in>| df_ChunksToDownload df \<longrightarrow>
               (\<exists>d. node_at fs (DownloadsChunksPath fs @ [df_Name df, GetChunkFileName h]) = Some (Data d)
                  \<and> Sum256 H d = h)))"

text \<open>What the operations leave of the files that were there: all but composed files, and a
  chunk is only replaced by data with the same hash.\<close>

definition dl_extends :: "digest \<Rightarrow> filesystem \<Rightarrow> filesystem \<Rightarrow> bool" where
  "dl_extends H fs fs' \<longleftrightarrow> fs_cwd fs' = fs_cwd fs \<and>
     (\<forall>q n. node_at fs q = Some n \<longrightarrow> node_at fs' q = Some n
        \<or> (\<exists>c. c \<noteq> ''chunks'' \<and> q = DownloadsPath fs @ [c])
        \<or> (\<exists>c h d. q = DownloadsChunksPath fs @ [c, GetChunkFileName h]
             \<and> node_at fs' q = Some (Data d) \<and> Sum256 H d = h))"

lemma dl_extends_refl [simp]: "dl_extends H fs fs"
  by (simp add: dl_extends_def)

lemma dl_extends_cwd: "dl_extends H fs fs' \<Longrightarrow> fs_cwd fs' = fs_cwd fs"
  by (simp add: dl_extends_def)

lemma dl_extendsD:
  assumes "dl_extends H fs fs'" "node_at fs q = Some n"
  shows "node_at fs' q = Some n \<or> (\<exists>c. c \<noteq> ''chunks'' \<and> q = DownloadsPath fs @ [c])
     \<or> (\<exists>c h d. q = DownloadsChunksPath fs @ [c, GetChunkFileName h]
             \<and> node_at fs' q = Some (Data d) \<and> Sum256 H d = h)"
  using assms unfolding dl_extends_def by blast

lemma fs_extends_dl: "fs_extends fs fs' \<Longrightarrow> dl_extends H fs fs'"
  unfolding fs_extends_def dl_extends_def by blast

lemma dl_extends_chunk:
  assumes "dl_extends H fs fs'"
    and "node_at fs (DownloadsChunksPath fs @ [c, GetChunkFileName h]) = Some (Data d)" "Sum256 H d = h"
  shows "\<exists>d. node_at fs' (DownloadsChunksPath fs' @ [c, GetChunkFileName h]) = Some (Data d) \<and> Sum256 H d = h"
proof -
  have p: "DownloadsChunksPath fs' = DownloadsChunksPath fs" using dl_extends_cwd [OF assms(1)] by simp
  from dl_extendsD [OF assms(1,2)] show ?thesis
    unfolding p using assms(3) by (elim disjE exE conjE) auto
qed

lemma dl_extends_dir:
  assumes "dl_extends H fs fs'" "node_at fs (DownloadsChunksPath fs @ [c]) = Some Dir"
  shows "node_at fs' (DownloadsChunksPath fs' @ [c]) = Some Dir"
proof -
  have p: "DownloadsChunksPath fs' = DownloadsChunksPath fs" using dl_extends_cwd [OF assms(1)] by simp
  from dl_extendsD [OF assms] show ?thesis unfolding p by auto
qed

lemma df_ok_extends:
  assumes "df_ok H fs df" "dl_extends H fs fs'" shows "df_ok H fs' df"
proof (cases "df_Metafile df")
  case None
  then show ?thesis using assms(1) by (simp add: df_ok_def)
next
  case (Some mf)
  then have a: "download_name (df_Name df)" "df_MetaHash df = Sum256 H mf" "32 dvd length mf"
    "df_ChunksHashesSlice df = parse_metafile mf" "df_ChunksHashesSet df = fset_of_list (parse_metafile mf)"
    "df_ChunksToDownload df |\<subseteq>| df_ChunksHashesSet df"
    "node_at fs (DownloadsChunksPath fs @ [df_Name df]) = Some Dir"
    "\<And>h. h |\<in>| df_ChunksHashesSet df \<Longrightarrow> \<not> h |\<in>| df_ChunksToDownload df \<Longrightarrow>
       \<exists>d. node_at fs (DownloadsChunksPath fs @ [df_Name df, GetChunkFileName h]) = Some (Data d) \<and> Sum256 H d = h"
    using assms(1) unfolding df_ok_def Some option.case by blast+
  have "\<exists>d. node_at fs' (DownloadsChunksPath fs' @ [df_Name df, GetChunkFileName h]) = Some (Data d) \<and> Sum256 H d = h"
    if "h |\<in>| df_ChunksHashesSet df" "\<not> h |\<in>| df_ChunksToDownload df" for h
    using a(8) [OF that] dl_extends_chunk [OF assms(2)] by blast
  with a(1-6) dl_extends_dir [OF assms(2) a(7)] Some show ?thesis
    unfolding df_ok_def by (simp del: paths_eq)
qed

lemma dl_extends_trans:
  assumes "dl_extends H a b" "dl_extends H b c" shows "dl_extends H a c"
  unfolding dl_extends_def
proof (intro conjI allI impI)
  have p: "fs_cwd b = fs_cwd a" "DownloadsChunksPath b = DownloadsChunksPath a" "DownloadsPath b = DownloadsPath a"
    using dl_extends_cwd [OF assms(1)] by simp_all
  show "fs_cwd c = fs_cwd a" using dl_extends_cwd [OF assms(2)] p by simp
  fix q n assume n: "node_at a q = Some n"
  from dl_extendsD [OF assms(1) n]
  show "node_at c q = Some n \<or> (\<exists>x. x \<noteq> ''chunks'' \<and> q = DownloadsPath a @ [x])
      \<or> (\<exists>x h d. q = DownloadsChunksPath a @ [x, GetChunkFileName h]
           \<and> node_at c q = Some (Data d) \<and> Sum256 H d = h)"
  proof (elim disjE exE conjE)
    assume "node_at b q = Some n"
    from dl_extendsD [OF assms(2) this] show ?thesis unfolding p .
  next
    fix x h d assume q: "q = DownloadsChunksPath a @ [x, GetChunkFileName h]"
      "node_at b q = Some (Data d)" "Sum256 H d = h"
    then have "node_at b (DownloadsChunksPath b @ [x, GetChunkFileName h]) = Some (Data d)" by (simp add: p)
    from dl_extends_chunk [OF assms(2) this q(3)] show ?thesis
      using q(1) p dl_extends_cwd [OF assms(2)] by auto
  qed blast
qed

section \<open>What the steps do to the files\<close>

lemma downloads_dirsD:
  assumes "downloads_dirs fs"
  shows "fs_closed fs" "node_at fs (DownloadsChunksPath fs) = Some Dir"
    "node_at fs (DownloadsChunksPath fs @ [c]) = Some n \<Longrightarrow> n = Dir"
    "node_at fs (DownloadsChunksPath fs @ [c, f]) = Some n \<Longrightarrow> \<exists>d. n = Data d"
    "node_at fs (DownloadsPath fs) = Some Dir"
proof -
  show "fs_closed fs" and d: "node_at fs (DownloadsChunksPath fs) = Some Dir"
    using assms unfolding downloads_dirs_def by blast+
  from fs_closedD [OF this] show "node_at fs (DownloadsPath fs) = Some Dir"
    by (simp add: butlast_append)
  show "node_at fs (DownloadsChunksPath fs @ [c]) = Some n \<Longrightarrow> n = Dir"
    using assms by (cases n) (auto simp: downloads_dirs_def)
  show "node_at fs (DownloadsChunksPath fs @ [c, f]) = Some n \<Longrightarrow> \<exists>d. n = Data d"
    using assms by (cases n) (auto simp: downloads_dirs_def)
qed

text \<open>Adding a directory for a file, with its metafile.\<close>

lemma mkdir_file:
  assumes "downloads_dirs fs" "node_at fs (DownloadsChunksPath fs @ [c]) = None"
    and "fs' = WriteFile (Mkdir fs (DownloadsChunksPath fs @ [c])) (DownloadsChunksPath fs @ [c, f]) d"
  shows "downloads_dirs fs' \<and> fs_extends fs fs' \<and> node_at fs' (DownloadsChunksPath fs @ [c]) = Some Dir"
proof -
  note D = downloads_dirsD [OF assms(1)]
  let ?m = "Mkdir fs (DownloadsChunksPath fs @ [c])"
  have e: "node_at ?m q = (if q = DownloadsChunksPath fs @ [c] then Some Dir else node_at fs q)" for q
    using D(2) assms(2) by (auto simp: node_Mkdir butlast_append)
  have n: "node_at fs (DownloadsChunksPath fs @ [c, x]) = None" for x
    using fs_closed_child [OF D(1), of "DownloadsChunksPath fs @ [c]" x] assms(2) by simp
  have w: "node_at fs' q = (if q = DownloadsChunksPath fs @ [c, f] then Some (Data d)
      else if q = DownloadsChunksPath fs @ [c] then Some Dir else node_at fs q)" for q
    using n [of f] unfolding assms(3) node_WriteFile e by (auto simp: butlast_append)
  have cw: "fs_cwd fs' = fs_cwd fs" by (simp add: assms(3))
  then have p: "DownloadsChunksPath fs' = DownloadsChunksPath fs" by simp
  have "fs_closed fs'" unfolding assms(3) using D(1) by auto
  moreover have "fs_extends fs fs'"
    using n [of f] assms(2) cw unfolding fs_extends_def w by auto
  ultimately show ?thesis
    using assms(1) unfolding downloads_dirs_def p w by auto
qed

text \<open>Writing a chunk.\<close>

lemma write_chunk:
  assumes "downloads_dirs fs" "node_at fs (DownloadsChunksPath fs @ [c]) = Some Dir"
    and "fs' = WriteFile fs (DownloadsChunksPath fs @ [c, GetChunkFileName (Sum256 H d)]) d"
  shows "downloads_dirs fs' \<and> dl_extends H fs fs'
    \<and> node_at fs' (DownloadsChunksPath fs @ [c, GetChunkFileName (Sum256 H d)]) = Some (Data d)"
proof -
  note D = downloads_dirsD [OF assms(1)]
  let ?q = "DownloadsChunksPath fs @ [c, GetChunkFileName (Sum256 H d)]"
  have nd: "node_at fs ?q \<noteq> Some Dir" using D(4) by fastforce
  have w: "node_at fs' q = (if q = ?q then Some (Data d) else node_at fs q)" for q
    unfolding assms(3) node_WriteFile using nd assms(2) by (auto simp: butlast_append)
  have cw: "fs_cwd fs' = fs_cwd fs" by (simp add: assms(3))
  then have p: "DownloadsChunksPath fs' = DownloadsChunksPath fs" by simp
  have "fs_closed fs'" unfolding assms(3) using D(1) by auto
  moreover have "dl_extends H fs fs'" unfolding dl_extends_def w using cw by auto
  ultimately show ?thesis
    using assms(1) unfolding downloads_dirs_def p w by auto
qed

text \<open>Writing the composed file.\<close>

lemma write_composed:
  assumes "downloads_dirs fs" "c \<noteq> ''chunks''"
    and "fs' = WriteFile (if \<not> IsNotExist fs (DownloadsPath fs @ [c]) then os_Remove fs (DownloadsPath fs @ [c]) else fs)
       (DownloadsPath fs @ [c]) d"
  shows "downloads_dirs fs' \<and> dl_extends H fs fs'
    \<and> (node_at fs (DownloadsPath fs @ [c]) \<noteq> Some Dir \<longrightarrow>
        node_at fs' (DownloadsPath fs @ [c]) = Some (Data d))
    \<and> (\<forall>q. q \<noteq> DownloadsPath fs @ [c] \<longrightarrow> node_at fs' q = node_at fs q)"
proof -
  note D = downloads_dirsD [OF assms(1)]
  let ?q = "DownloadsPath fs @ [c]"
  define fs1 where "fs1 = (if \<not> IsNotExist fs ?q then os_Remove fs ?q else fs)"
  have e: "fs' = WriteFile fs1 ?q d" using assms(3) by (simp add: fs1_def)
  have o: "node_at fs1 q = node_at fs q" if "q \<noteq> ?q" for q
    using node_Remove [of fs ?q q] that by (auto simp: fs1_def)
  then have w: "node_at fs' q = node_at fs q" if "q \<noteq> ?q" for q
    using that unfolding e node_WriteFile by auto
  have cw: "fs_cwd fs' = fs_cwd fs" by (simp add: e fs1_def)
  then have p: "DownloadsChunksPath fs' = DownloadsChunksPath fs" by simp
  have "fs_closed fs'" unfolding e fs1_def using D(1) by auto
  moreover have "dl_extends H fs fs'" unfolding dl_extends_def
    using cw w assms(2) by metis
  moreover have "node_at fs' ?q = Some (Data d)" if "node_at fs ?q \<noteq> Some Dir"
  proof -
    have "node_at fs1 (DownloadsPath fs) = Some Dir" using o [of "DownloadsPath fs"] D(5) by simp
    moreover have "node_at fs1 ?q \<noteq> Some Dir"
      using that node_Remove [of fs ?q ?q] by (auto simp: fs1_def)
    ultimately show ?thesis unfolding e node_WriteFile by (simp add: butlast_append)
  qed
  moreover have "DownloadsChunksPath fs \<noteq> ?q" "DownloadsChunksPath fs @ [x] \<noteq> ?q"
      "DownloadsChunksPath fs @ [x, y] \<noteq> ?q" for x y
    using assms(2) by auto
  ultimately show ?thesis
    using assms(1) w unfolding downloads_dirs_def p by metis
qed

section \<open>Replies\<close>

lemma chunkPath_plain: "download_name (df_Name df) \<Longrightarrow>
    df_chunkPath fs df h = DownloadsChunksPath fs @ [df_Name df, GetChunkFileName h]"
  by (simp add: df_chunkPath_def download_name_def)

lemma df_okD:
  assumes "df_ok H fs df" "df_Metafile df = Some mf"
  shows "df_MetaHash df = Sum256 H mf" "32 dvd length mf"
    "df_ChunksHashesSlice df = parse_metafile mf" "df_ChunksHashesSet df = fset_of_list (parse_metafile mf)"
    "df_ChunksToDownload df |\<subseteq>| df_ChunksHashesSet df"
    "node_at fs (DownloadsChunksPath fs @ [df_Name df]) = Some Dir"
    "h |\<in>| df_ChunksHashesSet df \<Longrightarrow> \<not> h |\<in>| df_ChunksToDownload df \<Longrightarrow>
       \<exists>d. node_at fs (DownloadsChunksPath fs @ [df_Name df, GetChunkFileName h]) = Some (Data d) \<and> Sum256 H d = h"
  using assms(1) unfolding df_ok_def assms(2) option.case by blast+

lemma df_ok_name: "df_ok H fs df \<Longrightarrow> download_name (df_Name df)"
  by (simp add: df_ok_def)

lemma df_ok_init: "download_name n \<Longrightarrow> df_ok H fs (initDownloadingFile n h)"
  by (simp add: df_ok_def initDownloadingFile_def)

lemma downloads_stat:
  assumes "downloads_dirs fs"
  shows "\<not> IsNotExist fs (DownloadsPath fs)" "\<not> IsNotExist fs (DownloadsChunksPath fs)"
  using not_IsNotExist downloads_dirsD(2,5) [OF assms] by blast+

text \<open>The three outcomes of a metafile.\<close>

definition with_metafile :: "downloadingFile \<Rightarrow> byte list \<Rightarrow> downloadingFile" where
  "with_metafile df mf = df\<lparr>df_Metafile := Some mf, df_ChunksHashesSlice := parse_metafile mf,
     df_ChunksHashesSet := fset_of_list (parse_metafile mf),
     df_ChunksToDownload := fset_of_list (parse_metafile mf)\<rparr>"

lemma with_metafile_sel [simp]:
  "df_Name (with_metafile df mf) = df_Name df" "df_MetaHash (with_metafile df mf) = df_MetaHash df"
  "df_Metafile (with_metafile df mf) = Some mf"
  "df_ChunksHashesSlice (with_metafile df mf) = parse_metafile mf"
  "df_ChunksHashesSet (with_metafile df mf) = fset_of_list (parse_metafile mf)"
  "df_ChunksToDownload (with_metafile df mf) = fset_of_list (parse_metafile mf)"
  by (simp_all add: with_metafile_def)

lemma gotMetafile_cases:
  assumes "downloads_dirs fs" "download_name (df_Name df)"
  defines "dir \<equiv> DownloadsChunksPath fs @ [df_Name df]"
  shows "gotMetafile fs df h mf =
    (if \<not> 32 dvd length mf \<or> h \<noteq> df_MetaHash df then (fs, df, False)
     else if node_at fs dir \<noteq> None then (fs, with_metafile df mf, False)
     else (WriteFile (Mkdir fs dir) (dir @ [GetMetafileName (df_MetaHash df)]) mf, with_metafile df mf, True))"
proof -
  have n: "IsNotExist fs dir \<longleftrightarrow> node_at fs dir = None"
    unfolding dir_def by (rule IsNotExist_in_dir [OF downloads_dirsD(1,2) [OF assms(1)]])
  have j: "Join (DownloadsChunksPath fs) (df_Name df) = dir"
    using assms(2) by (simp add: dir_def download_name_def)
  have k: "length mf mod 32 \<noteq> 0 \<longleftrightarrow> \<not> 32 dvd length mf" by (simp add: dvd_eq_mod_eq_0)
  have m: "Join dir (GetMetafileName x) = dir @ [GetMetafileName x]" for x by simp
  show ?thesis
    unfolding gotMetafile_def Let_def k downloads_stat [OF assms(1)] if_False downloads_stat [OF assms(1)]
    using n by (simp add: j m downloads_stat [OF assms(1)] with_metafile_def [symmetric] del: paths_eq)
qed

lemma gotMetafile_ok:
  assumes "downloads_dirs fs" "df_ok H fs df" "gotMetafile fs df (Sum256 H mf) mf = (fs', df', ok)"
    "df_Metafile df = None"
  shows "downloads_dirs fs' \<and> fs_extends fs fs' \<and> df_ok H fs' df' \<and> df_Name df' = df_Name df
    \<and> df_MetaHash df' = df_MetaHash df"
proof -
  let ?dir = "DownloadsChunksPath fs @ [df_Name df]"
  have nm: "download_name (df_Name df)" by (rule df_ok_name [OF assms(2)])
  note g = gotMetafile_cases [OF assms(1) nm, of "Sum256 H mf" mf]
  have ok1: "df_ok H x (with_metafile df mf)" if "32 dvd length mf" "Sum256 H mf = df_MetaHash df"
    "node_at x (DownloadsChunksPath x @ [df_Name df]) = Some Dir" for x
    using that nm by (simp add: df_ok_def del: paths_eq)
  show ?thesis
  proof (cases "\<not> 32 dvd length mf \<or> Sum256 H mf \<noteq> df_MetaHash df")
    case True
    then show ?thesis using assms g by auto
  next
    case False
    show ?thesis
    proof (cases "node_at fs ?dir")
      case (Some n)
      then have "node_at fs ?dir = Some Dir" using downloads_dirsD(3) [OF assms(1)] by blast
      then show ?thesis using False Some assms(1,3) g ok1 by auto
    next
      case None
      then have e: "fs' = WriteFile (Mkdir fs ?dir)
          (DownloadsChunksPath fs @ [df_Name df, GetMetafileName (df_MetaHash df)]) mf" "df' = (with_metafile df mf)"
        using False assms(3) g by auto
      note m = mkdir_file [OF assms(1) None e(1)]
      have "DownloadsChunksPath fs' = DownloadsChunksPath fs" by (simp add: e(1))
      then have "df_ok H fs' (with_metafile df mf)" by (intro ok1) (use m False in auto)
      with m show ?thesis unfolding e(2) by simp
    qed
  qed
qed

definition without_chunk :: "downloadingFile \<Rightarrow> hash \<Rightarrow> downloadingFile" where
  "without_chunk df h = df\<lparr>df_ChunksToDownload := df_ChunksToDownload df |-| {|h|}\<rparr>"

lemma without_chunk_sel [simp]:
  "df_Name (without_chunk df h) = df_Name df" "df_MetaHash (without_chunk df h) = df_MetaHash df"
  "df_Metafile (without_chunk df h) = df_Metafile df"
  "df_ChunksHashesSlice (without_chunk df h) = df_ChunksHashesSlice df"
  "df_ChunksHashesSet (without_chunk df h) = df_ChunksHashesSet df"
  "df_ChunksToDownload (without_chunk df h) = df_ChunksToDownload df |-| {|h|}"
  by (simp_all add: without_chunk_def)

definition valid_reply :: "digest \<Rightarrow> DataReply \<Rightarrow> bool" where
  "valid_reply H r \<longleftrightarrow> dp_HashValue r = Sum256 H (dp_Data r)"

lemma valid_reply_length: "valid_reply H r \<Longrightarrow> length (dp_HashValue r) = 32"
  by (simp add: valid_reply_def)

text \<open>The branches of a reply.\<close>

lemma reply_invalid: "\<not> valid_reply H r \<Longrightarrow> df_processDataReply H fs df r = (fs, df, None)"
  by (auto simp: df_processDataReply_def valid_reply_def Let_def)

lemma reply_metafile:
  "valid_reply H r \<Longrightarrow> df_Metafile df = None \<Longrightarrow> gotMetafile fs df (dp_HashValue r) (dp_Data r) = (fs', df', ok)
     \<Longrightarrow> df_processDataReply H fs df r = (fs', df', if ok then Some False else None)"
  by (simp add: df_processDataReply_def valid_reply_length Let_def) (simp add: valid_reply_def)

lemma reply_unwanted:
  "valid_reply H r \<Longrightarrow> df_Metafile df = Some mf \<Longrightarrow> \<not> dp_HashValue r |\<in>| df_ChunksToDownload df
     \<Longrightarrow> df_processDataReply H fs df r = (fs, df, Some False)"
  by (simp add: df_processDataReply_def valid_reply_length Let_def) (simp add: valid_reply_def)

lemma reply_wanted:
  assumes "valid_reply H r" "df_Metafile df = Some mf" "dp_HashValue r |\<in>| df_ChunksToDownload df"
    and "fs1 = WriteFile fs (df_chunkPath fs df (dp_HashValue r)) (dp_Data r)"
  shows "df_processDataReply H fs df r =
    (if df_ChunksToDownload df |\<subseteq>| {|dp_HashValue r|}
     then (finishDownloading fs1 (without_chunk df (dp_HashValue r)), without_chunk df (dp_HashValue r), Some True)
     else (fs1, without_chunk df (dp_HashValue r), Some False))"
proof -
  have c: "df_chunkPath fs (df\<lparr>df_ChunksToDownload := x\<rparr>) h = df_chunkPath fs df h" for x h
    by (simp add: df_chunkPath_def)
  have e: "df_ChunksToDownload df |-| {|h|} = {||} \<longleftrightarrow> df_ChunksToDownload df |\<subseteq>| {|h|}" for h by auto
  have l: "length (dp_HashValue r) = 32" "Sum256 H (dp_Data r) = dp_HashValue r"
    using assms(1) by (simp_all add: valid_reply_def)
  show ?thesis
    using assms(2,3) l unfolding assms(4)
    by (simp add: df_processDataReply_def Let_def c e without_chunk_def del: fminus_finsert)
qed

section \<open>Composing the file\<close>

lemma compose_chunks_read:
  assumes "\<And>h. h \<in> set hs \<Longrightarrow> node_at fs (df_chunkPath fs df h) = Some (Data (f h))"
  shows "compose_chunks fs df acc hs = Some (acc @ concat (map f hs))"
  using assms
proof (induction hs arbitrary: acc)
  case (Cons h hs)
  have "node_at fs (df_chunkPath fs df h) = Some (Data (f h))" using Cons.prems by simp
  then have "\<not> IsNotExist fs (df_chunkPath fs df h)" "ReadFile fs (df_chunkPath fs df h) = Some (f h)"
    using not_IsNotExist by (auto simp: ReadFile_Some)
  with Cons show ?case by simp
qed simp

text \<open>The composed file of a download: data whose hashes are those of the metafile, in order.\<close>

definition composed_of :: "digest \<Rightarrow> downloadingFile \<Rightarrow> byte list list \<Rightarrow> bool" where
  "composed_of H df ds \<longleftrightarrow> map (Sum256 H) ds = df_ChunksHashesSlice df"

lemma finish_with:
  assumes "downloads_dirs fs" "download_name (df_Name df)"
    and "\<And>h. h \<in> set (df_ChunksHashesSlice df) \<Longrightarrow> node_at fs (df_chunkPath fs df h) = Some (Data (f h))"
  defines "p \<equiv> DownloadsPath fs @ [df_Name df]"
  shows "downloads_dirs (finishDownloading fs df) \<and> dl_extends H fs (finishDownloading fs df)
    \<and> (node_at fs p \<noteq> Some Dir \<longrightarrow>
        node_at (finishDownloading fs df) p = Some (Data (concat (map f (df_ChunksHashesSlice df)))))
    \<and> (\<forall>q. q \<noteq> p \<longrightarrow> node_at (finishDownloading fs df) q = node_at fs q)"
proof -
  have c: "compose_chunks fs df [] (df_ChunksHashesSlice df) = Some (concat (map f (df_ChunksHashesSlice df)))"
    using compose_chunks_read [of "df_ChunksHashesSlice df" fs df f "[]"] assms(3) by simp
  have j: "Join (DownloadsPath fs) (df_Name df) = p" "df_Name df \<noteq> ''chunks''"
    using assms(2) by (simp_all add: download_name_def p_def)
  have "finishDownloading fs df = WriteFile (if \<not> IsNotExist fs p then os_Remove fs p else fs) p
      (concat (map f (df_ChunksHashesSlice df)))"
    by (simp only: finishDownloading_def c option.case Let_def j)
  from write_composed [OF assms(1) j(2) this [unfolded p_def], of H]
  show ?thesis unfolding p_def by (elim conjE) (intro conjI)
qed

lemma finish_composes:
  assumes "downloads_dirs fs" "df_ok H fs df" "df_Metafile df \<noteq> None" "df_ChunksToDownload df = {||}"
  shows "\<exists>ds. composed_of H df ds
    \<and> downloads_dirs (finishDownloading fs df) \<and> dl_extends H fs (finishDownloading fs df)
    \<and> (node_at fs (DownloadsPath fs @ [df_Name df]) \<noteq> Some Dir \<longrightarrow>
        node_at (finishDownloading fs df) (DownloadsPath fs @ [df_Name df]) = Some (Data (concat ds)))"
proof -
  obtain mf where mf: "df_Metafile df = Some mf" using assms(3) by blast
  note O = df_okD [OF assms(2) mf]
  have nm: "download_name (df_Name df)" by (rule df_ok_name [OF assms(2)])
  have "\<exists>d. node_at fs (df_chunkPath fs df h) = Some (Data d) \<and> Sum256 H d = h"
    if "h \<in> set (df_ChunksHashesSlice df)" for h
    using O(7) [of h] that O(3,4) assms(4) by (simp add: chunkPath_plain [OF nm] fset_of_list_elem del: paths_eq)
  then obtain f where f: "\<And>h. h \<in> set (df_ChunksHashesSlice df) \<Longrightarrow>
      node_at fs (df_chunkPath fs df h) = Some (Data (f h)) \<and> Sum256 H (f h) = h" by metis
  have "composed_of H df (map f (df_ChunksHashesSlice df))" using f by (auto simp: composed_of_def intro: map_idI)
  with finish_with [OF assms(1) nm, of f H] f show ?thesis by blast
qed

lemma reply_finished:
  assumes "downloads_dirs fs" "df_ok H fs df" "df_processDataReply H fs df r = (fs', df', Some True)"
    and "node_at fs (DownloadsPath fs @ [df_Name df]) \<noteq> Some Dir"
  shows "\<exists>mf ds. Sum256 H mf = df_MetaHash df \<and> 32 dvd length mf \<and> map (Sum256 H) ds = parse_metafile mf
    \<and> node_at fs' (DownloadsPath fs @ [df_Name df]) = Some (Data (concat ds))"
proof -
  have v: "valid_reply H r" using assms(3) reply_invalid by fastforce
  show ?thesis
  proof (cases "df_Metafile df")
    case None
    then show ?thesis using assms(3) reply_metafile [OF v None]
      by (cases "gotMetafile fs df (dp_HashValue r) (dp_Data r)") (auto split: if_splits)
  next
    case (Some mf)
    let ?h = "dp_HashValue r"
    have w: "?h |\<in>| df_ChunksToDownload df" using reply_unwanted [OF v Some] assms(3) by fastforce
    note O = df_okD [OF assms(2) Some]
    have nm: "download_name (df_Name df)" by (rule df_ok_name [OF assms(2)])
    define fs1 where "fs1 = WriteFile fs (df_chunkPath fs df ?h) (dp_Data r)"
    have e: "fs1 = WriteFile fs (DownloadsChunksPath fs @ [df_Name df, GetChunkFileName (Sum256 H (dp_Data r))]) (dp_Data r)"
      using v by (simp add: fs1_def chunkPath_plain [OF nm] valid_reply_def del: paths_eq)
    note wc = write_chunk [OF assms(1) O(6) e]
    have p: "DownloadsChunksPath fs1 = DownloadsChunksPath fs" "DownloadsPath fs1 = DownloadsPath fs"
      by (simp_all add: fs1_def)
    from reply_wanted [OF v Some w fs1_def] assms(3) have l: "df_ChunksToDownload df |\<subseteq>| {|?h|}"
      "fs' = finishDownloading fs1 (without_chunk df ?h)" by (auto split: if_splits)
    have "df_ok H fs1 df" using df_ok_extends [OF assms(2)] wc by blast
    then have ok1: "df_ok H fs1 (without_chunk df ?h)"
      using wc v Some unfolding df_ok_def p by (auto simp: valid_reply_def simp del: paths_eq)
    have nd: "node_at fs1 (DownloadsPath fs @ [df_Name df]) \<noteq> Some Dir"
      using assms(4) by (simp add: fs1_def del: paths_eq)
    have z: "df_ChunksToDownload (without_chunk df ?h) = {||}" using l by auto
    from finish_composes [OF _ ok1 _ z] wc Some nd O(3) p show ?thesis
      unfolding l(2) composed_of_def using O(1,2) by auto
  qed
qed

lemma reply_ok:
  assumes "downloads_dirs fs" "df_ok H fs df" "df_processDataReply H fs df r = (fs', df', res)"
  shows "downloads_dirs fs' \<and> dl_extends H fs fs' \<and> df_ok H fs' df' \<and> df_Name df' = df_Name df
    \<and> df_MetaHash df' = df_MetaHash df"
proof (cases "valid_reply H r")
  case False
  then show ?thesis using assms reply_invalid by simp
next
  case v: True
  show ?thesis
  proof (cases "df_Metafile df")
    case None
    obtain x y ok where g: "gotMetafile fs df (dp_HashValue r) (dp_Data r) = (x, y, ok)"
      using prod_cases3 by blast
    from v g have "gotMetafile fs df (Sum256 H (dp_Data r)) (dp_Data r) = (x, y, ok)"
      by (simp add: valid_reply_def)
    from gotMetafile_ok [OF assms(1,2) this None] reply_metafile [OF v None g] assms(3)
    show ?thesis using fs_extends_dl by auto
  next
    case (Some mf)
    let ?h = "dp_HashValue r"
    show ?thesis
    proof (cases "?h |\<in>| df_ChunksToDownload df")
      case False
      then show ?thesis using reply_unwanted [OF v Some False] assms by simp
    next
      case True
      note O = df_okD [OF assms(2) Some]
      have nm: "download_name (df_Name df)" by (rule df_ok_name [OF assms(2)])
      define fs1 where "fs1 = WriteFile fs (df_chunkPath fs df ?h) (dp_Data r)"
      have e: "fs1 = WriteFile fs (DownloadsChunksPath fs @ [df_Name df, GetChunkFileName (Sum256 H (dp_Data r))]) (dp_Data r)"
        using v by (simp add: fs1_def chunkPath_plain [OF nm] valid_reply_def del: paths_eq)
      note w = write_chunk [OF assms(1) O(6) e]
      have p: "DownloadsChunksPath fs1 = DownloadsChunksPath fs" by (simp add: fs1_def)
      have "df_ok H fs1 df" using df_ok_extends [OF assms(2)] w by blast
      then have ok1: "df_ok H fs1 (without_chunk df ?h)"
        using w v Some unfolding df_ok_def p by (auto simp: valid_reply_def simp del: paths_eq)
      note run = reply_wanted [OF v Some True fs1_def]
      show ?thesis
      proof (cases "df_ChunksToDownload df |\<subseteq>| {|?h|}")
        case last: True
        then have z: "df_ChunksToDownload (without_chunk df ?h) = {||}" by auto
        from finish_composes [OF _ ok1 _ z] w Some have
          f: "downloads_dirs (finishDownloading fs1 (without_chunk df ?h))"
            "dl_extends H fs1 (finishDownloading fs1 (without_chunk df ?h))" by auto
        have r: "fs' = finishDownloading fs1 (without_chunk df ?h)" "df' = without_chunk df ?h"
          using run last Some assms(3) by auto
        show ?thesis unfolding r
          using f w df_ok_extends [OF ok1 f(2)] dl_extends_trans [OF _ f(2), of fs] by simp
      next
        case False
        then show ?thesis using run Some assms(3) w ok1 by auto
      qed
    qed
  qed
qed

end
