(* ===== verification/DownloadingFilesManager.thy ===== *)
theory DownloadingFilesManager
  imports DownloadingFile
begin

text \<open>
  The downloads of a gossiper (\<open>models/filesharing/DownloadingFilesManager.go\<close>): at most one
  running download per origin, and the finished ones by metafile hash, which are served
  further. Every method runs under the manager's mutex. Iteration orders are arguments.
\<close>

record DownloadingFilesManager =
  dfm_downloadingFiles :: "(string, downloadingFile) fmap"
  dfm_downloadedFiles :: "(hash, downloadingFile) fmap"

definition InitDownloadingFilesManager :: "filesystem \<Rightarrow> filesystem \<times> DownloadingFilesManager" where
  "InitDownloadingFilesManager fs =
    (let fs = (if \<not> IsNotExist fs (DownloadsChunksPath fs) then RemoveAll fs (DownloadsChunksPath fs) else fs);
         fs = (if IsNotExist fs (DownloadsPath fs) then Mkdir fs (DownloadsPath fs) else fs);
         fs = Mkdir fs (DownloadsChunksPath fs)
     in (fs, \<lparr>dfm_downloadingFiles = fmempty, dfm_downloadedFiles = fmempty\<rparr>))"

definition StartDownloadingFromOrigin :: "DownloadingFilesManager \<Rightarrow> string \<Rightarrow> string \<Rightarrow> hash
    \<Rightarrow> DownloadingFilesManager \<times> bool" where
  "StartDownloadingFromOrigin dfm origin fileName metahash =
    (if has_key (dfm_downloadingFiles dfm) origin then (dfm, False)
     else (dfm\<lparr>dfm_downloadingFiles :=
        fmupd origin (initDownloadingFile fileName metahash) (dfm_downloadingFiles dfm)\<rparr>, True))"

definition ProcessDataReply :: "digest \<Rightarrow> filesystem \<Rightarrow> DownloadingFilesManager \<Rightarrow> string \<Rightarrow> DataReply
    \<Rightarrow> filesystem \<times> DownloadingFilesManager \<times> bool option" where
  "ProcessDataReply H fs dfm origin drmsg =
    (case fmlookup (dfm_downloadingFiles dfm) origin of
       None \<Rightarrow> (fs, dfm, None)
     | Some df \<Rightarrow>
        (case df_processDataReply H fs df drmsg of
           (fs, df, isFinished) \<Rightarrow>
             let dfm = dfm\<lparr>dfm_downloadingFiles := fmupd origin df (dfm_downloadingFiles dfm)\<rparr>;
                 dfm = (if isFinished = Some True
                   then dfm\<lparr>dfm_downloadingFiles := fmdrop origin (dfm_downloadingFiles dfm),
                            dfm_downloadedFiles := fmupd (df_MetaHash df) df (dfm_downloadedFiles dfm)\<rparr>
                   else dfm)
             in (fs, dfm, isFinished)))"

definition GetDataRequestHash :: "(hash fset \<Rightarrow> hash list) \<Rightarrow> DownloadingFilesManager \<Rightarrow> string \<Rightarrow> hash option" where
  "GetDataRequestHash ord dfm origin =
    (case fmlookup (dfm_downloadingFiles dfm) origin of
       None \<Rightarrow> None
     | Some df \<Rightarrow> getDataRequest (ord (df_ChunksToDownload df)))"

definition DropDownloading :: "DownloadingFilesManager \<Rightarrow> string \<Rightarrow> DownloadingFilesManager" where
  "DropDownloading dfm origin =
     dfm\<lparr>dfm_downloadingFiles := fmdrop origin (dfm_downloadingFiles dfm)\<rparr>"

text \<open>The loop over one of the maps: whether a file was found, and what it answered.\<close>

fun find_df_chunk :: "filesystem \<Rightarrow> hash \<Rightarrow> downloadingFile list \<Rightarrow> byte list option option" where
  "find_df_chunk fs h [] = None"
| "find_df_chunk fs h (df # dfs) =
     (if fileHasDownloadedChunk df h then Some (df_getChunkOrMetafile fs df h) else find_df_chunk fs h dfs)"

definition in_order :: "'k list \<Rightarrow> ('k, 'v) fmap \<Rightarrow> 'v list" where
  "in_order ks m = List.map_filter (fmlookup m) ks"

definition dfm_GetChunkOrMetafile :: "string list \<Rightarrow> hash list \<Rightarrow> filesystem \<Rightarrow> DownloadingFilesManager
    \<Rightarrow> byte list \<Rightarrow> byte list option" where
  "dfm_GetChunkOrMetafile ks ks' fs dfm hashValue =
    (case GetTypeStrictHash hashValue of
       None \<Rightarrow> None
     | Some h \<Rightarrow>
        (case find_df_chunk fs h (in_order ks (dfm_downloadingFiles dfm)) of
           Some r \<Rightarrow> r
         | None \<Rightarrow>
            (case find_df_chunk fs h (in_order ks' (dfm_downloadedFiles dfm)) of
               Some r \<Rightarrow> r
             | None \<Rightarrow> None)))"

definition dfm_GetSearchResults :: "matcher \<Rightarrow> string list \<Rightarrow> hash list \<Rightarrow> DownloadingFilesManager
    \<Rightarrow> string list \<Rightarrow> SearchResult list" where
  "dfm_GetSearchResults re ks ks' dfm keywords =
     concat (map (\<lambda>df. df_getSearchResults re df keywords) (in_order ks (dfm_downloadingFiles dfm)))
     @ concat (map (\<lambda>df. df_getSearchResults re df keywords) (in_order ks' (dfm_downloadedFiles dfm)))"

section \<open>Invariant\<close>

definition dfm_inv :: "digest \<Rightarrow> filesystem \<Rightarrow> DownloadingFilesManager \<Rightarrow> bool" where
  "dfm_inv H fs dfm \<longleftrightarrow> downloads_dirs fs
     \<and> (\<forall>src df. fmlookup (dfm_downloadingFiles dfm) src = Some df \<longrightarrow> df_ok H fs df)
     \<and> (\<forall>k df. fmlookup (dfm_downloadedFiles dfm) k = Some df \<longrightarrow> df_MetaHash df = k \<and> df_ok H fs df)"

lemma dfm_invD:
  assumes "dfm_inv H fs dfm"
  shows "downloads_dirs fs"
    "fmlookup (dfm_downloadingFiles dfm) src = Some df \<Longrightarrow> df_ok H fs df"
    "fmlookup (dfm_downloadedFiles dfm) k = Some df \<Longrightarrow> df_MetaHash df = k"
    "fmlookup (dfm_downloadedFiles dfm) k = Some df \<Longrightarrow> df_ok H fs df"
  using assms unfolding dfm_inv_def by blast+

lemma dfm_invI:
  assumes "downloads_dirs fs"
    "\<And>src df. fmlookup (dfm_downloadingFiles dfm) src = Some df \<Longrightarrow> df_ok H fs df"
    "\<And>k df. fmlookup (dfm_downloadedFiles dfm) k = Some df \<Longrightarrow> df_MetaHash df = k \<and> df_ok H fs df"
  shows "dfm_inv H fs dfm"
  using assms unfolding dfm_inv_def by blast

lemma dfm_inv_extends:
  assumes "dfm_inv H fs dfm" "dl_extends H fs fs'" "downloads_dirs fs'" shows "dfm_inv H fs' dfm"
  using dfm_invD [OF assms(1)] df_ok_extends [OF _ assms(2)] assms(3) by (intro dfm_invI) blast+

lemma Start_inv:
  assumes "dfm_inv H fs dfm" "download_name n"
  shows "dfm_inv H fs (fst (StartDownloadingFromOrigin dfm src n h))"
  using dfm_invD [OF assms(1)] df_ok_init [OF assms(2)]
  by (intro dfm_invI) (auto simp: StartDownloadingFromOrigin_def split: if_splits)

lemma Drop_inv: "dfm_inv H fs dfm \<Longrightarrow> dfm_inv H fs (DropDownloading dfm src)"
  using dfm_invD [of H fs dfm] by (intro dfm_invI) (auto simp: DropDownloading_def split: if_splits)

lemma ProcessDataReply_cases:
  obtains (none) "fmlookup (dfm_downloadingFiles dfm) src = None" "ProcessDataReply H fs dfm src r = (fs, dfm, None)"
  | (some) df fs' df' res where "fmlookup (dfm_downloadingFiles dfm) src = Some df"
      "df_processDataReply H fs df r = (fs', df', res)"
      "ProcessDataReply H fs dfm src r = (fs', if res = Some True
         then dfm\<lparr>dfm_downloadingFiles := fmdrop src (fmupd src df' (dfm_downloadingFiles dfm)),
                 dfm_downloadedFiles := fmupd (df_MetaHash df') df' (dfm_downloadedFiles dfm)\<rparr>
         else dfm\<lparr>dfm_downloadingFiles := fmupd src df' (dfm_downloadingFiles dfm)\<rparr>, res)"
proof (cases "fmlookup (dfm_downloadingFiles dfm) src")
  case None
  then show thesis using none by (simp add: ProcessDataReply_def)
next
  case (Some df)
  obtain fs' df' res where e: "df_processDataReply H fs df r = (fs', df', res)" using prod_cases3 by blast
  show thesis by (rule some [OF Some e]) (simp add: ProcessDataReply_def Some e Let_def)
qed

lemma ProcessDataReply_inv:
  assumes "dfm_inv H fs dfm" "ProcessDataReply H fs dfm src r = (fs', dfm', res)"
  shows "dfm_inv H fs' dfm' \<and> dl_extends H fs fs'"
proof (cases rule: ProcessDataReply_cases [of dfm src H fs r])
  case none
  then show ?thesis using assms by simp
next
  case (some df fs1 df1 res1)
  note d = dfm_invD [OF assms(1)]
  note k = reply_ok [OF d(1) d(2) [OF some(1)] some(2)]
  have e: "fs' = fs1" using some(3) assms(2) by simp
  have i: "dfm_inv H fs1 dfm" using dfm_inv_extends [OF assms(1)] k by blast
  note d1 = dfm_invD [OF i]
  have "dfm_inv H fs1 dfm'"
    using some(3) assms(2) d1 k
    by (intro dfm_invI) (auto split: if_splits)
  with e k show ?thesis by simp
qed

lemma Init_downloads:
  assumes "fs_closed fs" "node_at fs (fs_cwd fs) = Some Dir"
    and "\<And>d. node_at fs (DownloadsPath fs) \<noteq> Some (Data d)"
    and "InitDownloadingFilesManager fs = (fs', dfm)"
  shows "dfm_inv H fs' dfm \<and> fs_cwd fs' = fs_cwd fs
    \<and> (\<forall>q. outside (DownloadsPath fs) q \<longrightarrow> node_at fs' q = node_at fs q)"
proof -
  let ?S = "DownloadsPath fs" and ?C = "DownloadsChunksPath fs"
  define fs1 where "fs1 = (if \<not> IsNotExist fs ?C then RemoveAll fs ?C else fs)"
  define fs2 where "fs2 = (if IsNotExist fs1 ?S then Mkdir fs1 ?S else fs1)"
  have c: "fs_cwd fs1 = fs_cwd fs" "fs_cwd fs2 = fs_cwd fs" by (simp_all add: fs1_def fs2_def)
  have p: "DownloadsPath fs1 = ?S" "DownloadsChunksPath fs2 = ?C" using c by simp_all
  have "InitDownloadingFilesManager fs = (Mkdir fs2 ?C, \<lparr>dfm_downloadingFiles = fmempty, dfm_downloadedFiles = fmempty\<rparr>)"
    unfolding InitDownloadingFilesManager_def Let_def fs1_def [symmetric] p(1) fs2_def [symmetric] p(2) ..
  then have e: "fs' = Mkdir fs2 ?C" "dfm = \<lparr>dfm_downloadingFiles = fmempty, dfm_downloadedFiles = fmempty\<rparr>"
    using assms(4) by simp_all
  have "?S = fs_cwd fs @ [''_Downloads'']" "?C = ?S @ [''chunks'']" by simp_all
  note r = reset_dirs [OF assms(1,2) this assms(3) fs1_def fs2_def e(1)]
  then have "DownloadsChunksPath fs' = ?C" by simp
  then have "downloads_dirs fs'" unfolding downloads_dirs_def using r by simp
  then have "dfm_inv H fs' dfm" by (intro dfm_invI) (simp_all add: e(2))
  then show ?thesis using r by blast
qed

section \<open>Answers\<close>

lemma df_answer_verifies:
  assumes "df_ok H fs df" "fileHasDownloadedChunk df h" "df_getChunkOrMetafile fs df h = Some d"
  shows "Sum256 H d = h"
proof -
  obtain mf where mf: "df_Metafile df = Some mf"
    using assms(2) by (auto simp: fileHasDownloadedChunk_def split: if_splits)
  note O = df_okD [OF assms(1) mf] and nm = df_ok_name [OF assms(1)]
  show ?thesis
  proof (cases "h = df_MetaHash df")
    case True
    then show ?thesis using assms(3) O(1) mf by (simp add: df_getChunkOrMetafile_def)
  next
    case False
    with assms(2) have "h |\<in>| df_ChunksHashesSet df" "\<not> h |\<in>| df_ChunksToDownload df"
      by (auto simp: fileHasDownloadedChunk_def split: if_splits)
    from O(7) [OF this] show ?thesis
      using assms(2,3) False chunkPath_plain [OF nm, of fs h]
      by (auto simp: df_getChunkOrMetafile_def ReadFile_Some simp del: paths_eq split: if_splits)
  qed
qed

lemma find_df_verifies:
  "\<forall>df \<in> set dfs. df_ok H fs df \<Longrightarrow> find_df_chunk fs h dfs = Some (Some d) \<Longrightarrow> Sum256 H d = h"
  by (induction dfs) (auto split: if_splits dest: df_answer_verifies)

lemma set_in_order: "df \<in> set (in_order ks m) \<Longrightarrow> \<exists>k. fmlookup m k = Some df"
  by (auto simp: in_order_def List.map_filter_def)

lemma dfm_answer_verifies:
  assumes "dfm_inv H fs dfm" "dfm_GetChunkOrMetafile ks ks' fs dfm h = Some d"
  shows "Sum256 H d = h"
proof -
  have "\<forall>df \<in> set (in_order ks (dfm_downloadingFiles dfm)). df_ok H fs df"
    "\<forall>df \<in> set (in_order ks' (dfm_downloadedFiles dfm)). df_ok H fs df"
    using set_in_order dfm_invD(2,4) [OF assms(1)] by metis+
  with assms(2) find_df_verifies show ?thesis
    by (auto simp: dfm_GetChunkOrMetafile_def split: if_splits option.splits)
qed

end
