(* ===== verification/DownloadThread.thy ===== *)
theory DownloadThread
  imports DownloadingFilesManager
begin

text \<open>
  The file-downloading goroutine (\<open>startFileDownloadingGoroutine\<close> in
  \<open>gossiper/Gossiper.go\<close>) over the downloads manager: what it does when its timer fires and
  when the message processor hands it a reply. It waits with the hash it asked for last and
  the number of timeouts it still accepts. A step returns the hashes it requests from the
  origin, and no thread when the goroutine ends; in that case, and only then, the code also
  removes the origin's channel.

  \<open>fetch\<close> is the goroutine against an origin that answers every request.
\<close>

record dl_thread =
  dt_latest :: "byte list"
  dt_timeouts :: int

datatype dl_event = DlTimeout | DlReply DataReply

definition download_step :: "digest \<Rightarrow> (hash fset \<Rightarrow> hash list) \<Rightarrow> string \<Rightarrow> dl_event
    \<Rightarrow> filesystem \<times> DownloadingFilesManager \<times> dl_thread
    \<Rightarrow> (filesystem \<times> DownloadingFilesManager \<times> dl_thread option) \<times> byte list list" where
  "download_step H ord origin ev st = (case st of (fs, dfm, th) \<Rightarrow>
    (case ev of
       DlTimeout \<Rightarrow>
         let th = th\<lparr>dt_timeouts := dt_timeouts th - 1\<rparr> in
         if dt_timeouts th \<le> 0 then ((fs, DropDownloading dfm origin, None), [])
         else ((fs, dfm, Some th), [dt_latest th])
     | DlReply dataReplyPacket \<Rightarrow>
         (case ProcessDataReply H fs dfm origin dataReplyPacket of
            (fs, dfm, None) \<Rightarrow> ((fs, dfm, Some th), [dt_latest th])
          | (fs, dfm, Some isFinished) \<Rightarrow>
              if isFinished then ((fs, dfm, None), [])
              else
                let th = th\<lparr>dt_timeouts := FileDownloadTimeoutsLimit\<rparr> in
                (case GetDataRequestHash ord dfm origin of
                   None \<Rightarrow> ((fs, dfm, Some th), [])
                 | Some dataRequestHash \<Rightarrow>
                     let th = th\<lparr>dt_latest := dataRequestHash\<rparr> in
                     ((fs, dfm, Some th), [dataRequestHash])))))"

definition start_thread :: "hash \<Rightarrow> dl_thread" where
  "start_thread h = \<lparr>dt_latest = h, dt_timeouts = FileDownloadTimeoutsLimit\<rparr>"

text \<open>\<open>fetch n\<close>: at most \<open>n\<close> requests are answered; the result is the state in which the
  goroutine ended, if it did.\<close>

fun fetch :: "digest \<Rightarrow> (hash fset \<Rightarrow> hash list) \<Rightarrow> string \<Rightarrow> (byte list \<Rightarrow> byte list option) \<Rightarrow> nat
    \<Rightarrow> filesystem \<times> DownloadingFilesManager \<times> dl_thread \<Rightarrow> byte list
    \<Rightarrow> (filesystem \<times> DownloadingFilesManager) option" where
  "fetch H ord origin answer 0 st h = None"
| "fetch H ord origin answer (Suc n) st h =
     (case answer h of
        None \<Rightarrow> None
      | Some d \<Rightarrow>
          (case download_step H ord origin (DlReply \<lparr>dp_Origin = origin, dp_Destination = [],
                  dp_HopLimit = 0, dp_HashValue = h, dp_Data = d\<rparr>) st of
             ((fs, dfm, None), _) \<Rightarrow> Some (fs, dfm)
           | ((fs, dfm, Some th), [h']) \<Rightarrow> fetch H ord origin answer n (fs, dfm, th) h'
           | ((fs, dfm, Some th), _) \<Rightarrow> None))"

text \<open>\<open>n\<close> timeouts in a row.\<close>

fun timeouts :: "digest \<Rightarrow> (hash fset \<Rightarrow> hash list) \<Rightarrow> string \<Rightarrow> nat
    \<Rightarrow> filesystem \<times> DownloadingFilesManager \<times> dl_thread
    \<Rightarrow> (filesystem \<times> DownloadingFilesManager \<times> dl_thread option) \<times> byte list list" where
  "timeouts H ord origin 0 (fs, dfm, th) = ((fs, dfm, Some th), [])"
| "timeouts H ord origin (Suc n) st =
     (case download_step H ord origin DlTimeout st of
        ((fs, dfm, None), rs) \<Rightarrow> ((fs, dfm, None), rs)
      | ((fs, dfm, Some th), rs) \<Rightarrow>
          (case timeouts H ord origin n (fs, dfm, th) of (r, rs') \<Rightarrow> (r, rs @ rs')))"

definition set_order :: "(hash fset \<Rightarrow> hash list) \<Rightarrow> bool" where
  "set_order ord \<longleftrightarrow> (\<forall>s. fset_of_list (ord s) = s)"

lemma set_order_hd: "set_order ord \<Longrightarrow> s \<noteq> {||} \<Longrightarrow> \<exists>h ks. ord s = h # ks \<and> h |\<in>| s"
  by (cases "ord s") (auto simp: set_order_def fset_of_list_elem dest: spec [of _ s])

section \<open>Progress\<close>

text \<open>A download that waits for chunks.\<close>

definition awaiting :: "DownloadingFilesManager \<Rightarrow> string \<Rightarrow> downloadingFile \<Rightarrow> bool" where
  "awaiting dfm origin df \<longleftrightarrow> fmlookup (dfm_downloadingFiles dfm) origin = Some df
     \<and> df_Metafile df \<noteq> None \<and> df_ChunksToDownload df \<noteq> {||}"

definition reply_of :: "string \<Rightarrow> byte list \<Rightarrow> byte list \<Rightarrow> DataReply" where
  "reply_of origin h d = \<lparr>dp_Origin = origin, dp_Destination = [], dp_HopLimit = 0,
     dp_HashValue = h, dp_Data = d\<rparr>"

lemma reply_of_sel [simp]: "dp_HashValue (reply_of src h d) = h" "dp_Data (reply_of src h d) = d"
  by (simp_all add: reply_of_def)

lemma step_not_last:
  assumes "awaiting dfm src df" "h |\<in>| df_ChunksToDownload df" "Sum256 H d = h" "set_order ord"
    and "\<not> df_ChunksToDownload df |\<subseteq>| {|h|}"
  shows "\<exists>dfm' th' h'. download_step H ord src (DlReply (reply_of src h d)) (fs, dfm, th)
       = ((WriteFile fs (df_chunkPath fs df h) d, dfm', Some th'), [h'])
     \<and> ProcessDataReply H fs dfm src (reply_of src h d) = (WriteFile fs (df_chunkPath fs df h) d, dfm', Some False)
     \<and> awaiting dfm' src (without_chunk df h) \<and> h' |\<in>| df_ChunksToDownload (without_chunk df h)"
proof -
  obtain mf where mf: "df_Metafile df = Some mf" using assms(1) by (auto simp: awaiting_def)
  have v: "valid_reply H (reply_of src h d)" using assms(3) by (simp add: valid_reply_def)
  have "df_processDataReply H fs df (reply_of src h d)
      = (WriteFile fs (df_chunkPath fs df h) d, without_chunk df h, Some False)"
    using reply_wanted [OF v mf _ refl] assms(2,5) by simp
  then have p: "ProcessDataReply H fs dfm src (reply_of src h d) = (WriteFile fs (df_chunkPath fs df h) d,
      dfm\<lparr>dfm_downloadingFiles := fmupd src (without_chunk df h) (dfm_downloadingFiles dfm)\<rparr>, Some False)"
    using assms(1) by (simp add: ProcessDataReply_def awaiting_def Let_def)
  have ne: "df_ChunksToDownload (without_chunk df h) \<noteq> {||}" using assms(5) by auto
  from set_order_hd [OF assms(4) ne] obtain h' ks where
    o: "ord (df_ChunksToDownload (without_chunk df h)) = h' # ks" "h' |\<in>| df_ChunksToDownload (without_chunk df h)"
    by blast
  then show ?thesis
    using assms(1) mf ne
    by (simp add: download_step_def p GetDataRequestHash_def getDataRequest_def Let_def awaiting_def)
qed

lemma step_last:
  fixes fs h d df
  assumes "awaiting dfm src df" "h |\<in>| df_ChunksToDownload df" "Sum256 H d = h"
    and "df_ChunksToDownload df |\<subseteq>| {|h|}"
  defines "fs' \<equiv> finishDownloading (WriteFile fs (df_chunkPath fs df h) d) (without_chunk df h)"
  shows "\<exists>dfm'. download_step H ord src (DlReply (reply_of src h d)) (fs, dfm, th) = ((fs', dfm', None), [])
     \<and> ProcessDataReply H fs dfm src (reply_of src h d) = (fs', dfm', Some True)
     \<and> \<not> has_key (dfm_downloadingFiles dfm') src \<and> has_key (dfm_downloadedFiles dfm') (df_MetaHash df)"
proof -
  obtain mf where mf: "df_Metafile df = Some mf" using assms(1) by (auto simp: awaiting_def)
  have v: "valid_reply H (reply_of src h d)" using assms(3) by (simp add: valid_reply_def)
  have "df_processDataReply H fs df (reply_of src h d) = (fs', without_chunk df h, Some True)"
    using reply_wanted [OF v mf _ refl] assms(2,4) by (simp add: fs'_def)
  then show ?thesis
    using assms(1) by (simp add: download_step_def ProcessDataReply_def awaiting_def Let_def)
qed

text \<open>The chunks on disk are the answers.\<close>

definition has_answers :: "(byte list \<Rightarrow> byte list option) \<Rightarrow> filesystem \<Rightarrow> downloadingFile \<Rightarrow> bool" where
  "has_answers answer fs df \<longleftrightarrow> (\<forall>h. h |\<in>| df_ChunksHashesSet df \<and> \<not> h |\<in>| df_ChunksToDownload df \<longrightarrow>
     node_at fs (df_chunkPath fs df h) = Some (Data (the (answer h))))"

lemma has_answers_write:
  assumes "has_answers answer fs df" "dfm_inv H fs dfm" "awaiting dfm src df"
    and "answer h = Some d" "Sum256 H d = h"
  shows "has_answers answer (WriteFile fs (df_chunkPath fs df h) d) (without_chunk df h)"
proof -
  obtain mf where mf: "df_Metafile df = Some mf" and l: "fmlookup (dfm_downloadingFiles dfm) src = Some df"
    using assms(3) by (auto simp: awaiting_def)
  note ok = dfm_invD(2) [OF assms(2) l] and D = dfm_invD(1) [OF assms(2)]
  note nm = df_ok_name [OF ok]
  have c: "df_chunkPath (WriteFile fs x y) (without_chunk df h) k = df_chunkPath fs df k" for x y k
    by (simp add: df_chunkPath_def)
  have "WriteFile fs (df_chunkPath fs df h) d =
      WriteFile fs (DownloadsChunksPath fs @ [df_Name df, GetChunkFileName (Sum256 H d)]) d"
    using assms(5) by (simp add: chunkPath_plain [OF nm] del: paths_eq)
  from write_chunk [OF D df_okD(6) [OF ok mf] this] assms(5)
  have w: "node_at (WriteFile fs (df_chunkPath fs df h) d) (df_chunkPath fs df h) = Some (Data d)"
    by (simp add: chunkPath_plain [OF nm] del: paths_eq)
  show ?thesis unfolding has_answers_def c
  proof (intro allI impI, elim conjE)
    fix k assume k: "k |\<in>| df_ChunksHashesSet (without_chunk df h)"
      "\<not> k |\<in>| df_ChunksToDownload (without_chunk df h)"
    show "node_at (WriteFile fs (df_chunkPath fs df h) d) (df_chunkPath fs df k) = Some (Data (the (answer k)))"
    proof (cases "k = h")
      case True
      then show ?thesis using w assms(4) by simp
    next
      case False
      then have "df_chunkPath fs df k \<noteq> df_chunkPath fs df h" by (simp add: chunkPath_plain [OF nm])
      then show ?thesis using k False assms(1) by (auto simp: node_WriteFile has_answers_def)
    qed
  qed
qed

text \<open>The chunk phase: with every chunk answered, the goroutine ends after as many replies as
  there are missing chunks, and the file is the sequence of the answers.\<close>

lemma fetch_chunks:
  assumes "set_order ord"
    and "\<And>h. h |\<in>| df_ChunksHashesSet df \<Longrightarrow> \<exists>d. answer h = Some d \<and> Sum256 H d = h"
    and "dfm_inv H fs dfm" "awaiting dfm src df" "h |\<in>| df_ChunksToDownload df"
    and "fcard (df_ChunksToDownload df) \<le> n" "has_answers answer fs df"
    and "node_at fs (DownloadsPath fs @ [df_Name df]) \<noteq> Some Dir"
  shows "\<exists>fs' dfm'. fetch H ord src answer n (fs, dfm, th) h = Some (fs', dfm') \<and> dfm_inv H fs' dfm'
     \<and> node_at fs' (DownloadsPath fs @ [df_Name df])
         = Some (Data (concat (map (\<lambda>h. the (answer h)) (df_ChunksHashesSlice df))))
     \<and> \<not> has_key (dfm_downloadingFiles dfm') src \<and> has_key (dfm_downloadedFiles dfm') (df_MetaHash df)"
  using assms(2-)
proof (induction n arbitrary: df dfm fs th h)
  case 0
  then show ?case by (auto simp: awaiting_def fcard_0_eq)
next
  case (Suc n)
  obtain mf where mf: "df_Metafile df = Some mf" and l: "fmlookup (dfm_downloadingFiles dfm) src = Some df"
    using Suc.prems(3) by (auto simp: awaiting_def)
  note ok = dfm_invD(2) [OF Suc.prems(2) l] and D = dfm_invD(1) [OF Suc.prems(2)]
  note O = df_okD [OF ok mf] and nm = df_ok_name [OF ok]
  have "h |\<in>| df_ChunksHashesSet df" using O(5) Suc.prems(4) by auto
  then obtain d where a: "answer h = Some d" "Sum256 H d = h" using Suc.prems(1) by blast
  let ?fs1 = "WriteFile fs (df_chunkPath fs df h) d"
  note ha = has_answers_write [OF Suc.prems(6,2,3) a]
  have p1: "DownloadsPath ?fs1 = DownloadsPath fs" by simp
  have nd: "node_at ?fs1 (DownloadsPath fs @ [df_Name df]) \<noteq> Some Dir" using Suc.prems(7) by (simp del: paths_eq)
  show ?case
  proof (cases "df_ChunksToDownload df |\<subseteq>| {|h|}")
    case True
    from step_last [OF Suc.prems(3,4) a(2) True, of ord fs th] obtain dfm' where
      s: "download_step H ord src (DlReply (reply_of src h d)) (fs, dfm, th)
         = ((finishDownloading ?fs1 (without_chunk df h), dfm', None), [])"
      "ProcessDataReply H fs dfm src (reply_of src h d) = (finishDownloading ?fs1 (without_chunk df h), dfm', Some True)"
      "\<not> has_key (dfm_downloadingFiles dfm') src" "has_key (dfm_downloadedFiles dfm') (df_MetaHash df)" by blast
    have dd: "downloads_dirs ?fs1"
      using write_chunk [OF D O(6)] a(2) by (metis chunkPath_plain [OF nm])
    have "node_at ?fs1 (df_chunkPath ?fs1 (without_chunk df h) k) = Some (Data (the (answer k)))"
      if "k \<in> set (df_ChunksHashesSlice (without_chunk df h))" for k
      using ha that True O(3,4) unfolding has_answers_def by (auto simp: fset_of_list_elem)
    from finish_with [OF dd _ this, of H] nm nd
    have "node_at (finishDownloading ?fs1 (without_chunk df h)) (DownloadsPath fs @ [df_Name df])
         = Some (Data (concat (map (\<lambda>h. the (answer h)) (df_ChunksHashesSlice df))))"
      unfolding p1 by (simp del: paths_eq)
    moreover have "fetch H ord src answer (Suc n) (fs, dfm, th) h
        = Some (finishDownloading ?fs1 (without_chunk df h), dfm')"
      using a(1) s(1) by (simp add: reply_of_def)
    moreover note ProcessDataReply_inv [OF Suc.prems(2) s(2)]
    ultimately show ?thesis using s(3,4) by blast
  next
    case False
    from step_not_last [OF Suc.prems(3,4) a(2) assms(1) False, of fs th] obtain dfm1 th1 h1 where
      s: "download_step H ord src (DlReply (reply_of src h d)) (fs, dfm, th) = ((?fs1, dfm1, Some th1), [h1])"
      "ProcessDataReply H fs dfm src (reply_of src h d) = (?fs1, dfm1, Some False)"
      "awaiting dfm1 src (without_chunk df h)" "h1 |\<in>| df_ChunksToDownload (without_chunk df h)" by blast
    have "fcard (df_ChunksToDownload (without_chunk df h)) < fcard (df_ChunksToDownload df)"
      using fcard_fminus1_less [OF Suc.prems(4)] by simp
    then have c: "fcard (df_ChunksToDownload (without_chunk df h)) \<le> n" using Suc.prems(5) by simp
    have an: "\<exists>d. answer k = Some d \<and> Sum256 H d = k" if "k |\<in>| df_ChunksHashesSet (without_chunk df h)" for k
      using Suc.prems(1) that by simp
    have i: "dfm_inv H ?fs1 dfm1" using ProcessDataReply_inv [OF Suc.prems(2) s(2)] by blast
    have nd': "node_at ?fs1 (DownloadsPath ?fs1 @ [df_Name (without_chunk df h)]) \<noteq> Some Dir"
      using nd p1 by (simp del: paths_eq)
    have "fetch H ord src answer (Suc n) (fs, dfm, th) h = fetch H ord src answer n (?fs1, dfm1, th1) h1"
      using a(1) s(1) by (simp add: reply_of_def)
    with Suc.IH [OF an i s(3,4) c ha nd', of th1] show ?thesis
      unfolding p1 by (simp del: paths_eq)
  qed
qed

text \<open>The metafile phase, when no directory of that name exists.\<close>

lemma step_metafile:
  assumes "dfm_inv H fs dfm" "fmlookup (dfm_downloadingFiles dfm) src = Some df" "df_Metafile df = None"
    and "Sum256 H mf = df_MetaHash df" "32 dvd length mf" "parse_metafile mf \<noteq> []" "set_order ord"
    and "node_at fs (DownloadsChunksPath fs @ [df_Name df]) = None"
  shows "\<exists>dfm' th' h' c f. download_step H ord src (DlReply (reply_of src (df_MetaHash df) mf)) (fs, dfm, th)
       = ((WriteFile (Mkdir fs (DownloadsChunksPath fs @ [c])) (DownloadsChunksPath fs @ [c, f]) mf, dfm', Some th'), [h'])
     \<and> ProcessDataReply H fs dfm src (reply_of src (df_MetaHash df) mf)
       = (WriteFile (Mkdir fs (DownloadsChunksPath fs @ [c])) (DownloadsChunksPath fs @ [c, f]) mf, dfm', Some False)
     \<and> dfm_inv H (WriteFile (Mkdir fs (DownloadsChunksPath fs @ [c])) (DownloadsChunksPath fs @ [c, f]) mf) dfm'
     \<and> awaiting dfm' src (with_metafile df mf) \<and> h' |\<in>| df_ChunksToDownload (with_metafile df mf)"
proof -
  note ok = dfm_invD(2) [OF assms(1,2)] and D = dfm_invD(1) [OF assms(1)]
  let ?c = "df_Name df" and ?f = "GetMetafileName (df_MetaHash df)"
  let ?fs1 = "WriteFile (Mkdir fs (DownloadsChunksPath fs @ [?c])) (DownloadsChunksPath fs @ [?c, ?f]) mf"
  let ?dfm1 = "dfm\<lparr>dfm_downloadingFiles := fmupd src (with_metafile df mf) (dfm_downloadingFiles dfm)\<rparr>"
  have v: "valid_reply H (reply_of src (df_MetaHash df) mf)" using assms(4) by (simp add: valid_reply_def)
  have "gotMetafile fs df (df_MetaHash df) mf = (?fs1, with_metafile df mf, True)"
    using gotMetafile_cases [OF D df_ok_name [OF ok], of "df_MetaHash df" mf] assms(5,8) by simp
  then have "df_processDataReply H fs df (reply_of src (df_MetaHash df) mf) = (?fs1, with_metafile df mf, Some False)"
    using reply_metafile [OF v assms(3)] by simp
  then have p: "ProcessDataReply H fs dfm src (reply_of src (df_MetaHash df) mf) = (?fs1, ?dfm1, Some False)"
    using assms(2) by (simp add: ProcessDataReply_def Let_def)
  have ne: "df_ChunksToDownload (with_metafile df mf) \<noteq> {||}"
    using assms(6) by (cases "parse_metafile mf") auto
  from set_order_hd [OF assms(7) ne] obtain h ks where
    o: "ord (df_ChunksToDownload (with_metafile df mf)) = h # ks" "h |\<in>| df_ChunksToDownload (with_metafile df mf)"
    by blast
  have "download_step H ord src (DlReply (reply_of src (df_MetaHash df) mf)) (fs, dfm, th)
      = ((?fs1, ?dfm1, Some (th\<lparr>dt_timeouts := FileDownloadTimeoutsLimit, dt_latest := h\<rparr>)), [h])"
    using o by (simp add: download_step_def p GetDataRequestHash_def getDataRequest_def Let_def del: paths_eq)
  moreover have "awaiting ?dfm1 src (with_metafile df mf)" using ne by (simp add: awaiting_def)
  moreover have "dfm_inv H ?fs1 ?dfm1" using ProcessDataReply_inv [OF assms(1) p] by blast
  ultimately show ?thesis using o(2) p by blast
qed

text \<open>The whole download: \<open>n\<close> chunks and the metafile take at most \<open>n + 1\<close> replies.\<close>

lemma fetch_file:
  assumes "dfm_inv H fs dfm" "fmlookup (dfm_downloadingFiles dfm) src = Some (initDownloadingFile name mh)"
    and "answer mh = Some mf" "Sum256 H mf = mh" "32 dvd length mf" "parse_metafile mf \<noteq> []" "set_order ord"
    and "\<And>h. h \<in> set (parse_metafile mf) \<Longrightarrow> \<exists>d. answer h = Some d \<and> Sum256 H d = h"
    and "node_at fs (DownloadsChunksPath fs @ [name]) = None"
    and "node_at fs (DownloadsPath fs @ [name]) \<noteq> Some Dir"
    and "length (parse_metafile mf) \<le> n"
  shows "\<exists>fs' dfm'. fetch H ord src answer (Suc n) (fs, dfm, th) mh = Some (fs', dfm') \<and> dfm_inv H fs' dfm'
     \<and> node_at fs' (DownloadsPath fs @ [name]) = Some (Data (concat (map (\<lambda>h. the (answer h)) (parse_metafile mf))))
     \<and> \<not> has_key (dfm_downloadingFiles dfm') src \<and> has_key (dfm_downloadedFiles dfm') mh"
proof -
  let ?df = "initDownloadingFile name mh"
  have i: "df_Metafile ?df = None" "df_MetaHash ?df = mh" "df_Name ?df = name" by (simp_all add: initDownloadingFile_def)
  from step_metafile [OF assms(1,2) i(1) _ assms(5,6,7), of th] assms(4,9) i(2,3)
  obtain dfm1 th1 h1 c f where
    s: "download_step H ord src (DlReply (reply_of src mh mf)) (fs, dfm, th)
       = ((WriteFile (Mkdir fs (DownloadsChunksPath fs @ [c])) (DownloadsChunksPath fs @ [c, f]) mf, dfm1, Some th1), [h1])"
    "dfm_inv H (WriteFile (Mkdir fs (DownloadsChunksPath fs @ [c])) (DownloadsChunksPath fs @ [c, f]) mf) dfm1"
    "awaiting dfm1 src (with_metafile ?df mf)" "h1 |\<in>| df_ChunksToDownload (with_metafile ?df mf)" by metis
  let ?fs1 = "WriteFile (Mkdir fs (DownloadsChunksPath fs @ [c])) (DownloadsChunksPath fs @ [c, f]) mf"
  have p: "DownloadsPath ?fs1 = DownloadsPath fs" by simp
  have nd: "node_at ?fs1 (DownloadsPath ?fs1 @ [df_Name (with_metafile ?df mf)]) \<noteq> Some Dir"
    using assms(10) i(3) by (auto simp: node_Mkdir)
  have c: "fcard (df_ChunksToDownload (with_metafile ?df mf)) \<le> n"
    using assms(11) card_length [of "parse_metafile mf"] by (simp add: fcard.rep_eq fset_of_list.rep_eq)
  have an: "\<exists>d. answer h = Some d \<and> Sum256 H d = h" if "h |\<in>| df_ChunksHashesSet (with_metafile ?df mf)" for h
    using assms(8) that by (simp add: fset_of_list_elem)
  have ha: "has_answers answer ?fs1 (with_metafile ?df mf)" by (simp add: has_answers_def)
  have "fetch H ord src answer (Suc n) (fs, dfm, th) mh = fetch H ord src answer n (?fs1, dfm1, th1) h1"
    using assms(3) s(1) by (simp add: reply_of_def)
  with fetch_chunks [OF assms(7) an s(2,3,4) c ha nd, of th1] show ?thesis
    unfolding p using i by (simp del: paths_eq)
qed

text \<open>The verdicts on a sequence of replies.\<close>

fun reply_results :: "digest \<Rightarrow> filesystem \<Rightarrow> DownloadingFilesManager \<Rightarrow> string \<Rightarrow> DataReply list
    \<Rightarrow> bool option list" where
  "reply_results H fs dfm src [] = []"
| "reply_results H fs dfm src (r # rs) = (case ProcessDataReply H fs dfm src r of
     (fs, dfm, res) \<Rightarrow> res # reply_results H fs dfm src rs)"

text \<open>A download with an empty metafile, or with none and the hash of the empty one, does not
  end.\<close>

lemma empty_never:
  assumes "fmlookup (dfm_downloadingFiles dfm) src = Some df" "df_ChunksToDownload df = {||}"
    and "df_Metafile df = None \<longrightarrow> df_MetaHash df = Sum256 H []"
    and "\<And>r. r \<in> set rs \<Longrightarrow> Sum256 H (dp_Data r) = Sum256 H [] \<Longrightarrow> dp_Data r = []"
  shows "Some True \<notin> set (reply_results H fs dfm src rs)"
  using assms
proof (induction rs arbitrary: fs dfm df)
  case (Cons r rs)
  obtain fs1 df1 res where e: "df_processDataReply H fs df r = (fs1, df1, res)" using prod_cases3 by blast
  have "res \<noteq> Some True \<and> df_ChunksToDownload df1 = {||} \<and> (df_Metafile df1 = None \<longrightarrow> df_MetaHash df1 = Sum256 H [])"
  proof (cases "valid_reply H r")
    case False
    then show ?thesis using e reply_invalid Cons.prems by simp
  next
    case v: True
    show ?thesis
    proof (cases "df_Metafile df")
      case (Some mf)
      then show ?thesis using reply_unwanted [OF v Some] e Cons.prems(2) by auto
    next
      case None
      obtain x y ok where g: "gotMetafile fs df (dp_HashValue r) (dp_Data r) = (x, y, ok)"
        using prod_cases3 by blast
      then have xy: "fs1 = x" "df1 = y" "res \<noteq> Some True" using reply_metafile [OF v None g] e by auto
      have m: "df_MetaHash df = Sum256 H []" using None Cons.prems(3) by simp
      have d: "dp_Data r = []" if "dp_HashValue r = df_MetaHash df"
      proof -
        have "Sum256 H (dp_Data r) = Sum256 H []" using that v m by (simp only: valid_reply_def)
        from Cons.prems(4) [OF _ this] show ?thesis by simp
      qed
      from g have y: "y = df \<or> y = with_metafile df (dp_Data r) \<and> dp_HashValue r = df_MetaHash df"
        unfolding gotMetafile_def Let_def with_metafile_def by (auto split: if_splits)
      then have "df_ChunksToDownload y = {||}"
      proof
        assume "y = with_metafile df (dp_Data r) \<and> dp_HashValue r = df_MetaHash df"
        then show ?thesis using d by (simp add: parse_metafile_def)
      qed (simp add: Cons.prems(2))
      moreover have "df_MetaHash y = Sum256 H []" using y m by auto
      ultimately show ?thesis using xy by simp
    qed
  qed
  then have k: "res \<noteq> Some True" "df_ChunksToDownload df1 = {||}"
    "df_Metafile df1 = None \<longrightarrow> df_MetaHash df1 = Sum256 H []" by blast+
  let ?dfm1 = "dfm\<lparr>dfm_downloadingFiles := fmupd src df1 (dfm_downloadingFiles dfm)\<rparr>"
  have "reply_results H fs dfm src (r # rs) = res # reply_results H fs1 ?dfm1 src rs"
    using Cons.prems(1) e k(1) by (simp add: ProcessDataReply_def Let_def)
  moreover have "Some True \<notin> set (reply_results H fs1 ?dfm1 src rs)"
    by (rule Cons.IH [OF _ k(2,3)]) (use Cons.prems(4) in auto)
  ultimately show ?case using k(1) by simp
qed simp

end
