(* ===== verification/FileTransfer.thy ===== *)
theory FileTransfer
  imports DownloadThread
begin

text \<open>
  Sharing and downloading together: the reachable states of the file system with the two
  managers over it, the invariant of both, and the properties of a transfer from one
  gossiper to another.
\<close>

section \<open>Reachable states\<close>

text \<open>From the start of a gossiper on: sharing, starting and abandoning a download, a data
  reply, and the user writing a file outside the two chunk directories.\<close>

inductive files_reach :: "digest \<Rightarrow> filesystem \<Rightarrow> filesystem \<Rightarrow> SharedFilesManager
    \<Rightarrow> DownloadingFilesManager \<Rightarrow> bool" for H fs0 where
  start: "InitSharedFilesManager fs0 = (fs1, sfm) \<Longrightarrow> InitDownloadingFilesManager fs1 = (fs2, dfm)
     \<Longrightarrow> files_reach H fs0 fs2 sfm dfm"
| share: "files_reach H fs0 fs sfm dfm \<Longrightarrow> ShareFile H fs sfm p = Inr (fs', sfm', r)
     \<Longrightarrow> files_reach H fs0 fs' sfm' dfm"
| request: "files_reach H fs0 fs sfm dfm \<Longrightarrow> download_name n
     \<Longrightarrow> files_reach H fs0 fs sfm (fst (StartDownloadingFromOrigin dfm src n h))"
| reply: "files_reach H fs0 fs sfm dfm \<Longrightarrow> ProcessDataReply H fs dfm src r = (fs', dfm', res)
     \<Longrightarrow> files_reach H fs0 fs' sfm dfm'"
| give_up: "files_reach H fs0 fs sfm dfm \<Longrightarrow> files_reach H fs0 fs sfm (DropDownloading dfm src)"
| user: "files_reach H fs0 fs sfm dfm \<Longrightarrow> outside (SharedFilesChunksPath fs) q
     \<Longrightarrow> outside (DownloadsChunksPath fs) q \<Longrightarrow> files_reach H fs0 (WriteFile fs q d) sfm dfm"

definition files_inv :: "digest \<Rightarrow> filesystem \<Rightarrow> SharedFilesManager \<Rightarrow> DownloadingFilesManager \<Rightarrow> bool" where
  "files_inv H fs sfm dfm \<longleftrightarrow> sfm_inv H fs sfm \<and> dfm_inv H fs dfm"

text \<open>A directory in which a gossiper can be started.\<close>

definition startable :: "filesystem \<Rightarrow> bool" where
  "startable fs \<longleftrightarrow> fs_closed fs \<and> clean_path (fs_cwd fs) \<and> node_at fs (fs_cwd fs) = Some Dir
     \<and> (\<forall>d. node_at fs (SharedFilesPath fs) \<noteq> Some (Data d))
     \<and> (\<forall>d. node_at fs (DownloadsPath fs) \<noteq> Some (Data d))"

section \<open>The invariant\<close>

lemma dl_shared_path: "dl_extends H fs fs' \<Longrightarrow> node_at fs (SharedFilesChunksPath fs @ q) = Some n
    \<Longrightarrow> node_at fs' (SharedFilesChunksPath fs @ q) = Some n"
  using dl_extendsD [of H fs fs' "SharedFilesChunksPath fs @ q" n] by auto

lemma sfm_inv_dl:
  assumes "sfm_inv H fs sfm" "dl_extends H fs fs'" "fs_closed fs'"
  shows "sfm_inv H fs' sfm"
proof -
  have c: "SharedFilesChunksPath fs' = SharedFilesChunksPath fs" "fs_cwd fs' = fs_cwd fs"
    using dl_extends_cwd [OF assms(2)] by simp_all
  have "node_at fs (SharedFilesChunksPath fs @ []) = Some Dir"
    using sfm_invD(1) [OF assms(1)] by (simp add: shared_dirs_def)
  from dl_shared_path [OF assms(2) this] have "shared_dirs fs'"
    using assms(3) c by (simp add: shared_dirs_def)
  moreover have "sf_ok H fs' sf" if "sf_ok H fs sf" for sf
    using that dl_shared_path [OF assms(2)] unfolding sf_ok_def c by blast
  ultimately show ?thesis using assms(1) unfolding sfm_inv_def c by blast
qed

lemma store_chunk_outside:
  assumes "foldl (store_chunk H p) (fs, sl0, st0) cs = (fs', sl, st)" "outside p q"
  shows "node_at fs' q = node_at fs q"
  using assms(1)
proof (induction cs arbitrary: fs sl0 st0)
  case (Cons c cs)
  have "q \<noteq> p @ [x]" for x using assms(2) by (auto simp: outside_def)
  with Cons show ?case by (auto simp: store_chunk_eq node_WriteFile)
qed simp

lemma shareFile_outside:
  assumes "shared_dirs fs" "shareFile H fs path = Inr (fs', r)" "plain_name (Base path)"
    and o: "outside (SharedFilesChunksPath fs) q"
  shows "node_at fs' q = node_at fs q"
proof -
  let ?cp = "SharedFilesChunksPath fs @ [Base path]"
  have ne: "q \<noteq> SharedFilesChunksPath fs @ x" for x using outside_not_below [OF o] .
  have o': "outside ?cp q" using outside_append [OF o] .
  have m: "node_at (Mkdir fs ?cp) q = node_at fs q" using ne by (auto simp: node_Mkdir)
  from assms(1-3) show ?thesis
  proof (cases rule: shareFile_cases)
    case (shared bs fs1 sl st)
    have "node_at fs' q = node_at fs1 q" unfolding shared(5) using ne by (auto simp: node_WriteFile)
    then show ?thesis using store_chunk_outside [OF shared(4) o'] m by simp
  qed (use m in simp_all)
qed

lemma downloads_outside_shared: "outside (SharedFilesChunksPath fs) (DownloadsChunksPath fs @ x)"
  by (simp add: outside_def)

lemma ShareFile_keeps_downloads:
  assumes "sfm_inv H fs sfm" "dfm_inv H fs dfm" "ShareFile H fs sfm p = Inr (fs', sfm', r)"
  shows "dfm_inv H fs' dfm"
proof -
  let ?path = "Join (SharedFilesPath fs) p"
  from assms(3) obtain r0 where s: "shareFile H fs ?path = Inr (fs', r0)"
    unfolding ShareFile_def by (auto split: option.splits if_splits)
  note sh = shareFile_safe [OF assms(1) s]
  have c: "clean_path ?path" using sfm_invD(2) [OF assms(1)] by (simp add: Join_clean)
  note dd = dfm_invD(1) [OF assms(2)]
  have "downloads_dirs fs'"
  proof (cases "?path = []")
    case True
    then have "shareFile H fs ?path = Inr (fs, None)"
      using shareFile_root downloads_dirsD(1) [OF dd] by metis
    then show ?thesis using s dd by simp
  next
    case False
    have same: "node_at fs' (DownloadsChunksPath fs @ x) = node_at fs (DownloadsChunksPath fs @ x)" for x
      using shareFile_outside [OF sfm_invD(1) [OF assms(1)] s Base_plain [OF c False] downloads_outside_shared] .
    have p: "DownloadsChunksPath fs' = DownloadsChunksPath fs" using sh fs_extends_cwd by simp
    show ?thesis
      using dd sh same [of "[]"] same unfolding downloads_dirs_def p shared_dirs_def
      by (simp del: paths_eq)
  qed
  then show ?thesis
    using dfm_inv_extends [OF assms(2) fs_extends_dl] sh by blast
qed

lemma user_write:
  assumes "outside p q"
  shows "node_at (WriteFile fs q d) (p @ x) = node_at fs (p @ x)"
  using assms by (auto simp: outside_def node_WriteFile)

lemma files_inv_user:
  assumes "files_inv H fs sfm dfm" "outside (SharedFilesChunksPath fs) q" "outside (DownloadsChunksPath fs) q"
  shows "files_inv H (WriteFile fs q d) sfm dfm"
proof -
  let ?fs = "WriteFile fs q d"
  note S = user_write [OF assms(2), of fs d] and D = user_write [OF assms(3), of fs d]
  have p: "SharedFilesChunksPath ?fs = SharedFilesChunksPath fs" "fs_cwd ?fs = fs_cwd fs"
    "DownloadsChunksPath ?fs = DownloadsChunksPath fs" by simp_all
  have i: "sfm_inv H fs sfm" "dfm_inv H fs dfm" using assms(1) by (simp_all add: files_inv_def)
  have cl: "fs_closed ?fs" using dfm_invD(1) [OF i(2)] downloads_dirsD(1) by auto
  have "sf_ok H ?fs sf = sf_ok H fs sf" for sf unfolding sf_ok_def p S ..
  moreover have "shared_dirs ?fs"
    using sfm_invD(1) [OF i(1)] S [of "[]"] cl unfolding shared_dirs_def p by simp
  ultimately have "sfm_inv H ?fs sfm" using i(1) unfolding sfm_inv_def p by simp
  moreover have "df_ok H ?fs df = df_ok H fs df" for df unfolding df_ok_def p D ..
  then have "dfm_inv H ?fs dfm"
    using i(2) D [of "[]"] cl unfolding dfm_inv_def downloads_dirs_def p D by simp
  ultimately show ?thesis by (simp add: files_inv_def)
qed

lemma files_inv_start:
  assumes "startable fs0" "InitSharedFilesManager fs0 = (fs1, sfm)" "InitDownloadingFilesManager fs1 = (fs2, dfm)"
  shows "files_inv H fs2 sfm dfm"
proof -
  have st: "fs_closed fs0" "clean_path (fs_cwd fs0)" "node_at fs0 (fs_cwd fs0) = Some Dir"
    "\<And>d. node_at fs0 (SharedFilesPath fs0) \<noteq> Some (Data d)"
    "\<And>d. node_at fs0 (DownloadsPath fs0) \<noteq> Some (Data d)"
    using assms(1) unfolding startable_def by blast+
  note s = Init_shared [OF st(1-4) assms(2), of H]
  then have s1: "sfm_inv H fs1 sfm" "sfm_sharedFiles sfm = fmempty" "fs_cwd fs1 = fs_cwd fs0"
    "\<And>q. outside (SharedFilesPath fs0) q \<Longrightarrow> node_at fs1 q = node_at fs0 q" by blast+
  have "node_at fs1 (fs_cwd fs1) = Some Dir" "\<And>d. node_at fs1 (DownloadsPath fs1) \<noteq> Some (Data d)"
    using s1(3,4) st(3,5) by (simp_all add: outside_def)
  from Init_downloads [OF _ this assms(3), of H] sfm_invD(1) [OF s1(1)]
  have d: "dfm_inv H fs2 dfm" "fs_cwd fs2 = fs_cwd fs1"
    "\<And>q. outside (DownloadsPath fs1) q \<Longrightarrow> node_at fs2 q = node_at fs1 q"
    unfolding shared_dirs_def by blast+
  have "node_at fs2 (SharedFilesChunksPath fs1) = node_at fs1 (SharedFilesChunksPath fs1)"
    by (rule d(3)) (simp add: outside_def)
  moreover have "fs_closed fs2" using dfm_invD(1) [OF d(1)] downloads_dirsD(1) by blast
  ultimately have "sfm_inv H fs2 sfm"
    using s1(1,2) d(2) by (simp add: sfm_inv_def shared_dirs_def)
  with d(1) show ?thesis by (simp add: files_inv_def)
qed

lemma files_reach_inv:
  assumes "files_reach H fs0 fs sfm dfm" "startable fs0" shows "files_inv H fs sfm dfm"
  using assms
proof (induction rule: files_reach.induct)
  case start
  then show ?case using files_inv_start by blast
next
  case share
  then show ?case using ShareFile_inv ShareFile_keeps_downloads unfolding files_inv_def by metis
next
  case request
  then show ?case using Start_inv unfolding files_inv_def by metis
next
  case (reply fs sfm dfm src r fs' dfm' res)
  then have i: "sfm_inv H fs sfm" "dfm_inv H fs dfm" by (simp_all add: files_inv_def)
  note p = ProcessDataReply_inv [OF i(2) reply.hyps(2)]
  then have "fs_closed fs'" using dfm_invD(1) downloads_dirsD(1) by blast
  then show ?case using sfm_inv_dl [OF i(1)] p by (simp add: files_inv_def)
next
  case give_up
  then show ?case using Drop_inv unfolding files_inv_def by metis
next
  case user
  then show ?case using files_inv_user by metis
qed

end
