(* ===== verification/FileProps.thy ===== *)
theory FileProps
  imports FileTransfer
begin

text \<open>
  The properties of sharing and downloading over the reachable states of
  \<open>FileTransfer\<close>, with their witnesses. The witnesses use a digest that puts the length in front, one
  shared file of three bytes and an empty downloader.
\<close>

section \<open>A small world for the witnesses\<close>

definition pad :: digest where
  "pad d = word_of_nat (length d) # d"

definition disk_of :: "byte list \<Rightarrow> filesystem" where
  "disk_of d = \<lparr>fs_cwd = [], fs_nodes = fmupd [''_SharedFiles'', ''f''] (Data d)
     (fmupd [''_SharedFiles''] Dir (fmupd [] Dir fmempty))\<rparr>"

definition empty_disk :: filesystem where
  "empty_disk = \<lparr>fs_cwd = [], fs_nodes = fmupd [] Dir fmempty\<rparr>"

lemma disk_startable: "startable (disk_of d)" "startable empty_disk"
  by (auto simp: startable_def fs_closed_def disk_of_def empty_disk_def clean_path_def split: if_splits)

definition shared_disk :: "byte list \<Rightarrow> filesystem" where
  "shared_disk d = fst (InitDownloadingFilesManager (fst (InitSharedFilesManager (disk_of d))))"

definition fresh_disk :: filesystem where
  "fresh_disk = fst (InitDownloadingFilesManager (fst (InitSharedFilesManager empty_disk)))"

definition no_shared :: SharedFilesManager where
  "no_shared = \<lparr>sfm_sharedFiles = fmempty\<rparr>"

definition no_downloads :: DownloadingFilesManager where
  "no_downloads = \<lparr>dfm_downloadingFiles = fmempty, dfm_downloadedFiles = fmempty\<rparr>"

lemma reach_started:
  "files_reach H (disk_of d) (shared_disk d) no_shared no_downloads"
  "files_reach H empty_disk fresh_disk no_shared no_downloads"
  by (rule files_reach.start [of _ "fst (InitSharedFilesManager _)"],
      simp add: InitSharedFilesManager_def Let_def no_shared_def,
      simp add: InitDownloadingFilesManager_def Let_def no_downloads_def shared_disk_def fresh_disk_def)+

lemma shared_disk_eq: "fs_cwd (shared_disk d) = []"
  "node_at (shared_disk d) = (\<lambda>q. if q = [''_Downloads'', ''chunks''] then Some Dir
     else if q = [''_Downloads''] then Some Dir else if q = [''_SharedFiles'', ''chunks''] then Some Dir
     else node_at (disk_of d) q)"
  by (auto simp: shared_disk_def InitDownloadingFilesManager_def InitSharedFilesManager_def Let_def
      disk_of_def IsNotExist_def os_Stat_def Mkdir_def)

lemma fresh_disk_eq: "fs_cwd fresh_disk = []"
  "node_at fresh_disk = (\<lambda>q. if q = [''_Downloads'', ''chunks''] then Some Dir
     else if q = [''_Downloads''] then Some Dir else if q = [''_SharedFiles'', ''chunks''] then Some Dir
     else if q = [''_SharedFiles''] then Some Dir else node_at empty_disk q)"
  by (auto simp: fresh_disk_def InitDownloadingFilesManager_def InitSharedFilesManager_def Let_def
      empty_disk_def IsNotExist_def os_Stat_def Mkdir_def)

section \<open>Sharing\<close>

lemma returns_Let: "(\<And>x. \<exists>r. f x = Inr r) \<Longrightarrow> \<exists>r. Let e f = Inr r"
  by (simp add: Let_def)

lemma returns_if: "\<exists>r. a = Inr r \<Longrightarrow> \<exists>r. b = Inr r \<Longrightarrow> \<exists>r. (if c then a else b) = Inr r"
  by simp

lemma returns_option: "\<exists>r. a = Inr r \<Longrightarrow> (\<And>x. \<exists>r. f x = Inr r) \<Longrightarrow> \<exists>r. (case m of None \<Rightarrow> a | Some x \<Rightarrow> f x) = Inr r"
  by (cases m) auto

lemma returns_prod: "(\<And>x y. \<exists>r. f x y = Inr r) \<Longrightarrow> \<exists>r. (case p of (x, y) \<Rightarrow> f x y) = Inr r"
  by (cases p) auto

lemma returns_Inr: "\<exists>r. Inr x = Inr r"
  by simp

lemmas returns_intros = returns_Let returns_if returns_option returns_prod returns_Inr

text \<open>Sharing panics exactly when a part of the path is a regular file: the failed
  \<open>Stat\<close> is not a not-exist error, and the code reads its nil result.\<close>
lemma share_file_panics:
  "ShareFile H fs sfm p = Inl e \<longleftrightarrow>
     e = NilDereference \<and> os_Stat fs (Join (SharedFilesPath fs) p) = Inl NotDirectory"
proof -
  have k: "\<exists>r. shareFile H fs path = Inr r" if "os_Stat fs path = Inr n" for path n
  proof (cases n)
    case (Data d)
    then show ?thesis
      unfolding shareFile_def that sum.case Data fsnode.case by (intro returns_intros)
  qed (simp add: shareFile_def that)
  have "shareFile H fs path = Inl e \<longleftrightarrow> e = NilDereference \<and> os_Stat fs path = Inl NotDirectory" for path
  proof (cases "os_Stat fs path")
    case (Inl x)
    then show ?thesis by (cases x) (auto simp: shareFile_def)
  next
    case (Inr n)
    then show ?thesis using k [OF Inr] by auto
  qed
  then show ?thesis by (simp add: ShareFile_def)
qed

lemma ShareFile_shared:
  assumes "ShareFile H fs sfm p = Inr (fs', sfm', Some (name, mh, sz))"
  obtains sf where "shareFile H fs (Join (SharedFilesPath fs) p) = Inr (fs', Some sf)"
    "sf_Name sf = name" "sf_MetaHash sf = mh" "sf_Size sf = sz"
    "sfm' = sfm\<lparr>sfm_sharedFiles := fmupd mh sf (sfm_sharedFiles sfm)\<rparr>"
    "\<not> has_key (sfm_sharedFiles sfm) mh"
  using assms unfolding ShareFile_def by (auto split: option.splits if_splits)

lemma share_path_plain:
  assumes "sfm_inv H fs sfm" "node_at fs (Join (SharedFilesPath fs) p) = Some (Data bs)"
  shows "plain_name (Base (Join (SharedFilesPath fs) p))"
proof (rule Base_plain)
  show "clean_path (Join (SharedFilesPath fs) p)" using sfm_invD(2) [OF assms(1)] by (simp add: Join_clean)
  show "Join (SharedFilesPath fs) p \<noteq> []"
    using assms sfm_invD(1) [OF assms(1)] fs_closed_root unfolding shared_dirs_def by fastforce
qed

lemma share_content:
  assumes "sfm_inv H fs sfm" "node_at fs (Join (SharedFilesPath fs) p) = Some (Data bs)"
    and "shareFile H fs (Join (SharedFilesPath fs) p) = Inr (fs', Some sf)"
  shows "length bs \<le> MaxFileSize" "sf_Size sf = length bs"
    "sf_MetaSlice sf = concat (map (Sum256 H) (blocks FileChunkSize bs))"
    "sf_MetaHash sf = Sum256 H (sf_MetaSlice sf)"
    "sf_MetaSet sf = fset_of_list (map (Sum256 H) (blocks FileChunkSize bs))"
    "last_with H (blocks FileChunkSize bs) h = Some d \<Longrightarrow> \<exists>q. node_at fs' q = Some (Data d)"
proof -
  from shareFile_content [OF sfm_invD(1) [OF assms(1)] assms(3) share_path_plain [OF assms(1,2)]]
  obtain b where "node_at fs (Join (SharedFilesPath fs) p) = Some (Data b)" "length b \<le> MaxFileSize"
    "sf_Size sf = length b" "sf_MetaSlice sf = concat (map (Sum256 H) (blocks FileChunkSize b))"
    "sf_MetaHash sf = Sum256 H (sf_MetaSlice sf)"
    "sf_MetaSet sf = fset_of_list (map (Sum256 H) (blocks FileChunkSize b))"
    "\<And>h d. last_with H (blocks FileChunkSize b) h = Some d \<Longrightarrow> \<exists>q. node_at fs' q = Some (Data d)"
    by metis
  moreover from this(1) assms(2) have "b = bs" by simp
  ultimately show "length bs \<le> MaxFileSize" "sf_Size sf = length bs"
    "sf_MetaSlice sf = concat (map (Sum256 H) (blocks FileChunkSize bs))"
    "sf_MetaHash sf = Sum256 H (sf_MetaSlice sf)"
    "sf_MetaSet sf = fset_of_list (map (Sum256 H) (blocks FileChunkSize bs))"
    "last_with H (blocks FileChunkSize bs) h = Some d \<Longrightarrow> \<exists>q. node_at fs' q = Some (Data d)"
    by blast+
qed

lemma number_of_chunks:
  assumes "length bs \<le> MaxFileSize" shows "length (blocks FileChunkSize bs) \<le> FileChunkSize div 32"
proof -
  have "length (blocks FileChunkSize bs) = (length bs + FileChunkSize - 1) div FileChunkSize"
    by (simp add: length_blocks)
  also have "\<dots> \<le> (MaxFileSize + FileChunkSize - 1) div FileChunkSize"
    using assms by (intro div_le_mono) simp
  also have "\<dots> = FileChunkSize div 32" by (simp add: MaxFileSize_def FileChunkSize_def)
  finally show ?thesis .
qed

lemma length_metaslice: "length (concat (map (Sum256 H) cs)) = 32 * length cs"
  by (induction cs) auto

text \<open>C28: What a successful share publishes: the metafile is the sequence of the hashes of the
  chunks, the chunks are non-empty, at most a chunk size long and concatenate to the file,
  and the metafile itself is no longer than a chunk, so that it fits where a chunk fits.\<close>
theorem shared_metafile_describes_file:
  assumes "files_reach H fs0 fs sfm dfm" "startable fs0"
    and "node_at fs (Join (SharedFilesPath fs) p) = Some (Data bs)"
    and "ShareFile H fs sfm p = Inr (fs', sfm', Some (name, mh, sz))"
  shows "\<exists>sf. fmlookup (sfm_sharedFiles sfm') mh = Some sf \<and> mh = Sum256 H (sf_MetaSlice sf)
     \<and> parse_metafile (sf_MetaSlice sf) = map (Sum256 H) (split_chunks bs)
     \<and> concat (split_chunks bs) = bs \<and> sz = length bs
     \<and> (\<forall>c \<in> set (split_chunks bs). c \<noteq> [] \<and> length c \<le> FileChunkSize)
     \<and> length (sf_MetaSlice sf) \<le> FileChunkSize"
proof -
  have i: "sfm_inv H fs sfm" using files_reach_inv [OF assms(1,2)] by (simp add: files_inv_def)
  obtain sf where s: "shareFile H fs (Join (SharedFilesPath fs) p) = Inr (fs', Some sf)"
    "sf_Name sf = name" "sf_MetaHash sf = mh" "sf_Size sf = sz"
    "sfm' = sfm\<lparr>sfm_sharedFiles := fmupd mh sf (sfm_sharedFiles sfm)\<rparr>"
    by (rule ShareFile_shared [OF assms(4)])
  note c = share_content [OF i assms(3) s(1)]
  have "length (sf_MetaSlice sf) \<le> FileChunkSize"
    using number_of_chunks [OF c(1)] unfolding c(3) length_metaslice by (simp add: FileChunkSize_def)
  moreover have "parse_metafile (sf_MetaSlice sf) = map (Sum256 H) (split_chunks bs)"
    unfolding c(3) split_chunks_blocks by (rule parse_metafile_concat) auto
  moreover have "\<forall>x \<in> set (split_chunks bs). x \<noteq> [] \<and> length x \<le> FileChunkSize"
    unfolding split_chunks_blocks using blocks_sizes by metis
  ultimately show ?thesis
    using s c(2,4) by (auto simp: split_chunks_blocks)
qed

text \<open>A file that is too large is refused, but its chunk directory stays: no later attempt
  to share a file under that path succeeds, whatever the user has written there since.\<close>
theorem refused_share_blocks_path:
  assumes "files_reach H fs0 fs sfm dfm" "startable fs0"
    and "path = Join (SharedFilesPath fs) p" "node_at fs path = Some (Data bs)" "MaxFileSize < length bs"
    and "ShareFile H fs sfm p = Inr (fs', sfm', r)" "outside (SharedFilesChunksPath fs) path"
  shows "r = None \<and> (\<forall>d sfm2. ShareFile H (WriteFile fs' path d) sfm2 p = Inr (WriteFile fs' path d, sfm2, None))"
proof -
  have i: "sfm_inv H fs sfm" using files_reach_inv [OF assms(1,2)] by (simp add: files_inv_def)
  note sd = sfm_invD(1) [OF i]
  have b: "plain_name (Base path)" unfolding assms(3) by (rule share_path_plain [OF i assms(4) [unfolded assms(3)]])
  let ?cp = "SharedFilesChunksPath fs @ [Base path]"
  from assms(6) obtain r0 where s: "shareFile H fs path = Inr (fs', r0)"
    unfolding ShareFile_def assms(3) by (auto split: option.splits if_splits)
  have r: "r = None" if "r0 = None"
    using assms(6) s that unfolding ShareFile_def assms(3) by simp
  from sd s b have k: "r0 = None \<and> (fs' = fs \<and> node_at fs ?cp \<noteq> None \<or> node_at fs' ?cp = Some Dir)"
  proof (cases rule: shareFile_cases)
    case refused
    have "node_at fs ?cp \<noteq> None"
    proof
      assume n: "node_at fs ?cp = None"
      then have "IsNotExist fs ?cp"
        using IsNotExist_in_dir [of fs "SharedFilesChunksPath fs" "Base path"] sd by (simp add: shared_dirs_def)
      moreover have "shareFile H fs path = (if \<not> IsNotExist fs ?cp then Inr (fs, None) else Inr (Mkdir fs ?cp, None))"
        using assms(4,5) shared_dirs_stat [OF sd] b node_Mkdir_mono [OF assms(4)]
        by (simp add: shareFile_def os_Stat_def Let_def ReadFile_def)
      ultimately have "fs' = Mkdir fs ?cp" using s by simp
      then have "node_at fs' ?cp = Some Dir" using n sd by (simp add: node_Mkdir shared_dirs_def butlast_append)
      with n refused show False by simp
    qed
    with refused show ?thesis by simp
  next
    case (too_big bs')
    then show ?thesis using sd by (simp add: node_Mkdir shared_dirs_def butlast_append)
  next
    case (shared bs' fs1 sl st)
    then show ?thesis using assms(4,5) by simp
  qed
  have fr: "fs_extends fs fs' \<and> shared_dirs fs'" by (rule shareFile_frame [OF sd s b])
  have cw: "fs_cwd fs' = fs_cwd fs" using fr fs_extends_cwd by blast
  have "ShareFile H (WriteFile fs' path d) sfm2 p = Inr (WriteFile fs' path d, sfm2, None)" for d sfm2
  proof -
    let ?fs = "WriteFile fs' path d"
    have ne: "path \<noteq> SharedFilesChunksPath fs @ x" for x using outside_not_below [OF assms(7)] .
    have same: "node_at ?fs (SharedFilesChunksPath fs @ x) = node_at fs' (SharedFilesChunksPath fs @ x)" for x
      using ne [of x] by (auto simp: node_WriteFile)
    have p: "SharedFilesPath ?fs = SharedFilesPath fs" "SharedFilesChunksPath ?fs = SharedFilesChunksPath fs"
      using cw by simp_all
    have "node_at fs' path = Some (Data bs)" using fs_extendsD [OF _ assms(4)] fr by blast
    then obtain n where n: "node_at ?fs path = Some (Data n)"
      by (cases "path \<noteq> [] \<and> node_at fs' (butlast path) = Some Dir") (auto simp: node_WriteFile)
    have sd': "shared_dirs ?fs"
      using fr same [of "[]"] p unfolding shared_dirs_def by (auto simp: cw)
    have "node_at fs' ?cp \<noteq> None" using k by auto
    then have "node_at ?fs ?cp \<noteq> None" using same [of "[Base path]"] by simp
    then have "\<not> IsNotExist ?fs ?cp" by (metis IsNotExist_node)
    then have "shareFile H ?fs path = Inr (?fs, None)"
      using n b shared_dirs_stat [OF sd'] p by (simp add: shareFile_def os_Stat_def Let_def)
    then show ?thesis unfolding ShareFile_def p assms(3) [symmetric] by simp
  qed
  then show ?thesis using r k by blast
qed

section \<open>Serving\<close>


text \<open>In every reachable state each hash that a shared file's metafile lists, and the
  hash of the metafile, is answered, whatever the order in which the files are searched.\<close>
theorem shared_files_are_served:
  assumes "files_reach H fs0 fs sfm dfm" "startable fs0"
    and "fmlookup (sfm_sharedFiles sfm) k = Some sf" "range_order ks (sfm_sharedFiles sfm)"
    and "h = k \<or> h \<in> set (parse_metafile (sf_MetaSlice sf))"
  shows "\<exists>d. sfm_GetChunkOrMetafile ks fs sfm h = Some d \<and> Sum256 H d = h"
proof -
  have i: "sfm_inv H fs sfm" using files_reach_inv [OF assms(1,2)] by (simp add: files_inv_def)
  note ok = sfm_invD(4) [OF i assms(3)]
  have "\<exists>d. sfm_GetChunkOrMetafile ks fs sfm h = Some d"
    using assms(5)
  proof
    assume "h = k"
    moreover have "length k = 32" using sfm_invD(3) [OF i assms(3)] sf_okD(2) [OF ok] by auto
    ultimately show ?thesis using assms(3) by (simp add: sfm_GetChunkOrMetafile_def)
  next
    assume h: "h \<in> set (parse_metafile (sf_MetaSlice sf))"
    then have m: "h |\<in>| sf_MetaSet sf" using sf_okD(3) [OF ok] by (simp add: fset_of_list_elem)
    from sf_ok_chunk [OF ok m] have "length h = 32" by (metis length_Sum256)
    from GetChunk_present [OF i assms(4,3) m this] show ?thesis .
  qed
  then show ?thesis using sfm_answer_verifies [OF i] by blast
qed

section \<open>Downloading\<close>


text \<open>The data a sharing gossiper holds: what is on its disk, and the metafiles.\<close>

definition held :: "filesystem \<Rightarrow> SharedFilesManager \<Rightarrow> byte list set" where
  "held fs sfm = {d. \<exists>q. node_at fs q = Some (Data d)}
     \<union> {sf_MetaSlice sf | k sf. fmlookup (sfm_sharedFiles sfm) k = Some sf}"

lemma getChunk_held: "getChunk fs sf h = Some d \<Longrightarrow> \<exists>q. node_at fs q = Some (Data d)"
  by (auto simp: getChunk_def Let_def ReadFile_Some split: if_splits)

lemma find_shared_held: "find_shared_chunk fs sfm h ks = Some d \<Longrightarrow> \<exists>q. node_at fs q = Some (Data d)"
  by (induction ks) (auto split: option.splits if_splits dest: getChunk_held)

lemma answer_held: "sfm_GetChunkOrMetafile ks fs sfm h = Some d \<Longrightarrow> d \<in> held fs sfm"
  unfolding sfm_GetChunkOrMetafile_def held_def
  by (auto split: if_splits option.splits dest: find_shared_held)

text \<open>A non-empty file that one gossiper shares arrives at another: with the sharer
  answering its requests, the downloading goroutine ends after at most 257 replies, and the
  file it has written is the shared one, byte by byte. Needed is that no two pieces of
  data which the sharer holds, the chunks of the file included, collide; that the
  downloader has no download of that name or from that origin; and nothing of the order in
  which it asks for the chunks.\<close>
lemma shared_file_arrives_intact:
  assumes "files_reach H fsA0 fsA sfmA dfmA" "startable fsA0"
    and "node_at fsA (Join (SharedFilesPath fsA) p) = Some (Data bs)" "bs \<noteq> []"
    and "ShareFile H fsA sfmA p = Inr (fsA', sfmA', Some (name, mh, sz))"
    and "range_order ks (sfm_sharedFiles sfmA')"
    and "inj_on (Sum256 H) (held fsA' sfmA' \<union> set (split_chunks bs))"
    and "files_reach H fsB0 fsB sfmB dfmB" "startable fsB0" "download_name n"
    and "\<not> has_key (dfm_downloadingFiles dfmB) src"
    and "node_at fsB (DownloadsChunksPath fsB @ [n]) = None"
    and "node_at fsB (DownloadsPath fsB @ [n]) \<noteq> Some Dir" "set_order ord"
  shows "\<exists>fs' dfm'. fetch H ord src (sfm_GetChunkOrMetafile ks fsA' sfmA') 257
       (fsB, fst (StartDownloadingFromOrigin dfmB src n mh), start_thread mh) mh = Some (fs', dfm')
     \<and> node_at fs' (DownloadsPath fsB @ [n]) = Some (Data bs)
     \<and> \<not> has_key (dfm_downloadingFiles dfm') src \<and> has_key (dfm_downloadedFiles dfm') mh"
proof -
  let ?ans = "sfm_GetChunkOrMetafile ks fsA' sfmA'" and ?cs = "blocks FileChunkSize bs"
  have i: "sfm_inv H fsA sfmA" using files_reach_inv [OF assms(1,2)] by (simp add: files_inv_def)
  obtain sf where s: "shareFile H fsA (Join (SharedFilesPath fsA) p) = Inr (fsA', Some sf)"
    "sf_Name sf = name" "sf_MetaHash sf = mh" "sf_Size sf = sz"
    "sfmA' = sfmA\<lparr>sfm_sharedFiles := fmupd mh sf (sfm_sharedFiles sfmA)\<rparr>"
    by (rule ShareFile_shared [OF assms(5)])
  note c = share_content [OF i assms(3) s(1)]
  have l: "fmlookup (sfm_sharedFiles sfmA') mh = Some sf" using s(5) by simp
  have reachA: "files_reach H fsA0 fsA' sfmA' dfmA" by (rule files_reach.share [OF assms(1,5)])
  have pm: "parse_metafile (sf_MetaSlice sf) = map (Sum256 H) ?cs"
    unfolding c(3) by (rule parse_metafile_concat) auto
  have lm: "length mh = 32" using s(3) c(4) by auto
  have ne: "?cs \<noteq> []" using assms(4) by (simp add: blocks_step)
  have served: "\<exists>d. ?ans h = Some d \<and> Sum256 H d = h" if "h \<in> set (parse_metafile (sf_MetaSlice sf))" for h
    by (rule shared_files_are_served [OF reachA assms(2) l assms(6)]) (use that in blast)
  have exact: "the (?ans (Sum256 H x)) = x" if "x \<in> set ?cs" for x
  proof -
    from that obtain d where d: "?ans (Sum256 H x) = Some d" "Sum256 H d = Sum256 H x"
      using served unfolding pm by auto
    have "d \<in> held fsA' sfmA' \<union> set (split_chunks bs)" "x \<in> held fsA' sfmA' \<union> set (split_chunks bs)"
      using answer_held [OF d(1)] that by (simp_all add: split_chunks_blocks)
    from inj_onD [OF assms(7) d(2) this] d(1) show ?thesis by simp
  qed
  have content: "concat (map (\<lambda>h. the (?ans h)) (parse_metafile (sf_MetaSlice sf))) = bs"
  proof -
    have "map (\<lambda>h. the (?ans h)) (map (Sum256 H) ?cs) = ?cs"
      using exact by (simp add: map_idI)
    then show ?thesis unfolding pm by (simp del: map_map)
  qed
  have st: "fmlookup (dfm_downloadingFiles (fst (StartDownloadingFromOrigin dfmB src n mh))) src
      = Some (initDownloadingFile n mh)"
    using assms(11) by (simp add: StartDownloadingFromOrigin_def)
  have iB: "dfm_inv H fsB (fst (StartDownloadingFromOrigin dfmB src n mh))"
    using Start_inv [OF _ assms(10)] files_reach_inv [OF assms(8,9)] by (simp add: files_inv_def)
  have am: "?ans mh = Some (sf_MetaSlice sf)" using l lm by (simp add: sfm_GetChunkOrMetafile_def)
  have len: "length (parse_metafile (sf_MetaSlice sf)) \<le> 256"
    using number_of_chunks [OF c(1)] unfolding pm by (simp add: FileChunkSize_def)
  have dv: "32 dvd length (sf_MetaSlice sf)" unfolding c(3) length_metaslice by simp
  have np: "parse_metafile (sf_MetaSlice sf) \<noteq> []" using ne unfolding pm by simp
  have mh: "Sum256 H (sf_MetaSlice sf) = mh" using s(3) c(4) by simp
  have "Suc 256 = 257" by simp
  with fetch_file [OF iB st am mh dv np assms(14) served assms(12,13) len, of "start_thread mh"]
  show ?thesis unfolding content by metis
qed


text \<open>C31: Without replies the downloading goroutine asks again four times and gives up at
  the fifth timeout; the origin is then free for another download.\<close>
lemma download_gives_up:
  "timeouts H ord src 5 (fs, dfm, start_thread h) = ((fs, DropDownloading dfm src, None), [h, h, h, h])
   \<and> \<not> has_key (dfm_downloadingFiles (DropDownloading dfm src)) src
   \<and> snd (StartDownloadingFromOrigin (DropDownloading dfm src) src n h')"
  by (simp add: eval_nat_numeral download_step_def start_thread_def FileDownloadTimeoutsLimit_def Let_def
      DropDownloading_def StartDownloadingFromOrigin_def)

section \<open>Witnesses\<close>

text \<open>The file \<open>f\<close> of three bytes, shared.\<close>

definition f_hash :: hash where "f_hash = Sum256 pad [1, 2, 3]"
definition f_meta :: hash where "f_meta = Sum256 pad f_hash"
abbreviation "cpf \<equiv> [''_SharedFiles'', ''chunks'', ''f'']"
definition disk1 :: filesystem where
  "disk1 = WriteFile (WriteFile (Mkdir (shared_disk [1, 2, 3]) cpf) (cpf @ [GetChunkFileName f_hash]) [1, 2, 3])
     (cpf @ [GetMetafileName f_meta]) f_hash"
definition sf1 :: sharedFile where
  "sf1 = \<lparr>sf_Name = ''f'', sf_Size = 3, sf_MetaHash = f_meta, sf_MetaSlice = f_hash, sf_MetaSet = {|f_hash|}\<rparr>"
definition sfm1 :: SharedFilesManager where
  "sfm1 = \<lparr>sfm_sharedFiles = fmupd f_meta sf1 fmempty\<rparr>"

lemma disk_nodes: "node_at (disk_of d) = (\<lambda>q. if q = [''_SharedFiles'', ''f''] then Some (Data d)
    else if q = [''_SharedFiles''] then Some Dir else if q = [] then Some Dir else None)"
  by (auto simp: disk_of_def)

lemma plain_f: "plain_name ''f''" by (simp add: plain_name_def)

lemma split_f: "split_chunks [1, 2, 3] = [[1, 2, 3]]"
  by (simp add: split_chunks_blocks blocks_short FileChunkSize_def)

lemma share_f: "shareFile pad (shared_disk [1, 2, 3]) [''_SharedFiles'', ''f''] = Inr (disk1, Some sf1)"
proof -
  let ?fs = "shared_disk [1, 2, 3]"
  have st: "os_Stat ?fs [''_SharedFiles'', ''f''] = Inr (Data [1, 2, 3])"
    by (simp add: os_Stat_def shared_disk_eq disk_nodes)
  have sd: "shared_dirs ?fs"
    using files_reach_inv [OF reach_started(1) [of pad] disk_startable(1)]
    by (simp add: files_inv_def sfm_inv_def)
  have cp: "Join (SharedFilesChunksPath ?fs) ''f'' = cpf" using plain_f by (simp add: shared_disk_eq(1))
  have ne: "IsNotExist ?fs cpf"
    by (simp add: IsNotExist_def os_Stat_def shared_disk_eq disk_nodes upt_rec)
  have rd: "ReadFile (Mkdir ?fs cpf) [''_SharedFiles'', ''f''] = Some [1, 2, 3]"
    by (simp add: ReadFile_def node_Mkdir shared_disk_eq disk_nodes)
  have mf: "Join cpf (hex_EncodeToString f_meta @ ''.metafile'') = cpf @ [GetMetafileName f_meta]"
    using file_names_plain(3) [of f_meta] by (simp add: GetMetafileName_def)
  have b: "Base [''_SharedFiles'', ''f''] = ''f''" by (simp add: Base_def)
  show ?thesis
    unfolding shareFile_def st sum.case fsnode.case
    using shared_dirs_stat [OF sd]
    by (simp add: Let_def b cp ne rd split_f MaxFileSize_def FileChunkSize_def store_chunk_eq
        f_hash_def [symmetric] f_meta_def [symmetric] mf disk1_def sf1_def del: paths_eq)
qed

lemma path_f: "Join (SharedFilesPath (shared_disk [1, 2, 3])) ''f'' = [''_SharedFiles'', ''f'']"
  using plain_f by (simp add: shared_disk_eq(1))

lemma ShareFile_f: "ShareFile pad (shared_disk [1, 2, 3]) no_shared ''f'' = Inr (disk1, sfm1, Some (''f'', f_meta, 3))"
  unfolding ShareFile_def path_f share_f by (simp add: no_shared_def sfm1_def sf1_def)

lemma node_f: "node_at (shared_disk [1, 2, 3]) (Join (SharedFilesPath (shared_disk [1, 2, 3])) ''f'') = Some (Data [1, 2, 3])"
  unfolding path_f by (simp add: shared_disk_eq disk_nodes)

lemma disk1_data: "node_at disk1 q = Some (Data d) \<Longrightarrow> d = [1, 2, 3] \<or> d = f_hash"
  by (auto simp: disk1_def node_WriteFile node_Mkdir shared_disk_eq disk_nodes split: if_splits)

lemma reach_shared: "files_reach pad (disk_of [1, 2, 3]) disk1 sfm1 no_downloads"
  by (rule files_reach.share [OF reach_started(1) ShareFile_f])

theorem shared_metafile_describes_file_witness:
  "\<exists>sf. fmlookup (sfm_sharedFiles sfm1) f_meta = Some sf \<and> parse_metafile (sf_MetaSlice sf) = [f_hash]"
  using shared_metafile_describes_file [OF reach_started(1) disk_startable(1) node_f ShareFile_f]
  by (auto simp: split_f f_hash_def)


theorem shared_files_are_served_witness:
  "\<exists>d. sfm_GetChunkOrMetafile [f_meta] disk1 sfm1 f_hash = Some d \<and> Sum256 pad d = f_hash"
proof (rule shared_files_are_served [OF reach_shared disk_startable(1)])
  show "fmlookup (sfm_sharedFiles sfm1) f_meta = Some sf1" by (simp add: sfm1_def)
  show "range_order [f_meta] (sfm_sharedFiles sfm1)" by (simp add: range_order_def sfm1_def)
  have "parse_metafile (concat [f_hash]) = [f_hash]" by (rule parse_metafile_concat) (simp add: f_hash_def)
  then show "f_hash = f_meta \<or> f_hash \<in> set (parse_metafile (sf_MetaSlice sf1))" by (simp add: sf1_def)
qed

definition any_order :: "hash fset \<Rightarrow> hash list" where
  "any_order s = sorted_list_of_fset s"

lemma f_hashes: "f_hash = 3 # 1 # 2 # 3 # replicate 28 0" "f_meta = 32 # 3 # 1 # 2 # 3 # replicate 27 0"
  by (simp_all add: f_hash_def f_meta_def Sum256_def pad_def copy32_def)

lemma any_order: "set_order any_order"
  unfolding set_order_def any_order_def by (metis fset_inject fset_of_list.rep_eq sorted_list_of_fset.rep_eq sorted_list_of_set.set_sorted_key_list_of_set finite_fset)

lemma f_data_distinct: "inj_on (Sum256 pad) (held disk1 sfm1 \<union> set (split_chunks [1, 2, 3]))"
proof -
  have "held disk1 sfm1 \<union> set (split_chunks [1, 2, 3]) \<subseteq> {[1, 2, 3], f_hash}"
    using disk1_data by (auto simp: held_def sfm1_def sf1_def split_f split: if_splits)
  moreover have "inj_on (Sum256 pad) {[1, 2, 3], f_hash}"
    by (simp add: inj_on_def f_meta_def [symmetric] f_hash_def [symmetric]) (simp add: f_hashes)
  ultimately show ?thesis by (rule inj_on_subset [rotated])
qed


theorem refused_share_blocks_path_witness:
  "\<exists>fs' sfm'. ShareFile pad (shared_disk (replicate (MaxFileSize + 1) 0)) no_shared ''f'' = Inr (fs', sfm', None)
     \<and> (\<forall>d sfm2. ShareFile pad (WriteFile fs' [''_SharedFiles'', ''f''] d) sfm2 ''f''
          = Inr (WriteFile fs' [''_SharedFiles'', ''f''] d, sfm2, None))"
proof -
  let ?big = "replicate (MaxFileSize + 1) 0"
  let ?fs = "shared_disk ?big"
  have p: "[''_SharedFiles'', ''f''] = Join (SharedFilesPath ?fs) ''f''"
    using plain_f by (simp add: shared_disk_eq(1))
  have n: "node_at ?fs [''_SharedFiles'', ''f''] = Some (Data ?big)"
    by (simp only: shared_disk_eq disk_nodes) simp
  have "ShareFile pad ?fs no_shared ''f'' \<noteq> Inl e" for e
    unfolding share_file_panics p [symmetric] os_Stat_def n option.case by blast
  then obtain fs' sfm' r where sh: "ShareFile pad ?fs no_shared ''f'' = Inr (fs', sfm', r)"
    by (metis old.sum.exhaust prod_cases3)
  have "outside (SharedFilesChunksPath ?fs) [''_SharedFiles'', ''f'']"
    by (simp add: outside_def shared_disk_eq(1))
  from refused_share_blocks_path [OF reach_started(1) disk_startable(1) p n _ sh this] sh
  show ?thesis by simp
qed


end
