(* ===== verification/SendUtils.thy ===== *)
theory SendUtils
  imports Messages Utils Config
begin

text \<open>
  The orders that the command-line client, the route-rumoring thread and the gossiper itself
  send to the client port (\<open>utils/send-utils/SendUtils.go\<close>, \<open>client/main.go\<close>,
  \<open>gossiper/RouteRumoringThread.go\<close>). A definition returns the message that is handed to
  \<open>sendMessageToLocalPort\<close>, or none when the code returns before; the encoding and the
  socket are not modelled.
\<close>

definition SendRouteRumorMessage :: ClientMessage where
  "SendRouteRumorMessage = EmptyClientMessage\<lparr>cm_RouteRumor := Some ()\<rparr>"

definition SendRumorMessage :: "string \<Rightarrow> ClientMessage" where
  "SendRumorMessage message = EmptyClientMessage\<lparr>cm_Rumor := Some \<lparr>cr_Text = message\<rparr>\<rparr>"

definition SendPrivateMessage :: "string \<Rightarrow> string \<Rightarrow> ClientMessage" where
  "SendPrivateMessage message destination =
     EmptyClientMessage\<lparr>cm_Private := Some \<lparr>cp_Text = message, cp_Destination = destination\<rparr>\<rparr>"

definition SendToShareMessage :: "string \<Rightarrow> ClientMessage" where
  "SendToShareMessage path = EmptyClientMessage\<lparr>cm_ToShare := Some \<lparr>ts_Path = path\<rparr>\<rparr>"

definition SendToDownloadMessage :: "string \<Rightarrow> string \<Rightarrow> string \<Rightarrow> ClientMessage option" where
  "SendToDownloadMessage name hashString destination =
    (case hex_DecodeString hashString of
       None \<Rightarrow> None
     | Some hashValue \<Rightarrow>
        (case GetTypeStrictHash hashValue of
           None \<Rightarrow> None
         | Some typedHashValue \<Rightarrow>
             Some (EmptyClientMessage\<lparr>cm_ToDownload := Some \<lparr>td_Name = name,
               td_Destination = destination, td_HashValue = typedHashValue\<rparr>\<rparr>)))"

definition SendToSearchMessage :: "string list \<Rightarrow> u64 \<Rightarrow> ClientMessage" where
  "SendToSearchMessage keywords budget =
     EmptyClientMessage\<lparr>cm_ToSearch := Some \<lparr>sc_Keywords = keywords, sc_Budget = budget\<rparr>\<rparr>"

text \<open>The way to the gossiper: \<open>encode\<close> is \<open>protobuf.Encode\<close>, \<open>resolve\<close> is \<open>ResolveUDPAddr\<close> and
  \<open>dial\<close> whether \<open>Dial\<close> succeeds. The result is the datagram, or none. A failure of \<open>Dial\<close> is only
  logged; the connection is nil then, and the write to it panics.\<close>

definition sendMessageToLocalPort :: "(ClientMessage \<Rightarrow> byte list option) \<Rightarrow> (string \<Rightarrow> udpaddr option)
    \<Rightarrow> (udpaddr \<Rightarrow> bool) \<Rightarrow> ClientMessage \<Rightarrow> int \<Rightarrow> (udpaddr \<times> byte list) option go" where
  "sendMessageToLocalPort encode resolve dial cmsg port =
    (case encode cmsg of
       None \<Rightarrow> Inr None
     | Some packetBytes \<Rightarrow>
        (case resolve (LocalIp @ '':'' @ Itoa port) of
           None \<Rightarrow> Inr None
         | Some gossiperAddr \<Rightarrow>
             if dial gossiperAddr then Inr (Some (gossiperAddr, packetBytes)) else Inl NilDereference))"

section \<open>The command-line client\<close>

record client_args =
  ca_msg :: string
  ca_dest :: string
  ca_file :: string
  ca_request :: string
  ca_keywords :: string
  ca_budget :: int

definition client_main :: "client_args \<Rightarrow> ClientMessage option" where
  "client_main a =
    (if ca_dest a \<noteq> [] \<and> ca_msg a \<noteq> [] then Some (SendPrivateMessage (ca_msg a) (ca_dest a))
     else if ca_msg a \<noteq> [] then Some (SendRumorMessage (ca_msg a))
     else if ca_request a \<noteq> [] \<and> ca_file a \<noteq> [] then
       SendToDownloadMessage (ca_file a) (ca_request a) (ca_dest a)
     else if ca_file a \<noteq> [] then Some (SendToShareMessage (ca_file a))
     else if ca_keywords a \<noteq> [] then
       Some (SendToSearchMessage (strings_Split (ca_keywords a) (CHR '','')) (word_of_int (ca_budget a)))
     else None)"

section \<open>The route-rumoring thread\<close>

text \<open>The orders sent until the timer has fired \<open>n\<close> times.\<close>

definition StartRouteRumorsSpreading :: "int \<Rightarrow> nat \<Rightarrow> ClientMessage list" where
  "StartRouteRumorsSpreading rtimer n =
    (if rtimer \<le> 0 then [] else SendRouteRumorMessage # replicate n SendRouteRumorMessage)"

section \<open>Orders that arrive\<close>

lemma SendToDownload_encoded:
  "SendToDownloadMessage name (hex_EncodeToString h) destination =
    (if length h = 32 then Some (EmptyClientMessage\<lparr>cm_ToDownload := Some \<lparr>td_Name = name,
       td_Destination = destination, td_HashValue = h\<rparr>\<rparr>) else None)"
  by (simp add: SendToDownloadMessage_def)

end
