(* ===== verification/Search.thy ===== *)
theory Search
  imports DownloadingFilesManager SendUtils "HOL-Library.Signed_Division"
begin

text \<open>
  Searching for files: the matches of the running search
  (\<open>models/filesearching/CurrentSearchRequest.go\<close>, \<open>FullSearchMatch.go\<close>), the goroutine
  that widens it (\<open>startFileSearchingGoroutine\<close> in \<open>gossiper/Gossiper.go\<close>), and the split
  of a budget over the peers (\<open>processSearchRequest\<close>). Go's \<open>int\<close> is 64 bits wide:
  \<open>int64\<close> wraps, and division truncates towards zero.
\<close>

section \<open>The running search\<close>

record FullSearchMatch =
  fm_Filename :: string
  fm_Origin :: string
  fm_MetafileHash :: hash

record CurrentSearchRequest =
  csr_fullMatches :: "FullSearchMatch list"
  csr_isAlive :: bool
  csr_gossiperUIPort :: int

definition InitCurrentSearchRequest :: "int \<Rightarrow> CurrentSearchRequest" where
  "InitCurrentSearchRequest gossiperUIPort =
     \<lparr>csr_fullMatches = [], csr_isAlive = True, csr_gossiperUIPort = gossiperUIPort\<rparr>"

text \<open>The reply that goes to the channel of the search goroutine, if any.\<close>

definition ForwardSearchReply :: "CurrentSearchRequest \<Rightarrow> SearchReply \<Rightarrow> SearchReply option" where
  "ForwardSearchReply csr srp = (if \<not> csr_isAlive csr then None else Some srp)"

definition IsAlive :: "CurrentSearchRequest \<Rightarrow> bool" where
  "IsAlive csr = csr_isAlive csr"

definition AddFullMatch :: "CurrentSearchRequest \<Rightarrow> FullSearchMatch \<Rightarrow> CurrentSearchRequest" where
  "AddFullMatch csr match =
    (if list_ex (\<lambda>otherMatch. fm_Origin otherMatch = fm_Origin match
          \<and> fm_MetafileHash otherMatch = fm_MetafileHash match) (csr_fullMatches csr)
     then csr
     else csr\<lparr>csr_fullMatches := csr_fullMatches csr @ [match]\<rparr>)"

definition GetFullMatchesNumber :: "CurrentSearchRequest \<Rightarrow> nat" where
  "GetFullMatchesNumber csr = length (csr_fullMatches csr)"

text \<open>The order for a download that is sent to the client port.\<close>

definition DownloadFileByHash :: "CurrentSearchRequest \<Rightarrow> hash \<Rightarrow> string \<Rightarrow> ClientMessage option" where
  "DownloadFileByHash csr metahash downloadFilename =
    (case List.find (\<lambda>match. fm_MetafileHash match = metahash) (csr_fullMatches csr) of
       None \<Rightarrow> None
     | Some match \<Rightarrow> SendToDownloadMessage downloadFilename (hex_EncodeToString (fm_MetafileHash match)) (fm_Origin match))"

definition DownloadFileByName :: "CurrentSearchRequest \<Rightarrow> string \<Rightarrow> string \<Rightarrow> ClientMessage option" where
  "DownloadFileByName csr filename downloadFilename =
    (case List.find (\<lambda>match. fm_Filename match = filename) (csr_fullMatches csr) of
       None \<Rightarrow> None
     | Some match \<Rightarrow> SendToDownloadMessage downloadFilename (hex_EncodeToString (fm_MetafileHash match)) (fm_Origin match))"

definition Shutdown :: "CurrentSearchRequest \<Rightarrow> CurrentSearchRequest" where
  "Shutdown csr = csr\<lparr>csr_isAlive := False\<rparr>"

definition GetFullMatches :: "CurrentSearchRequest \<Rightarrow> string list" where
  "GetFullMatches csr = map fm_Filename (csr_fullMatches csr)"

section \<open>Budgets\<close>

definition int64 :: "int \<Rightarrow> int" where
  "int64 i = sint (word_of_int i :: u64)"

lemma int64_id [simp]: "- (2 ^ 63) \<le> i \<Longrightarrow> i < 2 ^ 63 \<Longrightarrow> int64 i = i"
  by (simp add: int64_def sint_sbintrunc' signed_take_bit_int_eq_self)

text \<open>The loop over the peers; \<open>q\<close> is \<open>budget / len(g.peers)\<close>.\<close>

fun budget_loop :: "int \<Rightarrow> int \<Rightarrow> 'p list \<Rightarrow> ('p \<times> int) list" where
  "budget_loop q residual [] = []"
| "budget_loop q residual (p # ps) =
     (if residual > 0 then (p, int64 (q + 1)) # budget_loop q (residual - 1) ps
      else (p, q) # budget_loop q residual ps)"

definition split_budget :: "int \<Rightarrow> 'p list \<Rightarrow> ('p \<times> int) list go" where
  "split_budget budget peers =
    (if peers = [] then Inl DivideByZero
     else Inr (budget_loop (budget sdiv int (length peers)) (budget smod int (length peers)) peers))"

section \<open>The search goroutine\<close>

record search_thread =
  se_budget :: int
  se_maxAllowedBudget :: int

definition start_search :: "int \<Rightarrow> search_thread" where
  "start_search budget =
    (if budget = 0 then \<lparr>se_budget = FileSearchStartBudget, se_maxAllowedBudget = FileSearchMaxBudget\<rparr>
     else \<lparr>se_budget = budget, se_maxAllowedBudget = budget\<rparr>)"

text \<open>The timer fires: the budget to search with, if any, and the thread, if it goes on.\<close>

definition search_tick :: "CurrentSearchRequest \<times> search_thread
    \<Rightarrow> (CurrentSearchRequest \<times> search_thread option) \<times> int option" where
  "search_tick st = (case st of (csr, th) \<Rightarrow>
    (if se_budget th > se_maxAllowedBudget th then
       (if se_budget th > int64 (se_maxAllowedBudget th + 1) then ((Shutdown csr, None), None)
        else ((csr, Some (th\<lparr>se_budget := int64 (se_budget th + 1)\<rparr>)), None))
     else ((csr, Some (th\<lparr>se_budget := int64 (se_budget th + 1)\<rparr>)), Some (se_budget th))))"

definition is_full_match :: "SearchResult \<Rightarrow> bool" where
  "is_full_match res = (word_of_nat (length (sr_ChunkMap res)) = sr_ChunkCount res)"

definition chunk_list :: "u64 list \<Rightarrow> string" where
  "chunk_list cs = strings_Join (map (\<lambda>c. Itoa (uint c)) cs) '',''"

text \<open>One result of a reply, with the line printed for it.\<close>

definition search_result :: "string \<Rightarrow> CurrentSearchRequest \<times> string list \<Rightarrow> SearchResult
    \<Rightarrow> CurrentSearchRequest \<times> string list" where
  "search_result origin st res = (case st of (csr, out) \<Rightarrow>
     let line = ''FOUND match '' @ sr_FileName res @ '' at '' @ origin @ '' metafile=''
           @ hex_EncodeToString (sr_MetafileHash res) @ '' chunks='' @ chunk_list (sr_ChunkMap res) @ nl
     in if is_full_match res then
          (case GetTypeStrictHash (sr_MetafileHash res) of
             None \<Rightarrow> (csr, out)
           | Some metahash \<Rightarrow>
               (AddFullMatch csr \<lparr>fm_Filename = sr_FileName res, fm_Origin = origin, fm_MetafileHash = metahash\<rparr>,
                out @ [line]))
        else (csr, out @ [line]))"

definition search_reply :: "SearchReply \<Rightarrow> CurrentSearchRequest \<times> search_thread
    \<Rightarrow> (CurrentSearchRequest \<times> search_thread option) \<times> string list" where
  "search_reply packet st = (case st of (csr, th) \<Rightarrow>
     (case foldl (search_result (sp_Origin packet)) (csr, []) (sp_Results packet) of
        (csr, out) \<Rightarrow>
          if GetFullMatchesNumber csr \<ge> FileSearchFullMatchesThreshold
          then ((Shutdown csr, None), out @ [''SEARCH FINISHED'' @ nl])
          else ((csr, Some th), out)))"

text \<open>\<open>n\<close> timer events: the budgets searched with and the final state.\<close>

fun search_ticks :: "nat \<Rightarrow> CurrentSearchRequest \<times> search_thread
    \<Rightarrow> (CurrentSearchRequest \<times> search_thread option) \<times> int list" where
  "search_ticks 0 (csr, th) = ((csr, Some th), [])"
| "search_ticks (Suc n) st =
     (case search_tick st of
        ((csr, None), b) \<Rightarrow> ((csr, None), case b of None \<Rightarrow> [] | Some x \<Rightarrow> [x])
      | ((csr, Some th), b) \<Rightarrow>
          (case search_ticks n (csr, th) of
             (r, bs) \<Rightarrow> (r, (case b of None \<Rightarrow> [] | Some x \<Rightarrow> [x]) @ bs)))"

section \<open>Lemmas\<close>

lemma budget_loop_peers: "map fst (budget_loop q r ps) = ps"
  by (induction q r ps rule: budget_loop.induct) auto

lemma budget_loop_sum:
  "0 \<le> r \<Longrightarrow> r \<le> int (length ps) \<Longrightarrow> 0 \<le> q \<Longrightarrow> 0 < r \<longrightarrow> q < 2 ^ 63 - 1 \<Longrightarrow>
   sum_list (map snd (budget_loop q r ps)) = q * int (length ps) + r"
  by (induction q r ps rule: budget_loop.induct) (auto simp: algebra_simps)

lemma budget_loop_values:
  "0 \<le> q \<Longrightarrow> 0 < r \<longrightarrow> q < 2 ^ 63 - 1 \<Longrightarrow> (p, b) \<in> set (budget_loop q r ps) \<Longrightarrow> b = q \<or> b = q + 1"
  by (induction q r ps rule: budget_loop.induct) (auto split: if_splits)

text \<open>A budget is divided over the peers without loss: every peer gets a share, in the
  order of the peers, the shares sum to the budget and differ by at most one.\<close>
lemma split_budget_is_fair:
  assumes "0 \<le> budget" "budget < 2 ^ 63" "peers \<noteq> []"
  shows "\<exists>bs. split_budget budget peers = Inr bs \<and> map fst bs = peers \<and> sum_list (map snd bs) = budget
     \<and> (\<forall>(p, b) \<in> set bs. budget div int (length peers) \<le> b \<and> b \<le> budget div int (length peers) + 1)"
proof -
  let ?n = "int (length peers)"
  have n: "0 < ?n" using assms(3) by simp
  have q: "budget sdiv ?n = budget div ?n" "budget smod ?n = budget mod ?n"
    using assms(1) n by (cases "budget = 0"; simp add: signed_divide_int_def signed_modulo_int_def minus_mult_div_eq_mod)+
  have q0: "0 \<le> budget div ?n" using n assms(1) by (simp add: pos_imp_zdiv_nonneg_iff)
  have r: "0 \<le> budget mod ?n" "budget mod ?n \<le> ?n" using n by (simp_all add: less_imp_le)
  have lt: "0 < budget mod ?n \<longrightarrow> budget div ?n < 2 ^ 63 - 1"
  proof
    assume p: "0 < budget mod ?n"
    have "budget div ?n * 1 \<le> budget div ?n * ?n" using assms(3) q0 by (intro mult_left_mono) (simp_all add: Suc_le_eq)
    then have "budget div ?n + budget mod ?n \<le> budget" using div_mult_mod_eq [of budget ?n] by linarith
    with p assms(2) show "budget div ?n < 2 ^ 63 - 1" by linarith
  qed
  let ?bs = "budget_loop (budget div ?n) (budget mod ?n) peers"
  have "sum_list (map snd ?bs) = budget"
    using budget_loop_sum [OF r q0 lt] by simp
  then show ?thesis
    using budget_loop_values [OF q0 lt] budget_loop_peers assms(3)
    by (fastforce simp: split_budget_def q)
qed

text \<open>How long the goroutine waits after a timer event that it survives: the ticker it sets.\<close>

definition search_ticker :: "search_thread \<Rightarrow> int" where
  "search_ticker th = (if se_budget th > se_maxAllowedBudget th then FileSearchReplyTimeout * 2 else FileSearchReplyTimeout)"

fun search_time :: "nat \<Rightarrow> CurrentSearchRequest \<times> search_thread \<Rightarrow> int" where
  "search_time 0 st = 0"
| "search_time (Suc n) (csr, th) =
     (case search_tick (csr, th) of
        ((csr', None), b) \<Rightarrow> 0
      | ((csr', Some th'), b) \<Rightarrow> search_ticker th + search_time n (csr', th'))"

lemma search_time_all:
  "0 < b \<Longrightarrow> b \<le> m + 1 \<Longrightarrow> m < 2 ^ 63 - 2 \<Longrightarrow>
   search_time (nat (m + 1 - b) + 2) (csr, \<lparr>se_budget = b, se_maxAllowedBudget = m\<rparr>)
     = (m + 1 - b) * FileSearchReplyTimeout + 2 * FileSearchReplyTimeout"
proof (induction "nat (m + 1 - b)" arbitrary: b)
  case 0
  then have "b = m + 1" by simp
  then show ?case using 0 by (simp add: eval_nat_numeral search_tick_def search_ticker_def)
next
  case (Suc n)
  then have n: "n = nat (m + 1 - (b + 1))" "b \<le> m" by simp_all
  have "nat (m + 1 - b) + 2 = Suc (nat (m + 1 - (b + 1)) + 2)" using n by simp
  then show ?case
    using Suc.hyps(1) [OF n(1)] Suc.prems n by (simp add: search_tick_def search_ticker_def algebra_simps)
qed

lemma search_ticks_all:
  "0 < b \<Longrightarrow> b \<le> m + 1 \<Longrightarrow> m < 2 ^ 63 - 2 \<Longrightarrow>
   search_ticks (nat (m + 1 - b) + 2) (csr, \<lparr>se_budget = b, se_maxAllowedBudget = m\<rparr>)
     = ((Shutdown csr, None), [b..m])"
proof (induction "nat (m + 1 - b)" arbitrary: b)
  case 0
  then have "b = m + 1" by simp
  then show ?case using 0 by (simp add: eval_nat_numeral search_tick_def)
next
  case (Suc n)
  then have n: "n = nat (m + 1 - (b + 1))" "b \<le> m" by simp_all
  have "nat (m + 1 - b) + 2 = Suc (nat (m + 1 - (b + 1)) + 2)" using n by simp
  then show ?case
    using Suc.hyps(1) [OF n(1)] Suc.prems n by (simp add: search_tick_def upto_rec1)
qed



lemma length_filter_all: "length (filter P xs) = length xs \<longleftrightarrow> (\<forall>x \<in> set xs. P x)"
proof (induction xs)
  case (Cons x xs)
  have "length (filter P xs) \<noteq> Suc (length xs)" using length_filter_le [of P xs] by linarith
  then show ?case using Cons by auto
qed simp

lemma word64_inj: "a < 2 ^ 64 \<Longrightarrow> b < 2 ^ 64 \<Longrightarrow> (word_of_nat a :: u64) = word_of_nat b \<longleftrightarrow> a = b"
proof
  assume "a < 2 ^ 64" "b < 2 ^ 64" "(word_of_nat a :: u64) = word_of_nat b"
  then have "unat (word_of_nat a :: u64) = unat (word_of_nat b :: u64)" by simp
  moreover have "unat (word_of_nat n :: u64) = n" if "n < 2 ^ 64" for n
    using that by (simp add: unat_of_nat)
  ultimately show "a = b" using \<open>a < 2 ^ 64\<close> \<open>b < 2 ^ 64\<close> by metis
qed simp

text \<open>C39: What a downloading gossiper answers to a search counts as a match with all chunks
  exactly when it waits for no chunk. That is also so while it has not even the metafile.\<close>
theorem full_match_iff_nothing_awaited:
  assumes "df_ok H fs df" "res \<in> set (df_getSearchResults re df keywords)"
    and "length (df_ChunksHashesSlice df) < 2 ^ 64"
  shows "is_full_match res \<longleftrightarrow> df_ChunksToDownload df = {||}"
proof -
  let ?sl = "df_ChunksHashesSlice df" and ?td = "df_ChunksToDownload df"
  let ?have = "filter (\<lambda>i. \<not> ?sl ! i |\<in>| ?td) [0..<length ?sl]"
  have r: "sr_ChunkMap res = map (\<lambda>i. word_of_nat (i + 1)) ?have" "sr_ChunkCount res = word_of_nat (length ?sl)"
    using assms(2) by (auto simp: df_getSearchResults_def)
  have "length ?have \<le> length ?sl" using length_filter_le [of _ "[0..<length ?sl]"] by simp
  with assms(3) have "length ?have < 2 ^ 64" by (rule le_less_trans [rotated])
  then have "is_full_match res \<longleftrightarrow> length ?have = length ?sl"
    unfolding is_full_match_def r length_map by (rule word64_inj [OF _ assms(3)])
  also have "\<dots> \<longleftrightarrow> (\<forall>i \<in> set [0..<length ?sl]. \<not> ?sl ! i |\<in>| ?td)"
    using length_filter_all [of "\<lambda>i. \<not> ?sl ! i |\<in>| ?td" "[0..<length ?sl]"] by simp
  also have "\<dots> \<longleftrightarrow> (\<forall>h \<in> set ?sl. \<not> h |\<in>| ?td)"
    by (auto simp: all_set_conv_all_nth)
  also have "\<dots> \<longleftrightarrow> ?td = {||}"
  proof (cases "df_Metafile df")
    case None
    then show ?thesis using assms(1) by (simp add: df_ok_def)
  next
    case (Some mf)
    have "?td |\<subseteq>| fset_of_list ?sl"
      using df_okD(3,4,5) [OF assms(1) Some] by simp
    then show ?thesis by (auto simp: fset_of_list_elem)
  qed
  finally show ?thesis .
qed

theorem full_match_iff_nothing_awaited_witness:
  "\<exists>res \<in> set (df_getSearchResults (\<lambda>p s. Some True) (initDownloadingFile ''a'' zero_hash) [''k'']).
     is_full_match res"
proof -
  let ?df = "initDownloadingFile ''a'' zero_hash"
  obtain res where r: "res \<in> set (df_getSearchResults (\<lambda>p s. Some True) ?df [''k''])"
    by (simp add: df_getSearchResults_def matches_def)
  have "df_ok H fs ?df" for H fs by (rule df_ok_init) (simp add: download_name_def plain_name_def)
  from full_match_iff_nothing_awaited [OF this r] r show ?thesis
    by (auto simp: initDownloadingFile_def)
qed

end
