(* ===== verification/MerkleTree.thy ===== *)
theory MerkleTree
  imports FileProps
begin

text \<open>
  Sharing a file as a Merkle tree (\<open>models/filesharing/merkletree\<close>): the file is read chunk
  by chunk, the leaves are the hashes of the chunks, and up to \<open>FileChunkSize / 32\<close> nodes
  of a level get a parent whose chunk is the sequence of their hashes. The gossiper does not
  call this package: its manager still uses \<open>sharedFile\<close>.

  \<open>ReadAt\<close> reports the end of the file together with a last, shorter piece, and the code
  leaves its loop on that report before it looks at the piece. The lemmas show that the tree
  authenticates exactly the complete chunks.
\<close>

datatype merkleNode = MerkleNode (Height: u32) (HashValue: hash) (Children: "merkleNode list")

definition constructLeafMerkleNode :: "hash \<Rightarrow> merkleNode" where
  "constructLeafMerkleNode hashValue = MerkleNode 0 hashValue []"

definition constructInnerMerkleNode :: "digest \<Rightarrow> filesystem \<Rightarrow> merkleNode list \<Rightarrow> path
    \<Rightarrow> filesystem \<times> merkleNode option" where
  "constructInnerMerkleNode H fs children chunksPath =
    (case children of
       [] \<Rightarrow> (fs, None)
     | c # _ \<Rightarrow>
        let height = Height c;
            data = concat (map HashValue children)
        in if list_ex (\<lambda>c. Height c \<noteq> height) children then (fs, None)
           else if FileChunkSize < length data then (fs, None)
           else
             let hashValue = Sum256 H data in
             (WriteFile fs (Join chunksPath (GetMerkleChunkFileName hashValue)) data,
              Some (MerkleNode (height + 1) hashValue children)))"

record MerkleSharedFile =
  ms_Name :: string
  ms_Size :: nat
  ms_RootNode :: merkleNode
  ms_NodeSet :: "(hash, merkleNode) fmap"

text \<open>\<open>n, err := f.ReadAt(buffer, offset)\<close>: the bytes read, and whether the error is \<open>io.EOF\<close>.\<close>

definition ReadAt :: "byte list \<Rightarrow> nat \<Rightarrow> nat \<Rightarrow> byte list \<times> bool" where
  "ReadAt content offset n = (let piece = take n (drop offset content) in (piece, length piece < n))"

type_synonym level_state = "filesystem \<times> merkleNode list \<times> (hash, merkleNode) fmap"

function leaf_loop :: "digest \<Rightarrow> path \<Rightarrow> byte list \<Rightarrow> nat \<Rightarrow> level_state \<Rightarrow> level_state" where
  "leaf_loop H chunksPath content offset st =
    (case ReadAt content offset FileChunkSize of
       (curChunk, eof) \<Rightarrow>
         if eof then st
         else
           (case st of (fs, curLevel, nodeset) \<Rightarrow>
              let chunkHash = Sum256 H curChunk;
                  fs = WriteFile fs (Join chunksPath (GetMerkleChunkFileName chunkHash)) curChunk;
                  node = constructLeafMerkleNode chunkHash
              in leaf_loop H chunksPath content (offset + length curChunk)
                   (fs, curLevel @ [node], fmupd chunkHash node nodeset)))"
  by pat_completeness auto
termination
  by (relation "measure (\<lambda>(H, p, content, offset, st). length content - offset)")
    (auto simp: ReadAt_def Let_def FileChunkSize_def min_def split: if_splits)

declare leaf_loop.simps [simp del]

definition childrenNumber :: nat where
  "childrenNumber = FileChunkSize div 32"

fun level_loop :: "digest \<Rightarrow> path \<Rightarrow> nat \<Rightarrow> nat \<Rightarrow> merkleNode list \<Rightarrow> level_state \<Rightarrow> merkleNode list
    \<Rightarrow> level_state go" where
  "level_loop H chunksPath len i curChildren st [] = Inr st"
| "level_loop H chunksPath len i curChildren (fs, newLevel, nodeset) (node # rest) =
     (let curChildren = curChildren @ [node] in
      if (i + 1) mod childrenNumber = 0 \<or> i + 1 = len then
        (case constructInnerMerkleNode H fs curChildren chunksPath of
           (fs, None) \<Rightarrow> Inl NilDereference
         | (fs, Some parentNode) \<Rightarrow>
             level_loop H chunksPath len (i + 1) []
               (fs, newLevel @ [parentNode], fmupd (HashValue parentNode) parentNode nodeset) rest)
      else level_loop H chunksPath len (i + 1) curChildren (fs, newLevel, nodeset) rest)"

lemma childrenNumber_eq [simp]: "childrenNumber = 256"
  by (simp add: childrenNumber_def FileChunkSize_def)

lemma level_shrinks:
  "level_loop H p len i cur (fs, acc, ns) rest = Inr (fs', acc', ns') \<Longrightarrow> i mod 256 = length cur \<Longrightarrow>
   len = i + length rest \<Longrightarrow>
   length acc' \<le> length acc + length cur + length rest
   \<and> (length cur + length rest \<ge> 2 \<longrightarrow> length acc' < length acc + length cur + length rest)"
proof (induction rest arbitrary: i cur fs acc ns)
  case (Cons n rest)
  show ?case
  proof (cases "(i + 1) mod 256 = 0 \<or> i + 1 = len")
    case True
    then obtain fs1 q where r:
      "level_loop H p len (i + 1) [] (fs1, acc @ [q], fmupd (HashValue q) q ns) rest = Inr (fs', acc', ns')"
      using Cons.prems(1) by (auto simp: Let_def split: prod.splits option.splits)
    show ?thesis
    proof (cases "(i + 1) mod 256 = 0")
      case m: True
      then have "length cur = 255" using Cons.prems(2) by (auto simp: mod_Suc split: if_splits)
      with Cons.IH [OF r] m Cons.prems(3) show ?thesis by simp
    next
      case False
      then have "rest = []" using True Cons.prems(3) by simp
      with r show ?thesis by auto
    qed
  next
    case False
    then have m: "(i + 1) mod 256 = length (cur @ [n])"
      using Cons.prems(2) by (auto simp: mod_Suc split: if_splits)
    have "level_loop H p len (i + 1) (cur @ [n]) (fs, acc, ns) rest = Inr (fs', acc', ns')"
      using Cons.prems(1) False by (simp add: Let_def)
    from Cons.IH [OF this m] Cons.prems(3) show ?thesis by simp
  qed
qed auto

text \<open>\<open>for len(curLevel) > 1\<close>: every round makes the level shorter.\<close>

function build_levels :: "digest \<Rightarrow> path \<Rightarrow> level_state \<Rightarrow> level_state go" where
  "build_levels H chunksPath (fs, curLevel, nodeset) =
    (if length curLevel > 1 then
       (case level_loop H chunksPath (length curLevel) 0 [] (fs, [], nodeset) curLevel of
          Inl e \<Rightarrow> Inl e
        | Inr st \<Rightarrow> build_levels H chunksPath st)
     else Inr (fs, curLevel, nodeset))"
  by pat_completeness auto
termination
  by (relation "measure (\<lambda>(H, p, fs, curLevel, nodeset). length curLevel)")
    (auto dest!: sym [of "Inr _"] level_shrinks)

declare build_levels.simps [simp del]

text \<open>What is left when the levels are built: the root, if there is one.\<close>

definition merkle_result :: "string \<Rightarrow> byte list \<Rightarrow> level_state \<Rightarrow> filesystem \<times> MerkleSharedFile option" where
  "merkle_result name content = (\<lambda>(fs, curLevel, nodeset).
     (case curLevel of
        [] \<Rightarrow> (fs, None)
      | root # _ \<Rightarrow> (fs, Some \<lparr>ms_Name = name, ms_Size = length content,
           ms_RootNode = root, ms_NodeSet = nodeset\<rparr>)))"

definition ShareMerkleFile :: "digest \<Rightarrow> filesystem \<Rightarrow> path \<Rightarrow> (filesystem \<times> MerkleSharedFile option) go" where
  "ShareMerkleFile H fs path =
    (case os_Stat fs path of
       Inl NotExist \<Rightarrow> Inr (fs, None)
     | Inl NotDirectory \<Rightarrow> Inl NilDereference
     | Inr Dir \<Rightarrow> Inr (fs, None)
     | Inr (Data _) \<Rightarrow>
        let fs = (if IsNotExist fs (SharedFilesPath fs) then Mkdir fs (SharedFilesPath fs) else fs);
            fs = (if IsNotExist fs (SharedFilesChunksPath fs) then Mkdir fs (SharedFilesChunksPath fs) else fs);
            name = Base path;
            chunksPath = Join (SharedFilesChunksPath fs) name
        in if \<not> IsNotExist fs chunksPath then Inr (fs, None)
        else
          let fs = Mkdir fs chunksPath in
          case ReadFile fs path of
            None \<Rightarrow> Inr (fs, None)
          | Some content \<Rightarrow>
              go_map (merkle_result name content)
                (build_levels H chunksPath (leaf_loop H chunksPath content 0 (fs, [], fmempty))))"

definition ChunkBelongsToFile :: "MerkleSharedFile \<Rightarrow> hash \<Rightarrow> bool" where
  "ChunkBelongsToFile sf chunkHash = has_key (ms_NodeSet sf) chunkHash"

definition ms_GetChunk :: "filesystem \<Rightarrow> MerkleSharedFile \<Rightarrow> hash \<Rightarrow> byte list option" where
  "ms_GetChunk fs sf hashValue =
    (if \<not> ChunkBelongsToFile sf hashValue then None
     else let chunkPath = Join (Join (SharedFilesChunksPath fs) (ms_Name sf)) (GetMerkleChunkFileName hashValue) in
       if IsNotExist fs chunkPath then None
       else ReadFile fs chunkPath)"

definition ms_GetSearchResults :: "matcher \<Rightarrow> MerkleSharedFile \<Rightarrow> string list \<Rightarrow> SearchResult list" where
  "ms_GetSearchResults re sf keywords =
    map (\<lambda>kw. \<lparr>sr_FileName = ms_Name sf, sr_MetafileHash = HashValue (ms_RootNode sf),
               sr_ChunkMap = map word_of_nat [1..<map_len (ms_NodeSet sf) + 1],
               sr_ChunkCount = word_of_nat (map_len (ms_NodeSet sf))\<rparr>)
      (filter (\<lambda>kw. matches re kw (ms_Name sf)) keywords)"

section \<open>What the tree authenticates\<close>

text \<open>A node over a sequence of leaf hashes: all of one height, with no more children than a
  chunk has room for, and the hash of an inner node the hash of its children's hashes.\<close>

fun merkle_ok :: "digest \<Rightarrow> u32 \<Rightarrow> merkleNode \<Rightarrow> bool" where
  "merkle_ok H h (MerkleNode h' v cs) = (h' = h \<and> length v = 32 \<and>
     (cs = [] \<or> length cs \<le> childrenNumber \<and> v = Sum256 H (concat (map HashValue cs))
        \<and> list_all (merkle_ok H (h - 1)) cs))"

fun leaves :: "merkleNode \<Rightarrow> hash list" where
  "leaves (MerkleNode h v cs) = (if cs = [] then [v] else concat (map leaves cs))"

text \<open>The complete chunks of a file.\<close>

definition full_chunks :: "byte list \<Rightarrow> byte list list" where
  "full_chunks bs = blocks FileChunkSize (take (length bs - length bs mod FileChunkSize) bs)"

lemma merkle_ok_sel: "merkle_ok H h n \<Longrightarrow> Height n = h \<and> length (HashValue n) = 32"
  by (cases n) auto

lemma constructInner_ok:
  assumes "cs \<noteq> []" "length cs \<le> 256" "list_all (merkle_ok H h) cs"
  shows "\<exists>fs' n. constructInnerMerkleNode H fs cs p = (fs', Some n) \<and> merkle_ok H (h + 1) n
     \<and> leaves n = concat (map leaves cs)"
proof -
  have l: "length (concat (map HashValue cs)) = 32 * length cs"
    using assms(3) by (induction cs) (auto dest: merkle_ok_sel)
  obtain c cs' where c: "cs = c # cs'" using assms(1) by (cases cs) auto
  have h: "Height x = h" if "x \<in> set cs" for x using that assms(3) merkle_ok_sel by (auto simp: list_all_iff)
  then have "\<not> list_ex (\<lambda>x. Height x \<noteq> Height c) cs" using c by (auto simp: list_ex_iff)
  then have "\<exists>fs'. constructInnerMerkleNode H fs cs p =
      (fs', Some (MerkleNode (h + 1) (Sum256 H (concat (map HashValue cs))) cs))"
    using l assms(2) h c by (auto simp: constructInnerMerkleNode_def Let_def FileChunkSize_def)
  then show ?thesis using assms by auto
qed

lemma level_loop_ok:
  assumes "list_all (merkle_ok H h) (cur @ rest)" "i mod 256 = length cur" "len = i + length rest" "rest \<noteq> []"
  shows "\<exists>fs' new ns'. level_loop H p len i cur (fs, acc, ns) rest = Inr (fs', acc @ new, ns') \<and> new \<noteq> []
     \<and> list_all (merkle_ok H (h + 1)) new
     \<and> concat (map leaves new) = concat (map leaves (cur @ rest))"
  using assms
proof (induction rest arbitrary: i cur fs acc ns)
  case (Cons n rest)
  have lt: "length cur < 256" using Cons.prems(2) by (metis mod_less_divisor zero_less_numeral)
  show ?case
  proof (cases "(i + 1) mod 256 = 0 \<or> i + 1 = len")
    case True
    have "list_all (merkle_ok H h) (cur @ [n])" using Cons.prems(1) by simp
    from constructInner_ok [OF _ _ this, of fs p] lt obtain fs1 q where
      q: "constructInnerMerkleNode H fs (cur @ [n]) p = (fs1, Some q)" "merkle_ok H (h + 1) q"
      "leaves q = concat (map leaves (cur @ [n]))" by auto
    have r: "level_loop H p len i cur (fs, acc, ns) (n # rest) =
        level_loop H p len (i + 1) [] (fs1, acc @ [q], fmupd (HashValue q) q ns) rest"
      using True q(1) by (simp add: Let_def)
    show ?thesis
    proof (cases "rest = []")
      case e: True
      then show ?thesis using r q by auto
    next
      case False
      then have m: "(i + 1) mod 256 = length ([] :: merkleNode list)" using True Cons.prems(3) by auto
      have a: "list_all (merkle_ok H h) ([] @ rest)" using Cons.prems(1) by simp
      from Cons.IH [OF a m _ False] Cons.prems(3) obtain fs' new ns' where
        "level_loop H p len (i + 1) [] (fs1, acc @ [q], fmupd (HashValue q) q ns) rest = Inr (fs', (acc @ [q]) @ new, ns')"
        "list_all (merkle_ok H (h + 1)) new" "concat (map leaves new) = concat (map leaves rest)" by fastforce
      then show ?thesis using r q by auto
    qed
  next
    case False
    then have m: "(i + 1) mod 256 = length (cur @ [n])" and ne: "rest \<noteq> []"
      using Cons.prems(2,3) by (auto simp: mod_Suc split: if_splits)
    have "level_loop H p len i cur (fs, acc, ns) (n # rest) = level_loop H p len (i + 1) (cur @ [n]) (fs, acc, ns) rest"
      using False by (simp add: Let_def)
    with Cons.IH [of "cur @ [n]" "i + 1" fs acc ns] m ne Cons.prems show ?thesis by simp
  qed
qed simp

lemma build_levels_ok:
  assumes "cur \<noteq> []" "list_all (merkle_ok H h) cur"
  shows "\<exists>fs' root ns' h'. build_levels H p (fs, cur, ns) = Inr (fs', [root], ns') \<and> merkle_ok H h' root
     \<and> leaves root = concat (map leaves cur)"
  using assms
proof (induction H p "(fs, cur, ns)" arbitrary: fs cur ns h rule: build_levels.induct)
  case (1 H p fs cur ns)
  show ?case
  proof (cases "length cur > 1")
    case True
    from level_loop_ok [of H h "[]" cur 0 "length cur" p fs "[]" ns] 1(2,3)
    obtain fs1 new ns1 where
      l: "level_loop H p (length cur) 0 [] (fs, [], ns) cur = Inr (fs1, new, ns1)" "new \<noteq> []"
      "list_all (merkle_ok H (h + 1)) new" "concat (map leaves new) = concat (map leaves cur)" by auto
    from 1(1) [OF True l(1) l(2,3)] l(1,4) True show ?thesis
      by (simp add: build_levels.simps [of H p fs cur ns])
  next
    case False
    then obtain root where "cur = [root]" using 1(2) by (cases cur) auto
    then show ?thesis using 1(3) by (auto simp: build_levels.simps)
  qed
qed

lemma full_chunks_step:
  assumes "FileChunkSize \<le> length d"
  shows "full_chunks d = take FileChunkSize d # full_chunks (drop FileChunkSize d)"
proof -
  let ?C = FileChunkSize
  let ?n = "length d - length d mod ?C"
  have "?n = length d div ?C * ?C" by (metis minus_mod_eq_div_mult)
  moreover have "1 \<le> length d div ?C" using assms by (simp add: Suc_le_eq div_greater_zero_iff)
  ultimately have n: "?C \<le> ?n" by (metis mult.left_neutral mult_le_mono1)
  have m: "length d mod ?C = (length d - ?C) mod ?C" using assms by (rule le_mod_geq)
  have "take ?n d \<noteq> []" using n assms by (cases d) auto
  then have "full_chunks d = take ?C (take ?n d) # blocks ?C (drop ?C (take ?n d))"
    unfolding full_chunks_def by (rule blocks_step [OF FileChunkSize_pos(1)])
  also have "take ?C (take ?n d) = take ?C d" using n by (simp add: min_def)
  also have "drop ?C (take ?n d) = take (?n - ?C) (drop ?C d)" by (simp add: drop_take)
  also have "?n - ?C = length (drop ?C d) - length (drop ?C d) mod ?C"
    using m by simp
  finally show ?thesis unfolding full_chunks_def .
qed

lemma leaf_loop_leaves:
  "offset mod FileChunkSize = 0 \<Longrightarrow> \<exists>fs' ns'. leaf_loop H p bs offset (fs, acc, ns) =
     (fs', acc @ map (\<lambda>c. constructLeafMerkleNode (Sum256 H c)) (full_chunks (drop offset bs)), ns')"
proof (induction "length bs - offset" arbitrary: offset fs acc ns rule: less_induct)
  case less
  let ?c = "take FileChunkSize (drop offset bs)"
  show ?case
  proof (cases "length (drop offset bs) < FileChunkSize")
    case True
    then have "full_chunks (drop offset bs) = []" by (simp add: full_chunks_def)
    then show ?thesis using True by (simp add: leaf_loop.simps ReadAt_def Let_def)
  next
    case False
    then have l: "length ?c = FileChunkSize" "offset < length bs"
      by (auto simp: FileChunkSize_def)
    let ?d = "drop offset bs"
    have d: "drop (offset + FileChunkSize) bs = drop FileChunkSize ?d" by (simp add: add.commute)
    have f: "full_chunks ?d = ?c # full_chunks (drop FileChunkSize ?d)"
      by (rule full_chunks_step) (use False in simp)
    have m: "(offset + FileChunkSize) mod FileChunkSize = 0" using less(2) by simp
    have s: "length bs - (offset + FileChunkSize) < length bs - offset"
      using l(2) FileChunkSize_pos(1) by linarith
    let ?fs = "WriteFile fs (Join p (GetMerkleChunkFileName (Sum256 H ?c))) ?c"
    let ?node = "constructLeafMerkleNode (Sum256 H ?c)"
    have run: "leaf_loop H p bs offset (fs, acc, ns) =
        leaf_loop H p bs (offset + FileChunkSize) (?fs, acc @ [?node], fmupd (Sum256 H ?c) ?node ns)"
      using l(1) by (subst leaf_loop.simps) (simp add: ReadAt_def Let_def del: length_take)
    show ?thesis
      using less(1) [OF s m, where fs = ?fs and acc = "acc @ [?node]" and ns = "fmupd (Sum256 H ?c) ?node ns"]
      unfolding run f d list.map append_assoc append.simps .
  qed
qed

lemma tree_of_file:
  "\<exists>fs' r. go_map (merkle_result name bs) (build_levels H cp (leaf_loop H cp bs 0 (fs, [], fmempty))) = Inr (fs', r)
     \<and> (if full_chunks bs = [] then r = None
        else \<exists>sf h. r = Some sf \<and> ms_Size sf = length bs \<and> merkle_ok H h (ms_RootNode sf)
          \<and> leaves (ms_RootNode sf) = map (Sum256 H) (full_chunks bs))"
proof -
  let ?lv = "map (\<lambda>c. constructLeafMerkleNode (Sum256 H c)) (full_chunks bs)"
  from leaf_loop_leaves [of 0 H cp bs fs "[]" fmempty] obtain fs1 ns1 where
    l: "leaf_loop H cp bs 0 (fs, [], fmempty) = (fs1, ?lv, ns1)" by auto
  show ?thesis
  proof (cases "full_chunks bs = []")
    case True
    then show ?thesis by (simp add: l build_levels.simps merkle_result_def)
  next
    case False
    have "list_all (merkle_ok H 0) ?lv"
      by (simp add: list_all_iff constructLeafMerkleNode_def)
    from build_levels_ok [OF _ this, of cp fs1 ns1] False obtain fs2 root ns2 h where
      "build_levels H cp (fs1, ?lv, ns1) = Inr (fs2, [root], ns2)" "merkle_ok H h root"
      "leaves root = concat (map leaves ?lv)" by auto
    moreover have "concat (map leaves ?lv) = map (Sum256 H) (full_chunks bs)"
      by (simp add: constructLeafMerkleNode_def comp_def)
    ultimately show ?thesis using False by (auto simp: l merkle_result_def)
  qed
qed



end
