(* ===== verification/Gossiper.thy ===== *)
theory Gossiper
  imports MessageStorage BlockchainManager Search
begin

text \<open>
  The state of a gossiper and the operations on its peers and routes
  (\<open>gossiper/Gossiper.go\<close>, up to the threads).

  An address is its \<open>String()\<close>, by which the code compares addresses; \<open>nil_addr\<close> is what a
  nil address prints. The connections are not part of the state: what a handler does to
  the outside is a list of effects in the order in which the code does it. A channel that
  waits for a status or a data reply is represented by its key, since a key never has two
  channels at a time. The disk of the process is part of the state.

  What the code leaves to the runtime and to libraries is an argument \<open>env\<close>: the digest, the
  regular expressions, the orders of the map iterations and the random numbers of the
  operation at hand.
\<close>

section \<open>Environment, effects and state\<close>

record env =
  e_H :: digest
  e_re :: matcher
  e_clockOrder :: "(string, u32) fmap \<Rightarrow> string list"
  e_sharedOrder :: "(hash, sharedFile) fmap \<Rightarrow> hash list"
  e_downloadingOrder :: "(string, downloadingFile) fmap \<Rightarrow> string list"
  e_downloadedOrder :: "(hash, downloadingFile) fmap \<Rightarrow> hash list"
  e_pendingOrder :: "(hash, Block) fmap \<Rightarrow> hash list"
  e_chunkOrder :: "hash fset \<Rightarrow> hash list"
  e_hopOrder :: "(string, udpaddr) fmap \<Rightarrow> string list"
  e_rand :: nat
  e_rand' :: nat
  e_coin :: nat

text \<open>The three effects \<open>To\<dots>\<close> with a packet are the sends on the channel of a waiting
  goroutine; \<open>Go\<dots>\<close> starts a goroutine; \<open>ToClientPort\<close> is an order the gossiper sends to
  its own client port; \<open>ForgetLater\<close> schedules the removal of a recent search request.\<close>

datatype effect =
    SendPacket udpaddr GossipPacket
  | Stdout string
  | ToMongering udpaddr StatusPacket
  | ToDownloading string DataReply
  | ToSearching SearchReply
  | GoMongering RumorMessage udpaddr
  | GoDownloading string hash
  | GoSearching "string list" int
  | ForgetLater string
  | ToClientPort ClientMessage

record Gossiper =
  g_name :: string
  g_peersAddress :: udpaddr
  g_localAddr :: udpaddr
  g_clientPort :: int
  g_peers :: "udpaddr list"
  g_nextHop :: "(string, udpaddr) fmap"
  g_messageStorage :: MessageStorage
  g_sharedFilesManager :: SharedFilesManager
  g_downloadingFilesManager :: DownloadingFilesManager
  g_blockchainManager :: BlockchainManager
  g_currentSearchRequest :: "CurrentSearchRequest option"
  g_recentSearchRequests :: "string fset"
  g_isSimpleMode :: bool
  g_statusesChannels :: "udpaddr fset"
  g_downloadingFilesChannels :: "string fset"
  g_disk :: filesystem

definition nil_addr :: udpaddr where
  "nil_addr = ''<nil>''"

text \<open>The result of an operation: the state and the effects, or a panic.\<close>

type_synonym result = "(Gossiper \<times> effect list) go"

section \<open>Start\<close>

text \<open>\<open>resolve\<close> is \<open>ResolveUDPAddr\<close>, \<open>listen\<close> whether \<open>ListenUDP\<close> succeeds on an address and the
  local address it gives. The disk is changed whether or not the start succeeds.\<close>

fun resolve_peers :: "(string \<Rightarrow> udpaddr option) \<Rightarrow> string list \<Rightarrow> udpaddr list option" where
  "resolve_peers resolve [] = Some []"
| "resolve_peers resolve (p # ps) =
     (if p = [] then resolve_peers resolve ps
      else (case resolve p of
          None \<Rightarrow> None
        | Some a \<Rightarrow> (case resolve_peers resolve ps of None \<Rightarrow> None | Some as \<Rightarrow> Some (a # as))))"

definition NewGossiper :: "digest \<Rightarrow> (string \<Rightarrow> udpaddr option) \<Rightarrow> (udpaddr \<Rightarrow> udpaddr option) \<Rightarrow> filesystem
    \<Rightarrow> string \<Rightarrow> int \<Rightarrow> string \<Rightarrow> string \<Rightarrow> bool \<Rightarrow> filesystem \<times> Gossiper option" where
  "NewGossiper H resolve listen fs name uiport peersAddress peers isSimpleMode =
    (case InitSharedFilesManager fs of (fs, sfm) \<Rightarrow>
     case InitDownloadingFilesManager fs of (fs, dfm) \<Rightarrow>
      (fs,
       case resolve (LocalIp @ '':'' @ Itoa uiport) of None \<Rightarrow> None
       | Some clientAddress \<Rightarrow>
      (case resolve peersAddress of None \<Rightarrow> None
       | Some peersListenAddress \<Rightarrow>
        if name = [] then None
        else
      (case resolve_peers resolve (strings_Split peers (CHR '','')) of None \<Rightarrow> None
       | Some peersArr \<Rightarrow>
      (case listen peersListenAddress of None \<Rightarrow> None
       | Some local \<Rightarrow>
      (case listen clientAddress of None \<Rightarrow> None
       | Some _ \<Rightarrow> Some
          \<lparr>g_name = name, g_peersAddress = peersListenAddress, g_localAddr = local, g_clientPort = uiport,
           g_peers = peersArr, g_nextHop = fmempty, g_messageStorage = InitMessageStorage name,
           g_sharedFilesManager = sfm, g_downloadingFilesManager = dfm,
           g_blockchainManager = InitBlockchainManager H, g_currentSearchRequest = None,
           g_recentSearchRequests = {||}, g_isSimpleMode = isSimpleMode, g_statusesChannels = {||},
           g_downloadingFilesChannels = {||}, g_disk = fs\<rparr>))))))"

section \<open>Peers and routes\<close>

text \<open>\<open>rand.Int31n(n)\<close> panics for \<open>n = 0\<close>; \<open>r\<close> is the number drawn.\<close>

definition getRandomPeer :: "nat \<Rightarrow> Gossiper \<Rightarrow> udpaddr go" where
  "getRandomPeer r g = (if g_peers g = [] then Inl InvalidArgument
     else slice_get (g_peers g) (r mod length (g_peers g)))"

definition arePeersEmpty :: "Gossiper \<Rightarrow> bool" where
  "arePeersEmpty g = (length (g_peers g) = 0)"

definition sendAllPeers :: "Gossiper \<Rightarrow> GossipPacket \<Rightarrow> effect list" where
  "sendAllPeers g gp = map (\<lambda>p. SendPacket p gp) (g_peers g)"

definition GetPeersCopy :: "Gossiper \<Rightarrow> udpaddr list" where
  "GetPeersCopy g = g_peers g"

definition UpdatePeersIfNeeded :: "Gossiper \<Rightarrow> udpaddr \<Rightarrow> Gossiper" where
  "UpdatePeersIfNeeded g peer = (if peer \<in> set (g_peers g) then g else g\<lparr>g_peers := g_peers g @ [peer]\<rparr>)"

definition printPeers :: "Gossiper \<Rightarrow> effect list" where
  "printPeers g = [Stdout (''PEERS '' @ strings_Join (g_peers g) '','' @ nl)]"

definition GetOriginsCopy :: "env \<Rightarrow> Gossiper \<Rightarrow> string list" where
  "GetOriginsCopy e g = sort_Strings (e_hopOrder e (g_nextHop g))"

definition GetSharedFiles :: "env \<Rightarrow> Gossiper \<Rightarrow> string list" where
  "GetSharedFiles e g = GetSharedFilesList (e_sharedOrder e (sfm_sharedFiles (g_sharedFilesManager g)))
     (g_sharedFilesManager g)"

definition GetFullSearchMatches :: "Gossiper \<Rightarrow> string list" where
  "GetFullSearchMatches g = (case g_currentSearchRequest g of None \<Rightarrow> [] | Some csr \<Rightarrow> GetFullMatches csr)"

definition order_effect :: "ClientMessage option \<Rightarrow> effect list" where
  "order_effect m = (case m of None \<Rightarrow> [] | Some cmsg \<Rightarrow> [ToClientPort cmsg])"

text \<open>The method of a nil search request locks a mutex of it.\<close>

definition DownloadFoundByName :: "Gossiper \<Rightarrow> string \<Rightarrow> result" where
  "DownloadFoundByName g name = (case g_currentSearchRequest g of
     None \<Rightarrow> Inl NilDereference
   | Some csr \<Rightarrow> Inr (g, order_effect (DownloadFileByName csr name name)))"

definition SetName :: "Gossiper \<Rightarrow> string \<Rightarrow> Gossiper" where
  "SetName g name = g\<lparr>g_name := name\<rparr>"

definition GetName :: "Gossiper \<Rightarrow> string" where
  "GetName g = g_name g"

definition GetPeerAddress :: "Gossiper \<Rightarrow> udpaddr" where
  "GetPeerAddress g = g_peersAddress g"

definition GetRumorMessages :: "Gossiper \<Rightarrow> RumorMessage list" where
  "GetRumorMessages g = GetRumorMessagesCopy (g_messageStorage g)"

definition GetPrivateMessages :: "Gossiper \<Rightarrow> PrivateMessage list" where
  "GetPrivateMessages g = GetPrivateMessagesCopy (g_messageStorage g)"

definition GetID :: "Gossiper \<Rightarrow> string \<Rightarrow> u32" where
  "GetID g name = GetNextMessageId (g_messageStorage g) name"

definition updateNextHop :: "Gossiper \<Rightarrow> string \<Rightarrow> udpaddr \<Rightarrow> Gossiper \<times> effect list" where
  "updateNextHop g origin relay =
    (if fmlookup (g_nextHop g) origin \<noteq> Some relay
     then (g\<lparr>g_nextHop := fmupd origin relay (g_nextHop g)\<rparr>, [Stdout (''DSDV '' @ origin @ '' '' @ relay @ nl)])
     else (g, []))"

definition sendPacketWithNextHop :: "Gossiper \<Rightarrow> string \<Rightarrow> GossipPacket \<Rightarrow> effect list" where
  "sendPacketWithNextHop g origin gp =
    (case fmlookup (g_nextHop g) origin of
       None \<Rightarrow> []
     | Some a \<Rightarrow> if a \<noteq> nil_addr then [SendPacket a gp] else [])"

text \<open>One operation after another.\<close>

definition andthen :: "result \<Rightarrow> (Gossiper \<Rightarrow> result) \<Rightarrow> result" where
  "andthen m f = go_bind m (\<lambda>(g, es). go_map (\<lambda>(g', es'). (g', es @ es')) (f g))"

lemma andthen_simps:
  "andthen (Inl e) f = Inl e"
  "andthen (Inr (g, es)) f = (case f g of Inl e \<Rightarrow> Inl e | Inr (g', es') \<Rightarrow> Inr (g', es @ es'))"
  by (auto simp: andthen_def split: sum.splits)

lemma andthen_Inr: "andthen m f = Inr (g', es) \<longleftrightarrow>
   (\<exists>g1 es1 es2. m = Inr (g1, es1) \<and> f g1 = Inr (g', es2) \<and> es = es1 @ es2)"
  by (cases m) (auto simp: andthen_def)

lemma getRandomPeer_in: "g_peers g \<noteq> [] \<Longrightarrow> \<exists>p \<in> set (g_peers g). getRandomPeer r g = Inr p"
  by (auto simp: getRandomPeer_def intro!: bexI [of _ "g_peers g ! (r mod length (g_peers g))"])

lemma peers_UpdatePeers [simp]:
  "set (g_peers (UpdatePeersIfNeeded g a)) = insert a (set (g_peers g))"
  by (auto simp: UpdatePeersIfNeeded_def)

lemma UpdatePeers_not_empty [simp]: "g_peers (UpdatePeersIfNeeded g a) \<noteq> []"
  by (auto simp: UpdatePeersIfNeeded_def)

end
