(* ===== verification/StdoutText.thy ===== *)
theory StdoutText
  imports BlockchainProps FileProps
begin

text \<open>
  What the blockchain manager and the file managers write to the standard output, as functions
  of the state before the operation. Each definition follows the branches of the operation of
  the same name and keeps the lines that it prints. The state changes themselves are in
  \<open>BlockchainManager\<close>, \<open>SharedFilesManager\<close> and \<open>DownloadingFile\<close>.
\<close>

section \<open>The chain\<close>

text \<open>The file names of a block, with a separator between them.\<close>

fun tx_list :: "string \<Rightarrow> TxPublish list \<Rightarrow> string" where
  "tx_list sep [] = []"
| "tx_list sep [tx] = tx_name tx"
| "tx_list sep (tx # txs) = tx_name tx @ sep @ tx_list sep txs"

fun chain_text :: "digest \<Rightarrow> blockNode \<Rightarrow> string" where
  "chain_text H (FakeNode a) = []"
| "chain_text H (BlockNode a d p t b) = '' '' @ blockNode_String H (BlockNode a d p t b) @ '':''
     @ blockNode_String H p @ '':'' @ tx_list '','' (b_Transactions b) @ chain_text H p"

definition printLongestChain :: "digest \<Rightarrow> blockNode \<Rightarrow> string" where
  "printLongestChain H tail = ''CHAIN'' @ chain_text H tail @ nl"

text \<open>The text of all blocks, in the order \<open>ks\<close> of the map. It is composed and not written.\<close>

definition printBlocksMap :: "digest \<Rightarrow> hash list \<Rightarrow> BlockchainManager \<Rightarrow> string" where
  "printBlocksMap H ks bm = ''blocks-map'' @ nl @ concat (map (\<lambda>h.
     (case fmlookup (bm_blocks bm) h of
        None \<Rightarrow> []
      | Some b \<Rightarrow> hex_EncodeToString h @ '' - '' @ blockNode_String H b
          @ (case b of
               FakeNode _ \<Rightarrow> []
             | BlockNode _ _ _ _ k \<Rightarrow> '' ('' @ tx_list '' '' (b_Transactions k)
                 @ ''; '' @ hex_EncodeToString (b_PrevHash k)
                 @ ''; '' @ hex_EncodeToString (b_Nonce k) @ '') '')
          @ nl)) ks)"

definition append_output :: "digest \<Rightarrow> BlockchainManager \<Rightarrow> Block \<Rightarrow> string list" where
  "append_output H bm block =
    (if b_PrevHash block = getBlockHash H (bm_tail bm) then
       [printLongestChain H (InitBlockNode (bm_next bm) (bm_tail bm) block)]
     else case fmlookup (bm_blocks bm) (b_PrevHash block) of
       None \<Rightarrow> []
     | Some parentNode \<Rightarrow>
         if depth parentNode < depth (bm_tail bm) then
           [''FORK-SHORTER '' @ hex_EncodeToString (Block_Hash H block) @ nl]
         else (case undo_history (getLSA (bm_tail bm) parentNode) (bm_tail bm) (bm_pendingTx bm) 0 of
             Inl e \<Rightarrow> []
           | Inr (pend, blocksUndone) \<Rightarrow>
               [''FORK-LONGER rewind '' @ Itoa (int blocksUndone) @ '' blocks'' @ nl,
                printLongestChain H (InitBlockNode (bm_next bm) parentNode block)]))"

fun check_output :: "digest \<Rightarrow> hash list \<Rightarrow> BlockchainManager \<Rightarrow> string list" where
  "check_output H [] bm = []"
| "check_output H (hash # ks) bm =
     (case fmlookup (bm_noParentBlocks bm) hash of
        None \<Rightarrow> check_output H ks bm
      | Some block \<Rightarrow>
          if \<not> has_key (bm_blocks bm) hash then check_output H ks bm
          else let bm = bm\<lparr>bm_noParentBlocks := fmdrop hash (bm_noParentBlocks bm)\<rparr> in
            append_output H bm block @
            (case appendToTheTree H bm block of Inl e \<Rightarrow> [] | Inr bm \<Rightarrow> check_output H ks bm))"

function settle_output :: "digest \<Rightarrow> ((hash, Block) fmap \<Rightarrow> hash list) \<Rightarrow> BlockchainManager \<Rightarrow> string list" where
  "settle_output H ord bm = check_output H (ord (bm_noParentBlocks bm)) bm @
     (case checkPendingBlocks H (ord (bm_noParentBlocks bm)) bm False of
        Inl e \<Rightarrow> []
      | Inr (bm', changed) \<Rightarrow> if changed then settle_output H ord bm' else [])"
  by pat_completeness auto
termination
  by (relation "measure (\<lambda>(H, ord, bm). map_len (bm_noParentBlocks bm))")
    (auto dest!: checkPending_decreases)

declare settle_output.simps [simp del]

definition AddBlock_output :: "digest \<Rightarrow> ((hash, Block) fmap \<Rightarrow> hash list) \<Rightarrow> BlockchainManager \<Rightarrow> Block \<Rightarrow> string list" where
  "AddBlock_output H ord bm block =
    (if has_key (bm_blocks bm) (Block_Hash H block) then []
     else if \<not> IsGood H block then []
     else if \<not> has_key (bm_blocks bm) (b_PrevHash block) then []
     else append_output H bm block @
       (case appendToTheTree H bm block of Inl e \<Rightarrow> [] | Inr bm \<Rightarrow> settle_output H ord bm))"

text \<open>The lines of an attempt at mining, after it: \<open>bm\<close> is the new state.\<close>

definition mining_output :: "digest \<Rightarrow> BlockchainManager \<Rightarrow> Block option \<Rightarrow> string list" where
  "mining_output H bm mined =
    (case mined of
       None \<Rightarrow> []
     | Some newBlock \<Rightarrow> [''FOUND-BLOCK '' @ hex_EncodeToString (Block_Hash H newBlock) @ nl,
         printLongestChain H (bm_tail bm)])"

section \<open>Files\<close>

definition share_output :: "string \<Rightarrow> hash \<Rightarrow> string" where
  "share_output name metaHash = ''SHARED FILE '' @ name @ '' GOT METAHASH '' @ hex_EncodeToString metaHash @ nl"

definition finish_output :: "filesystem \<Rightarrow> downloadingFile \<Rightarrow> string list" where
  "finish_output fs df =
    (case compose_chunks fs df [] (df_ChunksHashesSlice df) of
       None \<Rightarrow> []
     | Some fileBytes \<Rightarrow> [''RECONSTRUCTED file '' @ df_Name df @ nl])"

definition df_reply_output :: "digest \<Rightarrow> filesystem \<Rightarrow> downloadingFile \<Rightarrow> DataReply \<Rightarrow> string list" where
  "df_reply_output H fs df drpmsg =
    (case GetTypeStrictHash (dp_HashValue drpmsg) of
       None \<Rightarrow> []
     | Some typedHashValue \<Rightarrow>
       let data = dp_Data drpmsg in
       if Sum256 H data \<noteq> typedHashValue then []
       else if df_Metafile df = None then
         (if snd (snd (gotMetafile fs df typedHashValue data))
          then [''DOWNLOADING metafile of '' @ df_Name df @ '' from '' @ dp_Origin drpmsg @ nl] else [])
       else if \<not> typedHashValue |\<in>| df_ChunksToDownload df then []
       else
         let df = df\<lparr>df_ChunksToDownload := df_ChunksToDownload df |-| {|typedHashValue|}\<rparr>
         in [''DOWNLOADING '' @ df_Name df @ '' chunk ''
              @ Itoa (int (length (df_ChunksHashesSlice df)) - int (fcard (df_ChunksToDownload df)))
              @ '' from '' @ dp_Origin drpmsg @ nl]
            @ (if df_ChunksToDownload df = {||}
               then finish_output (WriteFile fs (df_chunkPath fs df typedHashValue) data) df else []))"

definition reply_output :: "digest \<Rightarrow> filesystem \<Rightarrow> DownloadingFilesManager \<Rightarrow> string \<Rightarrow> DataReply \<Rightarrow> string list" where
  "reply_output H fs dfm origin drpmsg =
    (case fmlookup (dfm_downloadingFiles dfm) origin of
       None \<Rightarrow> []
     | Some df \<Rightarrow> df_reply_output H fs df drpmsg)"

section \<open>The lines of the chain\<close>

definition is_chain_line :: "string \<Rightarrow> bool" where
  "is_chain_line s = (take 5 s = ''CHAIN'')"

lemma chain_lines [simp]:
  "is_chain_line (printLongestChain H n)"
  "\<not> is_chain_line (''FORK-SHORTER '' @ s)" "\<not> is_chain_line (''FORK-LONGER rewind '' @ s)"
  "\<not> is_chain_line (''FOUND-BLOCK '' @ s)"
  by (simp_all add: is_chain_line_def printLongestChain_def)

lemma is_chain_line_Cons [simp]: "is_chain_line (a # b # c # d # k # s) \<longleftrightarrow> [a, b, c, d, k] = ''CHAIN''"
  by (simp add: is_chain_line_def)

text \<open>A block that is already in the tree and still waits is appended once more; this only
  writes that it is on a shorter branch.\<close>

lemma append_known_output:
  assumes "bm_inv H B bm" "collision_free H B" "fmlookup (bm_noParentBlocks bm) h = Some b" "has_key (bm_blocks bm) h"
  shows "append_output H (bm\<lparr>bm_noParentBlocks := fmdrop h (bm_noParentBlocks bm)\<rparr>) b
    = [''FORK-SHORTER '' @ hex_EncodeToString h @ nl]"
  by (rule known_is_short [OF assms]) (simp add: append_output_def)

lemma check_output_quiet:
  "collision_free H B \<Longrightarrow> bm_inv H B bm \<Longrightarrow> s \<in> set (check_output H ks bm) \<Longrightarrow> \<not> is_chain_line s"
proof (induction ks arbitrary: bm)
  case (Cons h ks)
  show ?case
  proof (cases "\<exists>b. fmlookup (bm_noParentBlocks bm) h = Some b \<and> has_key (bm_blocks bm) h")
    case True
    then obtain b where b: "fmlookup (bm_noParentBlocks bm) h = Some b" "has_key (bm_blocks bm) h" by blast
    from append_known [OF Cons.prems(2,1) b] obtain bm1 where
      a: "appendToTheTree H (bm\<lparr>bm_noParentBlocks := fmdrop h (bm_noParentBlocks bm)\<rparr>) b = Inr bm1"
        "bm_inv H B bm1" by blast
    have "s = ''FORK-SHORTER '' @ (hex_EncodeToString h @ nl) \<or> s \<in> set (check_output H ks bm1)"
      using Cons.prems(3) b a(1) append_known_output [OF Cons.prems(2,1) b] by (simp add: Let_def)
    then show ?thesis using Cons.IH [OF Cons.prems(1) a(2)] chain_lines(2) by metis
  next
    case False
    then have "check_output H (h # ks) bm = check_output H ks bm" by (auto split: option.splits)
    then show ?thesis using Cons by simp
  qed
qed simp

lemma settle_output_quiet:
  "collision_free H B \<Longrightarrow> bm_inv H B bm \<Longrightarrow> s \<in> set (settle_output H ord bm) \<Longrightarrow> \<not> is_chain_line s"
proof (induction H ord bm rule: settle_output.induct)
  case (1 H ord bm)
  from checkPendingBlocks_ok [OF "1.prems"(1,2)] obtain bm1 c where
    c: "checkPendingBlocks H (ord (bm_noParentBlocks bm)) bm False = Inr (bm1, c)" "bm_inv H B bm1" by blast
  have "s \<in> set (check_output H (ord (bm_noParentBlocks bm)) bm) \<or> c \<and> s \<in> set (settle_output H ord bm1)"
    using "1.prems"(3) c(1) by (subst (asm) settle_output.simps) (auto split: if_splits)
  then show ?case
    using check_output_quiet [OF "1.prems"(1,2)] "1.IH" [OF c(1) refl _ "1.prems"(1) c(2)] by blast
qed

text \<open>What an accepted block prints: the three cases of the comment at \<open>AddBlock\<close>.\<close>

lemma append_reports:
  assumes inv: "bm_inv H B bm" and k: "has_key (bm_blocks bm) (b_PrevHash b)" and a: "appendToTheTree H bm b = Inr bm'"
  obtains (extend) "append_output H bm b = [printLongestChain H (bm_tail bm')]"
      "bm_tail bm' = InitBlockNode (bm_next bm) (bm_tail bm) b"
  | (short) "append_output H bm b = [''FORK-SHORTER '' @ hex_EncodeToString (Block_Hash H b) @ nl]"
      "bm_tail bm' = bm_tail bm"
  | (switch) l p where "append_output H bm b =
        [''FORK-LONGER rewind '' @ Itoa (int (length (branch l (bm_tail bm)))) @ '' blocks'' @ nl,
         printLongestChain H (bm_tail bm')]"
      "bm_tail bm' = InitBlockNode (bm_next bm) p b" "shared_ancestor l (bm_tail bm) p"
  using inv k
proof (cases rule: append_cases)
  case extend
  then have "bm_tail bm' = InitBlockNode (bm_next bm) (bm_tail bm) b" using a by (auto simp: append_extend)
  then show ?thesis using that(1) extend by (simp add: append_output_def)
next
  case (short p)
  then have "bm_tail bm' = bm_tail bm" using a by (auto simp: append_short)
  then show ?thesis using that(2) short by (simp add: append_output_def)
next
  case (switch p)
  from append_switch [OF inv switch(2,1,3)] obtain l where
    l: "getLSA (bm_tail bm) p = Some l" "shared_ancestor l (bm_tail bm) p" "bm_tail bm' = InitBlockNode (bm_next bm) p b"
    using a by auto
  then have "l \<in> set (ancestors (bm_tail bm))" by (simp add: shared_ancestor_def)
  then show ?thesis using that(3) [OF _ l(3,2)] switch l by (simp add: append_output_def undo_history_ok)
qed

section \<open>The last chain printed\<close>

inductive bc_prints :: "digest \<Rightarrow> Block set \<Rightarrow> BlockchainManager \<Rightarrow> string list \<Rightarrow> bool" for H B where
  start: "bc_prints H B (InitBlockchainManager H) []"
| add_block: "bc_prints H B bm out \<Longrightarrow> b \<in> B \<Longrightarrow> AddBlock H ord bm b = Inr (bm', ok)
    \<Longrightarrow> bc_prints H B bm' (out @ AddBlock_output H ord bm b)"
| add_tx: "bc_prints H B bm out \<Longrightarrow> bc_prints H B (fst (AddTransaction bm tx)) out"
| mine: "bc_prints H B bm out \<Longrightarrow> DoMining H nonce ks seen ks' bm = (bm', mined) \<Longrightarrow> (\<And>nb. mined = Some nb \<Longrightarrow> nb \<in> B)
    \<Longrightarrow> bc_prints H B bm' (out @ mining_output H bm' mined)"

lemma prints_reach: "bc_prints H B bm out \<Longrightarrow> bc_reach H B bm"
proof (induction rule: bc_prints.induct)
  case (mine bm out nonce ks seen ks' bm' mined)
  then show ?case using bc_reach.mine [OF mine.IH, of nonce ks seen ks'] by simp
qed (auto intro: bc_reach.intros)

definition shows_tail :: "digest \<Rightarrow> blockNode \<Rightarrow> string list \<Rightarrow> bool" where
  "shows_tail H n out \<longleftrightarrow> (if isFake n then filter is_chain_line out = []
     else filter is_chain_line out \<noteq> [] \<and> last (filter is_chain_line out) = printLongestChain H n)"

lemma shows_tail_quiet: "(\<And>s. s \<in> set new \<Longrightarrow> \<not> is_chain_line s) \<Longrightarrow> shows_tail H n (out @ new) = shows_tail H n out"
  by (simp add: shows_tail_def filter_empty_conv)

lemma shows_tail_new: "\<not> isFake n \<Longrightarrow> shows_tail H n (out @ [printLongestChain H n])"
  by (simp add: shows_tail_def)

lemma Init_not_fake [simp]: "InitBlockNode a p b \<noteq> FakeNode x"
  by (simp add: InitBlockNode_def)

lemma AddBlock_shows:
  assumes inv: "bm_inv H B bm" and cf: "collision_free H B" and b: "b \<in> B"
    and a: "AddBlock H ord bm b = Inr (bm', ok)" and out: "shows_tail H (bm_tail bm) out"
  shows "shows_tail H (bm_tail bm') (out @ AddBlock_output H ord bm b)"
proof (cases "acceptable H bm b")
  case False
  then have "AddBlock_output H ord bm b = []" "bm_tail bm' = bm_tail bm"
    using AddBlock_refuse [OF False, of ord] a by (auto simp: AddBlock_output_def acceptable_def split: if_splits)
  then show ?thesis using out by simp
next
  case True
  from AddBlock_accept [OF inv cf b True, of ord] a obtain bm1 where
    bm1: "appendToTheTree H bm b = Inr bm1" "settled bm1 bm'" by auto
  have k: "has_key (bm_blocks bm) (b_PrevHash b)" using True by (simp add: acceptable_def)
  have i1: "bm_inv H B bm1" using append_inv [OF inv cf b _ k] True bm1(1) by (auto simp: acceptable_def)
  have "AddBlock_output H ord bm b = append_output H bm b @ settle_output H ord bm1"
    using True bm1(1) by (simp add: AddBlock_output_def acceptable_def)
  then have "shows_tail H (bm_tail bm') (out @ AddBlock_output H ord bm b)
      \<longleftrightarrow> shows_tail H (bm_tail bm1) (out @ append_output H bm b)"
    using shows_tail_quiet [OF settle_output_quiet [OF cf i1], where out = "out @ append_output H bm b"] bm1(2)
    by (simp add: settled_def)
  also have "\<dots>"
    using inv k bm1(1)
  proof (cases rule: append_reports)
    case extend
    then show ?thesis by (simp add: shows_tail_new)
  next
    case short
    then show ?thesis using out by (subst shows_tail_quiet) auto
  next
    case (switch l p)
    then show ?thesis using shows_tail_new [of "bm_tail bm1" H "out @ [hd (append_output H bm b)]"] by simp
  qed
  finally show ?thesis .
qed

text \<open>C24: At every moment of a run the last chain that the program has printed is the official
  chain: whenever the tail moves, by a block of a peer that extends it, by a switch to another
  branch or by a mined block, the chain is printed, and the lines about other branches and
  about blocks that are hung into the tree again do not change it. Before the first block
  nothing is printed.\<close>
theorem printed_chain_is_official:
  assumes "bc_prints H B bm out" "collision_free H B"
  shows "if isFake (bm_tail bm) then filter is_chain_line out = []
    else filter is_chain_line out \<noteq> [] \<and> last (filter is_chain_line out) = printLongestChain H (bm_tail bm)"
proof -
  have "shows_tail H (bm_tail bm) out" using assms(1)
  proof (induction rule: bc_prints.induct)
    case start
    then show ?case by (simp add: shows_tail_def InitBlockchainManager_def InitFakeBlockNode_def Let_def)
  next
    case (add_block bm out b ord bm' ok)
    then show ?case
      using AddBlock_shows [OF bc_reach_inv [OF prints_reach assms(2)] assms(2)] by blast
  next
    case (add_tx bm out tx)
    then show ?case by (simp add: AddTransaction_state)
  next
    case (mine bm out nonce ks seen ks' bm' mined)
    show ?case
    proof (cases mined)
      case None
      then show ?thesis using mine DoMining_none [of H nonce ks seen ks' bm] by (simp add: mining_output_def)
    next
      case (Some nb)
      then have "bm_tail bm' = InitBlockNode (bm_next bm) (bm_tail bm) nb"
        using DoMining_some [of H nonce ks seen ks' bm bm' nb] mine(2) by auto
      then show ?thesis
        using shows_tail_new [of "bm_tail bm'" H "out @ [hd (mining_output H bm' mined)]"] Some
        by (simp add: mining_output_def)
    qed
  qed
  then show ?thesis by (simp add: shows_tail_def)
qed

theorem printed_chain_is_official_witness:
  "\<exists>out. bc_prints toy toy_universe stateC out
     \<and> last (filter is_chain_line out) = printLongestChain toy (bm_tail stateC)"
proof -
  have "bc_prints toy toy_universe (InitBlockchainManager toy) []" by (rule bc_prints.start)
  from bc_prints.add_block [OF this _ add_blockA] obtain outA where "bc_prints toy toy_universe stateA outA"
    by (auto simp: toy_universe_def)
  from bc_prints.add_block [OF this _ add_blockB] obtain outB where "bc_prints toy toy_universe stateB outB"
    by (auto simp: toy_universe_def)
  from bc_prints.add_block [OF this _ add_blockC] obtain out where out: "bc_prints toy toy_universe stateC out"
    by (auto simp: toy_universe_def)
  then show ?thesis
    using printed_chain_is_official [OF out toy_universe_collision_free] by (auto simp: stateC_def)
qed

end
