(* ===== verification/Handlers.thy ===== *)
theory Handlers
  imports Gossiper StdoutText
begin

text \<open>
  The message processor of a gossiper (\<open>gossiper/Gossiper.go\<close>): what it does with an order
  of the client and with a packet of a peer. Each definition is the method of the same name;
  the mutexes are not modelled here, a handler is one atomic operation.
\<close>

section \<open>Rumors\<close>

text \<open>A nil peer means a random one, drawn with \<open>r\<close>.\<close>

definition spreadTheRumor :: "nat \<Rightarrow> Gossiper \<Rightarrow> RumorMessage \<Rightarrow> udpaddr \<Rightarrow> result" where
  "spreadTheRumor r g rmsg peer =
    go_map (\<lambda>peer.
        if peer |\<in>| g_statusesChannels g then (g, [])
        else (g\<lparr>g_statusesChannels := finsert peer (g_statusesChannels g)\<rparr>,
              [SendPacket peer (EmptyPacket\<lparr>gp_Rumor := Some rmsg\<rparr>),
               Stdout (''MONGERING with '' @ peer @ nl), GoMongering rmsg peer]))
      (if peer = nil_addr then getRandomPeer r g else Inr peer)"

definition processRumorMessage :: "env \<Rightarrow> Gossiper \<Rightarrow> RumorMessage \<Rightarrow> result" where
  "processRumorMessage e g rmsg =
    (case AddRumorMessage (g_messageStorage g) rmsg of
       (ms, isNewMessage) \<Rightarrow>
         let g = g\<lparr>g_messageStorage := ms\<rparr> in
         if isNewMessage then
           (if arePeersEmpty g then Inr (g, []) else spreadTheRumor (e_rand e) g rmsg nil_addr)
         else Inr (g, []))"

definition current_status :: "env \<Rightarrow> Gossiper \<Rightarrow> GossipPacket" where
  "current_status e g = EmptyPacket\<lparr>gp_Status := Some (GetCurrentStatusPacket
     (e_clockOrder e (VectorClock (g_messageStorage g))) (g_messageStorage g))\<rparr>"

definition processAddressedRumorMessage :: "env \<Rightarrow> Gossiper \<Rightarrow> RumorMessage \<Rightarrow> udpaddr \<Rightarrow> result" where
  "processAddressedRumorMessage e g rmsg address =
    andthen (Inr (g, [SendPacket address (current_status e g)])) (\<lambda>g.
    andthen (Inr (if IsNewMessage (g_messageStorage g) rmsg
                  then updateNextHop g (rm_OriginalName rmsg) address else (g, []))) (\<lambda>g.
    processRumorMessage e g rmsg))"

text \<open>What follows the comparison with a status, when no rumor is missing on the other side:
  shared by the processor and the mongering goroutine.\<close>

definition status_diff_of :: "env \<Rightarrow> Gossiper \<Rightarrow> StatusPacket \<Rightarrow> (RumorMessage option \<times> bool) go" where
  "status_diff_of e g sp = Diff (e_clockOrder e (VectorClock (g_messageStorage g))) (g_messageStorage g) sp"

definition processAddressedStatusPacket :: "env \<Rightarrow> Gossiper \<Rightarrow> StatusPacket \<Rightarrow> udpaddr \<Rightarrow> result" where
  "processAddressedStatusPacket e g sp address =
    (if address |\<in>| g_statusesChannels g then
       Inr (g\<lparr>g_statusesChannels := g_statusesChannels g |-| {|address|}\<rparr>, [ToMongering address sp])
     else go_bind (status_diff_of e g sp) (\<lambda>(rmsg, otherHasSomethingNew).
       case rmsg of
         Some rmsg \<Rightarrow> spreadTheRumor (e_rand e) g rmsg address
       | None \<Rightarrow>
           if otherHasSomethingNew then Inr (g, [SendPacket address (current_status e g)])
           else Inr (g, [Stdout (''IN SYNC WITH '' @ address @ nl)])))"

section \<open>Simple messages\<close>

text \<open>A message of the client comes without an address.\<close>

definition processAddressedSimpleMessage :: "Gossiper \<Rightarrow> SimpleMessage \<Rightarrow> udpaddr option \<Rightarrow> result" where
  "processAddressedSimpleMessage g smsg address =
    (let smsg = smsg\<lparr>sm_RelayPeerAddr := g_localAddr g\<rparr> in
     Inr (g, map (\<lambda>peer. SendPacket peer (EmptyPacket\<lparr>gp_Simple := Some smsg\<rparr>))
               (filter (\<lambda>peer. address \<noteq> Some peer) (g_peers g))))"

section \<open>Messages with a destination\<close>

definition processPrivateMessage :: "Gossiper \<Rightarrow> PrivateMessage \<Rightarrow> result" where
  "processPrivateMessage g pmsg =
    (if pm_Destination pmsg = g_name g then
       Inr (g\<lparr>g_messageStorage := fst (AddPrivateMessage (g_messageStorage g) pmsg (g_name g))\<rparr>, [])
     else if pm_HopLimit pmsg \<le> 0 then Inr (g, [])
     else let pmsg = pmsg\<lparr>pm_HopLimit := pm_HopLimit pmsg - 1\<rparr> in
       Inr (g, sendPacketWithNextHop g (pm_Destination pmsg) (EmptyPacket\<lparr>gp_Private := Some pmsg\<rparr>)))"

definition processAddressedPrivateMessage :: "Gossiper \<Rightarrow> PrivateMessage \<Rightarrow> udpaddr \<Rightarrow> result" where
  [simp]: "processAddressedPrivateMessage g pmsg address = processPrivateMessage g pmsg"

text \<open>What the two managers hold for a hash.\<close>

definition requested_data :: "env \<Rightarrow> Gossiper \<Rightarrow> byte list \<Rightarrow> byte list option" where
  "requested_data e g hashValue =
    (let sfm = g_sharedFilesManager g; dfm = g_downloadingFilesManager g in
     case sfm_GetChunkOrMetafile (e_sharedOrder e (sfm_sharedFiles sfm)) (g_disk g) sfm hashValue of
       Some d \<Rightarrow> Some d
     | None \<Rightarrow> dfm_GetChunkOrMetafile (e_downloadingOrder e (dfm_downloadingFiles dfm))
         (e_downloadedOrder e (dfm_downloadedFiles dfm)) (g_disk g) dfm hashValue)"

definition processDataRequest :: "env \<Rightarrow> Gossiper \<Rightarrow> DataRequest \<Rightarrow> result" where
  "processDataRequest e g drqmsg =
    (if dq_Destination drqmsg = g_name g then
       (case requested_data e g (dq_HashValue drqmsg) of
          None \<Rightarrow> Inr (g, [])
        | Some requestedData \<Rightarrow>
            let drpmsg = \<lparr>dp_Origin = g_name g, dp_Destination = dq_Origin drqmsg, dp_HopLimit = DefaultHopLimit,
                  dp_HashValue = dq_HashValue drqmsg, dp_Data = requestedData\<rparr>
            in Inr (g, sendPacketWithNextHop g (dp_Destination drpmsg) (EmptyPacket\<lparr>gp_DataReply := Some drpmsg\<rparr>)))
     else if dq_HopLimit drqmsg \<le> 0 then Inr (g, [])
     else let drqmsg = drqmsg\<lparr>dq_HopLimit := dq_HopLimit drqmsg - 1\<rparr> in
       Inr (g, sendPacketWithNextHop g (dq_Destination drqmsg) (EmptyPacket\<lparr>gp_DataRequest := Some drqmsg\<rparr>)))"

definition processAddressedDataRequest :: "env \<Rightarrow> Gossiper \<Rightarrow> DataRequest \<Rightarrow> udpaddr \<Rightarrow> result" where
  [simp]: "processAddressedDataRequest e g drqmsg address = processDataRequest e g drqmsg"

definition processDataReply :: "Gossiper \<Rightarrow> DataReply \<Rightarrow> result" where
  "processDataReply g drpmsg =
    (if dp_Destination drpmsg \<noteq> g_name g then
       (if dp_HopLimit drpmsg \<le> 0 then Inr (g, [])
        else let drpmsg = drpmsg\<lparr>dp_HopLimit := dp_HopLimit drpmsg - 1\<rparr> in
          Inr (g, sendPacketWithNextHop g (dp_Destination drpmsg) (EmptyPacket\<lparr>gp_DataReply := Some drpmsg\<rparr>)))
     else if dp_Origin drpmsg |\<in>| g_downloadingFilesChannels g
       then Inr (g, [ToDownloading (dp_Origin drpmsg) drpmsg])
     else Inr (g, []))"

definition processAddressedDataReply :: "Gossiper \<Rightarrow> DataReply \<Rightarrow> udpaddr \<Rightarrow> result" where
  [simp]: "processAddressedDataReply g drpmsg address = processDataReply g drpmsg"

definition processAddressedSearchReply :: "Gossiper \<Rightarrow> SearchReply \<Rightarrow> result" where
  "processAddressedSearchReply g srpmsg =
    (if sp_Destination srpmsg \<noteq> g_name g then
       (if sp_HopLimit srpmsg \<le> 0 then Inr (g, [])
        else let srpmsg = srpmsg\<lparr>sp_HopLimit := sp_HopLimit srpmsg - 1\<rparr> in
          Inr (g, sendPacketWithNextHop g (sp_Destination srpmsg) (EmptyPacket\<lparr>gp_SearchReply := Some srpmsg\<rparr>)))
     else (case g_currentSearchRequest g of
         None \<Rightarrow> Inr (g, [])
       | Some csr \<Rightarrow>
           if \<not> IsAlive csr then Inr (g, [])
           else Inr (g, case ForwardSearchReply csr srpmsg of None \<Rightarrow> [] | Some srp \<Rightarrow> [ToSearching srp])))"

section \<open>Search requests\<close>

definition search_results :: "env \<Rightarrow> Gossiper \<Rightarrow> string list \<Rightarrow> SearchResult list" where
  "search_results e g keywords =
    (let sfm = g_sharedFilesManager g; dfm = g_downloadingFilesManager g in
     sfm_GetSearchResults (e_re e) (e_sharedOrder e (sfm_sharedFiles sfm)) sfm keywords
     @ dfm_GetSearchResults (e_re e) (e_downloadingOrder e (dfm_downloadingFiles dfm))
         (e_downloadedOrder e (dfm_downloadedFiles dfm)) dfm keywords)"

definition search_packet :: "SearchRequest \<Rightarrow> int \<Rightarrow> GossipPacket" where
  "search_packet srqmsg newbudget = EmptyPacket\<lparr>gp_SearchRequest := Some
     \<lparr>sq_Origin = sq_Origin srqmsg, sq_Budget = word_of_int newbudget, sq_Keywords = sq_Keywords srqmsg\<rparr>\<rparr>"

definition forward_search :: "Gossiper \<Rightarrow> SearchRequest \<Rightarrow> int \<Rightarrow> effect list go" where
  "forward_search g srqmsg budget =
     go_map (map (\<lambda>(peer, newbudget). SendPacket peer (search_packet srqmsg newbudget)))
       (split_budget budget (g_peers g))"

definition processSearchRequest :: "env \<Rightarrow> Gossiper \<Rightarrow> SearchRequest \<Rightarrow> result" where
  "processSearchRequest e g srqmsg =
    (let budget = sint (sq_Budget srqmsg) in
     if sq_Origin srqmsg \<noteq> g_name g then
       let matchedFiles = search_results e g (sq_Keywords srqmsg);
           reply = (if matchedFiles \<noteq> [] then
             sendPacketWithNextHop g (sq_Origin srqmsg) (EmptyPacket\<lparr>gp_SearchReply := Some
               \<lparr>sp_Origin = g_name g, sp_Destination = sq_Origin srqmsg, sp_HopLimit = DefaultHopLimit,
                sp_Results = matchedFiles\<rparr>\<rparr>) else []);
           budget = int64 (budget - 1)
       in if budget \<le> 0 then Inr (g, reply)
          else go_map (\<lambda>sends. (g, reply @ sends)) (forward_search g srqmsg budget)
     else go_map (\<lambda>sends. (g, sends)) (forward_search g srqmsg budget))"

definition processAddressedSearchRequest :: "env \<Rightarrow> Gossiper \<Rightarrow> SearchRequest \<Rightarrow> result" where
  "processAddressedSearchRequest e g srqmsg =
    (let setkey = GetRecentSearchRequestSetKey (sq_Origin srqmsg) (sq_Keywords srqmsg) in
     if setkey |\<in>| g_recentSearchRequests g then Inr (g, [])
     else andthen (Inr (g\<lparr>g_recentSearchRequests := finsert setkey (g_recentSearchRequests g)\<rparr>, [ForgetLater setkey]))
       (\<lambda>g. processSearchRequest e g srqmsg))"

text \<open>The goroutine that ends the time for which a search request counts as recent.\<close>

definition forget_search :: "Gossiper \<Rightarrow> string \<Rightarrow> Gossiper" where
  "forget_search g setkey = g\<lparr>g_recentSearchRequests := g_recentSearchRequests g |-| {|setkey|}\<rparr>"

section \<open>Transactions and blocks\<close>

definition processTxPublish :: "Gossiper \<Rightarrow> TxPublish \<Rightarrow> result" where
  "processTxPublish g tx =
    (case AddTransaction (g_blockchainManager g) tx of
       (bm, isNew) \<Rightarrow>
         let g = g\<lparr>g_blockchainManager := bm\<rparr> in
         if isNew then
           (if tx_HopLimit tx \<le> 0 then Inr (g, [])
            else Inr (g, sendAllPeers g (EmptyPacket\<lparr>gp_TxPublish := Some
                   \<lparr>tx_File = tx_File tx, tx_HopLimit = tx_HopLimit tx - 1\<rparr>\<rparr>)))
         else Inr (g, []))"

definition processBlockPublish :: "env \<Rightarrow> Gossiper \<Rightarrow> BlockPublish \<Rightarrow> result" where
  "processBlockPublish e g bp =
    go_map (\<lambda>(bm, isNew).
        let out = map Stdout (AddBlock_output (e_H e) (e_pendingOrder e) (g_blockchainManager g) (bp_Block bp));
            g = g\<lparr>g_blockchainManager := bm\<rparr> in
        if isNew then
          (if bp_HopLimit bp \<le> 0 then (g, out)
           else (g, out @ sendAllPeers g (EmptyPacket\<lparr>gp_BlockPublish := Some
                  \<lparr>bp_Block = bp_Block bp, bp_HopLimit = bp_HopLimit bp - 1\<rparr>\<rparr>)))
        else (g, out))
      (AddBlock (e_H e) (e_pendingOrder e) (g_blockchainManager g) (bp_Block bp))"

section \<open>Orders about files\<close>

definition processClientToShare :: "env \<Rightarrow> Gossiper \<Rightarrow> ClientToShareMessage \<Rightarrow> result" where
  "processClientToShare e g ctsmsg =
    go_map (\<lambda>(fs, sfm, r).
        let g = g\<lparr>g_disk := fs, g_sharedFilesManager := sfm\<rparr> in
        case r of
          None \<Rightarrow> (g, [])
        | Some (name, metafileHash, fileSize) \<Rightarrow>
            let tx = \<lparr>tx_File = \<lparr>f_Name = name, f_Size = word_of_nat fileSize, f_MetafileHash = metafileHash\<rparr>,
                      tx_HopLimit = BlockchainTxHopLimit\<rparr>
            in (case AddTransaction (g_blockchainManager g) tx of
                  (bm, isAllowed) \<Rightarrow>
                    let g = g\<lparr>g_blockchainManager := bm\<rparr> in
                    (g, Stdout (share_output name metafileHash)
                      # (if isAllowed then sendAllPeers g (EmptyPacket\<lparr>gp_TxPublish := Some tx\<rparr>) else []))))
      (ShareFile (e_H e) (g_disk g) (g_sharedFilesManager g) (ts_Path ctsmsg))"

definition data_request :: "Gossiper \<Rightarrow> string \<Rightarrow> byte list \<Rightarrow> GossipPacket" where
  "data_request g origin hashValue = EmptyPacket\<lparr>gp_DataRequest := Some
     \<lparr>dq_Origin = g_name g, dq_Destination = origin, dq_HopLimit = DefaultHopLimit, dq_HashValue = hashValue\<rparr>\<rparr>"

definition processClientDataRequest :: "Gossiper \<Rightarrow> ClientToDownloadMessage \<Rightarrow> result" where
  "processClientDataRequest g cdrqmsg =
    (let origin = td_Destination cdrqmsg in
     if origin = [] then
       (case g_currentSearchRequest g of
          None \<Rightarrow> Inl NilDereference
        | Some csr \<Rightarrow> Inr (g, order_effect (DownloadFileByHash csr (td_HashValue cdrqmsg) (td_Name cdrqmsg))))
     else
       (case StartDownloadingFromOrigin (g_downloadingFilesManager g) origin (td_Name cdrqmsg) (td_HashValue cdrqmsg) of
          (dfm, started) \<Rightarrow>
            if \<not> started then Inr (g\<lparr>g_downloadingFilesManager := dfm\<rparr>, [])
            else
              let g = g\<lparr>g_downloadingFilesManager := dfm,
                        g_downloadingFilesChannels := finsert origin (g_downloadingFilesChannels g)\<rparr>
              in Inr (g, sendPacketWithNextHop g origin (data_request g origin (td_HashValue cdrqmsg))
                         @ [GoDownloading origin (td_HashValue cdrqmsg)])))"

definition processClientSearchRequest :: "Gossiper \<Rightarrow> ClientToSearchMessage \<Rightarrow> result" where
  "processClientSearchRequest g csrqmsg =
    (if (case g_currentSearchRequest g of None \<Rightarrow> False | Some csr \<Rightarrow> IsAlive csr) then Inr (g, [])
     else Inr (g\<lparr>g_currentSearchRequest := Some (InitCurrentSearchRequest (g_clientPort g))\<rparr>,
               [GoSearching (sc_Keywords csrqmsg) (sint (sc_Budget csrqmsg))]))"

section \<open>The message processor\<close>

text \<open>The next rumor of the gossiper's own name.\<close>

definition own_rumor :: "Gossiper \<Rightarrow> string \<Rightarrow> RumorMessage" where
  "own_rumor g text = \<lparr>rm_OriginalName = g_name g, rm_ID = GetNextMessageId (g_messageStorage g) (g_name g),
     rm_Text = text\<rparr>"

definition processClientMessage :: "env \<Rightarrow> Gossiper \<Rightarrow> ClientMessage \<Rightarrow> result" where
  "processClientMessage e g cmsg =
    (case cm_Rumor cmsg of
       Some rumor \<Rightarrow>
         if g_isSimpleMode g then processAddressedSimpleMessage g
           \<lparr>sm_OriginalName = g_name g, sm_RelayPeerAddr = [], sm_Text = cr_Text rumor\<rparr> None
         else processRumorMessage e g (own_rumor g (cr_Text rumor))
     | None \<Rightarrow>
    (case cm_RouteRumor cmsg of
       Some _ \<Rightarrow> if g_isSimpleMode g then Inr (g, []) else processRumorMessage e g (own_rumor g [])
     | None \<Rightarrow>
    (case cm_Private cmsg of
       Some private \<Rightarrow> processPrivateMessage g
         \<lparr>pm_Origin = g_name g, pm_ID = 0, pm_Text = cp_Text private, pm_Destination = cp_Destination private,
          pm_HopLimit = DefaultHopLimit\<rparr>
     | None \<Rightarrow>
    (case cm_ToShare cmsg of Some ctsmsg \<Rightarrow> processClientToShare e g ctsmsg
     | None \<Rightarrow>
    (case cm_ToDownload cmsg of Some cdrqmsg \<Rightarrow> processClientDataRequest g cdrqmsg
     | None \<Rightarrow>
    (case cm_ToSearch cmsg of Some csrqmsg \<Rightarrow> processClientSearchRequest g csrqmsg
     | None \<Rightarrow> Inr (g, [])))))))"

definition processAddressedGossipPacket :: "env \<Rightarrow> Gossiper \<Rightarrow> AddressedGossipPacket \<Rightarrow> result" where
  "processAddressedGossipPacket e g agp =
    (let gp = agp_Packet agp; address = agp_Address agp; g = UpdatePeersIfNeeded g address in
     case gp_Rumor gp of Some rmsg \<Rightarrow> processAddressedRumorMessage e g rmsg address
     | None \<Rightarrow>
    (case gp_Status gp of Some sp \<Rightarrow> processAddressedStatusPacket e g sp address
     | None \<Rightarrow>
    (case gp_Simple gp of Some smsg \<Rightarrow> processAddressedSimpleMessage g smsg (Some address)
     | None \<Rightarrow>
    (case gp_Private gp of Some pmsg \<Rightarrow> processAddressedPrivateMessage g pmsg address
     | None \<Rightarrow>
    (case gp_DataRequest gp of Some drqmsg \<Rightarrow> processAddressedDataRequest e g drqmsg address
     | None \<Rightarrow>
    (case gp_DataReply gp of Some drpmsg \<Rightarrow> processAddressedDataReply g drpmsg address
     | None \<Rightarrow>
    (case gp_SearchRequest gp of Some srqmsg \<Rightarrow> processAddressedSearchRequest e g srqmsg
     | None \<Rightarrow>
    (case gp_SearchReply gp of Some srpmsg \<Rightarrow> processAddressedSearchReply g srpmsg
     | None \<Rightarrow>
    (case gp_TxPublish gp of Some tx \<Rightarrow> processTxPublish g tx
     | None \<Rightarrow>
    (case gp_BlockPublish gp of Some bp \<Rightarrow> processBlockPublish e g bp
     | None \<Rightarrow> Inr (g, [])))))))))))"

text \<open>The two cases of the processor's loop: what is printed first, then the handler.\<close>

definition printed :: "Gossiper \<Rightarrow> string \<times> bool \<Rightarrow> effect list" where
  "printed g p = (if snd p then Stdout (fst p) # printPeers g else [])"

definition process_client :: "env \<Rightarrow> Gossiper \<Rightarrow> ClientMessage \<Rightarrow> result" where
  "process_client e g cmsg =
     andthen (Inr (g, printed g (ClientMessage_Print cmsg))) (\<lambda>g. processClientMessage e g cmsg)"

definition process_packet :: "env \<Rightarrow> Gossiper \<Rightarrow> AddressedGossipPacket \<Rightarrow> result" where
  "process_packet e g agp =
     andthen (Inr (g, printed g (AddressedGossipPacket_Print agp))) (\<lambda>g. processAddressedGossipPacket e g agp)"

end
