(* ===== verification/Samples.thy ===== *)
theory Samples
  imports Gossiper FileProps
begin

text \<open>
  Small gossipers for the witnesses, over the empty disk of \<open>FileProps\<close> and its digest.
\<close>

definition sample :: "string \<Rightarrow> udpaddr list \<Rightarrow> (string, udpaddr) fmap \<Rightarrow> Gossiper" where
  "sample name peers routes = \<lparr>g_name = name, g_peersAddress = ''a:1'', g_localAddr = ''a:1'', g_clientPort = 4848,
     g_peers = peers, g_nextHop = routes, g_messageStorage = InitMessageStorage name,
     g_sharedFilesManager = no_shared, g_downloadingFilesManager = no_downloads,
     g_blockchainManager = InitBlockchainManager pad, g_currentSearchRequest = None,
     g_recentSearchRequests = {||}, g_isSimpleMode = False, g_statusesChannels = {||},
     g_downloadingFilesChannels = {||}, g_disk = fresh_disk\<rparr>"

lemma sample_sel [simp]:
  "g_name (sample n ps r) = n" "g_peers (sample n ps r) = ps" "g_nextHop (sample n ps r) = r"
  "g_messageStorage (sample n ps r) = InitMessageStorage n" "g_currentSearchRequest (sample n ps r) = None"
  "g_blockchainManager (sample n ps r) = InitBlockchainManager pad" "g_disk (sample n ps r) = fresh_disk"
  "g_sharedFilesManager (sample n ps r) = no_shared" "g_downloadingFilesManager (sample n ps r) = no_downloads"
  "g_statusesChannels (sample n ps r) = {||}" "g_recentSearchRequests (sample n ps r) = {||}"
  "g_downloadingFilesChannels (sample n ps r) = {||}" "g_isSimpleMode (sample n ps r) = False"
  by (simp_all add: sample_def)

lemma Init_fresh: "InitSharedFilesManager empty_disk = (fst (InitSharedFilesManager empty_disk), no_shared)"
  "InitDownloadingFilesManager (fst (InitSharedFilesManager empty_disk)) = (fresh_disk, no_downloads)"
  by (simp_all add: InitSharedFilesManager_def InitDownloadingFilesManager_def Let_def no_shared_def
      no_downloads_def fresh_disk_def)

lemma sample_start:
  "n \<noteq> [] \<Longrightarrow> resolve_peers Some (strings_Split ps (CHR '','')) = Some as \<Longrightarrow>
   NewGossiper pad Some Some empty_disk n 4848 ''a:1'' ps False = (fresh_disk, Some (sample n as fmempty))"
  by (subst NewGossiper_def, subst Init_fresh) (simp add: Init_fresh(2) sample_def)

lemma sample_starts:
  "NewGossiper pad Some Some empty_disk ''A'' 4848 ''a:1'' ''b:2'' False = (fresh_disk, Some (sample ''A'' [''b:2''] fmempty))"
  "NewGossiper pad Some Some empty_disk ''A'' 4848 ''a:1'' [] False = (fresh_disk, Some (sample ''A'' [] fmempty))"
  "NewGossiper pad Some Some empty_disk ''B'' 4848 ''a:1'' ''c:3'' False = (fresh_disk, Some (sample ''B'' [''c:3''] fmempty))"
  by (rule sample_start; simp)+

text \<open>The environment that draws 0 and visits a map in the order of its keys, or in no order.\<close>

definition sample_env :: env where
  "sample_env = \<lparr>e_H = pad, e_re = (\<lambda>p s. Some True), e_clockOrder = sorted_keys, e_sharedOrder = (\<lambda>m. []),
     e_downloadingOrder = sorted_keys, e_downloadedOrder = (\<lambda>m. []), e_pendingOrder = (\<lambda>m. []),
     e_chunkOrder = (\<lambda>s. []), e_hopOrder = sorted_keys, e_rand = 0, e_rand' = 0, e_coin = 0\<rparr>"

lemma sample_env_H [simp]: "e_H sample_env = pad" "e_rand sample_env = 0" "e_coin sample_env = 0"
  by (simp_all add: sample_env_def)

end
