(* ===== verification/Routing.thy ===== *)
theory Routing
  imports Handlers Samples
begin

text \<open>
  Messages with a destination travel along the routes of the gossipers: private messages,
  data requests, data replies and search replies. The four handlers of
  \<open>gossiper/Gossiper.go\<close> are copies of each other in this respect. \<open>hop_limited\<close> is what they
  have in common; it gives how far a message comes over a network with fixed routes, and
  is interpreted on each of them.
\<close>

section \<open>A message on its way\<close>

text \<open>\<open>net\<close> gives the gossiper at an address. The step that a handler makes with a message, if
  it sends the message on.\<close>

definition onward :: "(Gossiper \<Rightarrow> 'm \<Rightarrow> result) \<Rightarrow> (GossipPacket \<Rightarrow> 'm option) \<Rightarrow> (udpaddr \<Rightarrow> Gossiper)
    \<Rightarrow> udpaddr \<times> 'm \<Rightarrow> (udpaddr \<times> 'm) option" where
  "onward handle unpack net = (\<lambda>(a, m). case handle (net a) m of
     Inr (g, [SendPacket b p]) \<Rightarrow> map_option (\<lambda>m'. (b, m')) (unpack p)
   | _ \<Rightarrow> None)"

text \<open>Where the message is after at most \<open>n\<close> steps, with the gossipers it visits on the way.\<close>

fun trail :: "('s \<Rightarrow> 's option) \<Rightarrow> nat \<Rightarrow> 's \<Rightarrow> 's list" where
  "trail step 0 s = [s]"
| "trail step (Suc n) s = s # (case step s of None \<Rightarrow> [] | Some s' \<Rightarrow> trail step n s')"

text \<open>The routes lead from \<open>a\<close> to the gossiper with name \<open>d\<close> in exactly \<open>k\<close> steps.\<close>

fun route_to :: "(udpaddr \<Rightarrow> Gossiper) \<Rightarrow> string \<Rightarrow> nat \<Rightarrow> udpaddr \<Rightarrow> udpaddr option" where
  "route_to net d 0 a = (if g_name (net a) = d then Some a else None)"
| "route_to net d (Suc k) a =
     (if g_name (net a) = d then None
      else (case fmlookup (g_nextHop (net a)) d of
          None \<Rightarrow> None
        | Some b \<Rightarrow> if b = nil_addr then None else route_to net d k b))"

lemma trail_not_empty [simp]: "trail step n s \<noteq> []"
  by (cases n) auto

locale hop_limited =
  fixes destination :: "'m \<Rightarrow> string"
    and hops :: "'m \<Rightarrow> u32"
    and with_hops :: "u32 \<Rightarrow> 'm \<Rightarrow> 'm"
    and packet :: "'m \<Rightarrow> GossipPacket"
    and unpack :: "GossipPacket \<Rightarrow> 'm option"
    and handle :: "Gossiper \<Rightarrow> 'm \<Rightarrow> result"
  assumes forward: "destination m \<noteq> g_name g \<Longrightarrow> handle g m = Inr (g,
        if hops m = 0 then [] else sendPacketWithNextHop g (destination m) (packet (with_hops (hops m - 1) m)))"
    and arrived: "destination m = g_name g \<Longrightarrow> handle g m = Inr (g', es) \<Longrightarrow> SendPacket b p \<in> set es
        \<Longrightarrow> unpack p = None"
    and unpack_packet: "unpack (packet m) = Some m"
    and destination_with: "destination (with_hops h m) = destination m"
    and hops_with: "hops (with_hops h m) = h"
    and with_with: "with_hops h (with_hops h' m) = with_hops h m"
    and with_same: "with_hops (hops m) m = m"
begin

abbreviation step :: "(udpaddr \<Rightarrow> Gossiper) \<Rightarrow> udpaddr \<times> 'm \<Rightarrow> (udpaddr \<times> 'm) option" where
  "step \<equiv> onward handle unpack"

lemma step_arrived: "destination m = g_name (net a) \<Longrightarrow> step net (a, m) = None"
  using arrived [of m "net a"]
  by (fastforce simp: onward_def split: sum.splits prod.splits list.splits effect.splits)

lemma step_forward:
  assumes "destination m \<noteq> g_name (net a)"
  shows "step net (a, m) = (if hops m = 0 then None else
    (case fmlookup (g_nextHop (net a)) (destination m) of
       None \<Rightarrow> None
     | Some b \<Rightarrow> if b = nil_addr then None else Some (b, with_hops (hops m - 1) m)))"
  using forward [OF assms] by (auto simp: onward_def sendPacketWithNextHop_def unpack_packet split: option.splits)

lemma step_hops: "step net (a, m) = Some (b, m') \<Longrightarrow> hops m \<noteq> 0 \<and> m' = with_hops (hops m - 1) m
    \<and> destination m \<noteq> g_name (net a)"
  using step_arrived step_forward by (cases "destination m = g_name (net a)") (auto split: if_splits option.splits)

lemma unat_pred: "h \<noteq> 0 \<Longrightarrow> unat (h - 1 :: u32) = unat h - 1"
  by (simp add: unat_minus_one)

text \<open>Also on routes that form a loop, a message is sent on at most as often as its hop limit
  says.\<close>

lemma trail_bounded: "length (trail (step net) n (a, m)) \<le> Suc (unat (hops m))"
proof (induction n arbitrary: a m)
  case (Suc n)
  show ?case
  proof (cases "step net (a, m)")
    case (Some s)
    then obtain b m' where s: "s = (b, m')" by (cases s)
    from step_hops [OF Some [unfolded s]] have "hops m \<noteq> 0" "hops m' = hops m - 1"
      by (simp_all add: hops_with)
    then have "Suc (unat (hops m')) = unat (hops m)"
      using unat_pred [of "hops m"] by (simp add: unat_gt_0)
    with Suc.IH [of b m'] Some s show ?thesis by simp
  qed simp
qed simp

text \<open>A route within the hop limit is followed to its end.\<close>

lemma trail_delivers:
  "route_to net (destination m) k a = Some b \<Longrightarrow> k \<le> unat (hops m) \<Longrightarrow> k \<le> n \<Longrightarrow>
   last (trail (step net) n (a, m)) = (b, with_hops (hops m - word_of_nat k) m)
     \<and> g_name (net b) = destination m \<and> length (trail (step net) n (a, m)) = Suc k"
proof (induction k arbitrary: a m n)
  case 0
  then have "g_name (net a) = destination m" "b = a" by (auto split: if_splits)
  then show ?case using step_arrived [of m net a] by (cases n) (auto simp: with_same)
next
  case (Suc k)
  then obtain c where c: "g_name (net a) \<noteq> destination m" "fmlookup (g_nextHop (net a)) (destination m) = Some c"
    "c \<noteq> nil_addr" "route_to net (destination m) k c = Some b" by (auto split: if_splits option.splits)
  obtain n' where n: "n = Suc n'" "k \<le> n'" using Suc.prems(3) by (cases n) auto
  let ?m = "with_hops (hops m - 1) m"
  have h: "hops m \<noteq> 0" using Suc.prems(2) by auto
  have s: "step net (a, m) = Some (c, ?m)" using step_forward [of m net a] c h by simp
  have "k \<le> unat (hops ?m)" using Suc.prems(2) h by (simp add: hops_with unat_pred)
  from Suc.IH [of ?m c, OF _ this n(2)] c(4) show ?case
    using s n by (simp add: destination_with hops_with with_with diff_diff_eq add.commute)
qed

text \<open>A route that is longer is not: the message ends underway.\<close>

lemma trail_expires:
  "route_to net (destination m) k a = Some b \<Longrightarrow> unat (hops m) < k \<Longrightarrow> (c, m') \<in> set (trail (step net) n (a, m)) \<Longrightarrow>
   g_name (net c) \<noteq> destination m"
proof (induction n arbitrary: a m k)
  case 0
  then show ?case by (cases k) (auto split: if_splits)
next
  case (Suc n)
  then obtain k' where k: "k = Suc k'" by (cases k) auto
  with Suc.prems(1) obtain x where x: "g_name (net a) \<noteq> destination m"
    "fmlookup (g_nextHop (net a)) (destination m) = Some x" "x \<noteq> nil_addr"
    "route_to net (destination m) k' x = Some b" by (auto split: if_splits option.splits)
  let ?m = "with_hops (hops m - 1) m"
  show ?case
  proof (cases "hops m = 0")
    case True
    then have "step net (a, m) = None" using step_forward [of m net a] x by simp
    then show ?thesis using Suc.prems(3) x(1) by auto
  next
    case False
    then have s: "step net (a, m) = Some (x, ?m)" using step_forward [of m net a] x by simp
    have "0 < unat (hops m)" using False by (simp add: unat_gt_0)
    then have "unat (hops ?m) < k'" using Suc.prems(2) k unat_pred [OF False] by (simp add: hops_with)
    from Suc.IH [of ?m k' x, OF _ this] x(4) Suc.prems(3) s x(1) show ?thesis
      by (auto simp: destination_with)
  qed
qed

end

section \<open>The four kinds\<close>

interpretation private_routing: hop_limited pm_Destination pm_HopLimit "\<lambda>h m. m\<lparr>pm_HopLimit := h\<rparr>"
    "\<lambda>m. EmptyPacket\<lparr>gp_Private := Some m\<rparr>" gp_Private processPrivateMessage
  by unfold_locales (auto simp: processPrivateMessage_def Let_def)

lemma sendPacketWithNextHop_packet: "SendPacket b p \<in> set (sendPacketWithNextHop g d gp) \<Longrightarrow> p = gp"
  by (auto simp: sendPacketWithNextHop_def split: option.splits if_splits)

interpretation data_request_routing: hop_limited dq_Destination dq_HopLimit "\<lambda>h m. m\<lparr>dq_HopLimit := h\<rparr>"
    "\<lambda>m. EmptyPacket\<lparr>gp_DataRequest := Some m\<rparr>" gp_DataRequest "processDataRequest e" for e
  by unfold_locales (auto simp: processDataRequest_def Let_def EmptyPacket_def
      dest: sendPacketWithNextHop_packet split: option.splits)

interpretation data_reply_routing: hop_limited dp_Destination dp_HopLimit "\<lambda>h m. m\<lparr>dp_HopLimit := h\<rparr>"
    "\<lambda>m. EmptyPacket\<lparr>gp_DataReply := Some m\<rparr>" gp_DataReply processDataReply
  by unfold_locales (auto simp: processDataReply_def Let_def split: if_splits)

interpretation search_reply_routing: hop_limited sp_Destination sp_HopLimit "\<lambda>h m. m\<lparr>sp_HopLimit := h\<rparr>"
    "\<lambda>m. EmptyPacket\<lparr>gp_SearchReply := Some m\<rparr>" gp_SearchReply processAddressedSearchReply
  by unfold_locales (auto simp: processAddressedSearchReply_def Let_def split: if_splits option.splits)

section \<open>Properties\<close>

text \<open>C15: On any network with fixed routes, also one whose routes form a loop, a message of
  each of the four kinds is sent on at most as often as its hop limit says.\<close>
theorem forwarding_is_bounded:
  "length (trail (onward processPrivateMessage gp_Private net) n (a, pm)) \<le> Suc (unat (pm_HopLimit pm))
   \<and> length (trail (onward (processDataRequest e) gp_DataRequest net) n (a, dq)) \<le> Suc (unat (dq_HopLimit dq))
   \<and> length (trail (onward processDataReply gp_DataReply net) n (a, dp)) \<le> Suc (unat (dp_HopLimit dp))
   \<and> length (trail (onward processAddressedSearchReply gp_SearchReply net) n (a, sp)) \<le> Suc (unat (sp_HopLimit sp))"
  using private_routing.trail_bounded data_request_routing.trail_bounded
    data_reply_routing.trail_bounded search_reply_routing.trail_bounded by blast

text \<open>What a client's order becomes, and the way of the message.\<close>

definition client_private :: "Gossiper \<Rightarrow> string \<Rightarrow> string \<Rightarrow> PrivateMessage" where
  "client_private g t d = \<lparr>pm_Origin = g_name g, pm_ID = 0, pm_Text = t, pm_Destination = d,
     pm_HopLimit = DefaultHopLimit\<rparr>"

definition private_way :: "(udpaddr \<Rightarrow> Gossiper) \<Rightarrow> udpaddr \<Rightarrow> PrivateMessage \<Rightarrow> (udpaddr \<times> PrivateMessage) list" where
  "private_way net a m = trail (onward processPrivateMessage gp_Private net) (unat DefaultHopLimit) (a, m)"

lemma client_private_sel: "pm_Destination (client_private g t d) = d" "pm_HopLimit (client_private g t d) = 5"
  by (simp_all add: client_private_def DefaultHopLimit_def)


definition small_net :: "udpaddr \<Rightarrow> Gossiper" where
  "small_net a = (if a = ''a:1'' then sample ''A'' [] (fmupd ''C'' ''b:2'' fmempty)
     else if a = ''b:2'' then sample ''B'' [] (fmupd ''C'' ''c:3'' fmempty) else sample ''C'' [] fmempty)"


end
