(* ===== verification/Threads.thy ===== *)
theory Threads
  imports Handlers DownloadThread
begin

text \<open>
  The goroutines beside the message processor (\<open>gossiper/Gossiper.go\<close>, \<open>main.go\<close>): each
  definition is what a goroutine does when the event it waits for occurs, from one receive
  or timer to the next.
\<close>

section \<open>Readers and the writer\<close>

definition MaxPacketSize :: nat where
  "MaxPacketSize = 16 * 1024"

text \<open>The buffer after a datagram was read into it; \<open>ReadFromUDP\<close> drops what does not fit. The
  length that was read is ignored, so the zeros behind the datagram are decoded with it.\<close>

definition read_buffer :: "byte list \<Rightarrow> byte list" where
  "read_buffer datagram = take MaxPacketSize (datagram @ replicate MaxPacketSize 0)"

text \<open>\<open>protobuf.Decode\<close> is an argument: the message it leaves behind, also on an error, which
  is only logged.\<close>

definition StartClientReader :: "(byte list \<Rightarrow> ClientMessage) \<Rightarrow> byte list \<Rightarrow> ClientMessage" where
  "StartClientReader decode datagram = decode (read_buffer datagram)"

definition StartPeerReader :: "(byte list \<Rightarrow> GossipPacket) \<Rightarrow> byte list \<Rightarrow> udpaddr \<Rightarrow> AddressedGossipPacket" where
  "StartPeerReader decode datagram address = \<lparr>agp_Packet = decode (read_buffer datagram), agp_Address = address\<rparr>"

text \<open>The datagram that goes out, if the packet can be encoded.\<close>

definition StartPeerWriter :: "(GossipPacket \<Rightarrow> byte list option) \<Rightarrow> AddressedGossipPacket \<Rightarrow> (udpaddr \<times> byte list) option" where
  "StartPeerWriter encode agp =
    (case encode (agp_Packet agp) of None \<Rightarrow> None | Some packetBytes \<Rightarrow> Some (agp_Address agp, packetBytes))"

section \<open>Anti-entropy\<close>

definition StartAntiEntropyTimer :: "env \<Rightarrow> Gossiper \<Rightarrow> result" where
  "StartAntiEntropyTimer e g =
    (if arePeersEmpty g then Inr (g, [])
     else go_map (\<lambda>peer. (g, [SendPacket peer (current_status e g)])) (getRandomPeer (e_rand e) g))"

text \<open>How long it sleeps before it looks again.\<close>

definition anti_entropy_pause :: "Gossiper \<Rightarrow> int" where
  "anti_entropy_pause g = AntiEntropyTimeout + (if arePeersEmpty g then AntiEntropyTimeout * 5 else 0)"

section \<open>Mining\<close>

text \<open>One attempt, and the publication of what was mined, which comes after a pause.\<close>

definition mining_attempt :: "env \<Rightarrow> byte list \<Rightarrow> string list \<Rightarrow> BlockchainManager \<Rightarrow> string list
    \<Rightarrow> Gossiper \<Rightarrow> Gossiper \<times> Block option" where
  "mining_attempt e nonce ks seen ks' g =
    (case DoMining (e_H e) nonce ks seen ks' (g_blockchainManager g) of
       (bm, newblock) \<Rightarrow> (g\<lparr>g_blockchainManager := bm\<rparr>, newblock))"

definition publish_pause :: "Gossiper \<Rightarrow> int \<Rightarrow> int" where
  "publish_pause g timeMining =
     (if GetBlockNumber (g_blockchainManager g) = 1 then 5 * Second else 2 * timeMining)"

definition publish_block :: "Gossiper \<Rightarrow> Block \<Rightarrow> result" where
  "publish_block g newblock = Inr (g, sendAllPeers g (EmptyPacket\<lparr>gp_BlockPublish := Some
     \<lparr>bp_Block = newblock, bp_HopLimit = BlockchainBlockPublishHopLimit\<rparr>\<rparr>))"

section \<open>Rumor-mongering\<close>

definition flipRumorMongeringCoin :: "env \<Rightarrow> Gossiper \<Rightarrow> RumorMessage \<Rightarrow> result" where
  "flipRumorMongeringCoin e g messageBeingRumored =
    (if e_coin e mod 2 = 0 then
       go_bind (getRandomPeer (e_rand e) g) (\<lambda>peer.
         andthen (Inr (g, [Stdout (''FLIPPED COIN sending rumor to '' @ peer @ nl)]))
           (\<lambda>g. spreadTheRumor (e_rand' e) g messageBeingRumored peer))
     else Inr (g, []))"

datatype mongering_event = MongeringTimeout | StatusArrived StatusPacket

definition startRumorMongeringThread :: "env \<Rightarrow> Gossiper \<Rightarrow> RumorMessage \<Rightarrow> udpaddr \<Rightarrow> mongering_event \<Rightarrow> result" where
  "startRumorMongeringThread e g messageBeingRumored peer ev =
    (case ev of
       MongeringTimeout \<Rightarrow>
         flipRumorMongeringCoin e (g\<lparr>g_statusesChannels := g_statusesChannels g |-| {|peer|}\<rparr>) messageBeingRumored
     | StatusArrived statusPacket \<Rightarrow>
         go_bind (status_diff_of e g statusPacket) (\<lambda>(rmsg, otherHasSomethingNew).
           case rmsg of
             Some rmsg \<Rightarrow> spreadTheRumor (e_rand e) g rmsg peer
           | None \<Rightarrow>
               if otherHasSomethingNew then Inr (g, [SendPacket peer (current_status e g)])
               else andthen (Inr (g, [Stdout (''IN SYNC WITH '' @ peer @ nl)]))
                 (\<lambda>g. flipRumorMongeringCoin e g messageBeingRumored)))"

section \<open>Downloading\<close>

text \<open>Without its channel the goroutine ends at once.\<close>

definition start_downloading :: "Gossiper \<Rightarrow> string \<Rightarrow> hash \<Rightarrow> dl_thread option" where
  "start_downloading g origin h =
     (if origin |\<in>| g_downloadingFilesChannels g then Some (start_thread h) else None)"

definition download_output :: "digest \<Rightarrow> filesystem \<Rightarrow> DownloadingFilesManager \<Rightarrow> string \<Rightarrow> dl_event \<Rightarrow> string list" where
  "download_output H fs dfm origin ev =
    (case ev of DlTimeout \<Rightarrow> [] | DlReply r \<Rightarrow> reply_output H fs dfm origin r)"

definition file_downloading_step :: "env \<Rightarrow> string \<Rightarrow> dl_event \<Rightarrow> Gossiper \<Rightarrow> dl_thread
    \<Rightarrow> Gossiper \<times> dl_thread option \<times> effect list" where
  "file_downloading_step e origin ev g th =
    (case download_step (e_H e) (e_chunkOrder e) origin ev (g_disk g, g_downloadingFilesManager g, th) of
       ((fs, dfm, th'), hs) \<Rightarrow>
         let out = map Stdout (download_output (e_H e) (g_disk g) (g_downloadingFilesManager g) origin ev);
             g = g\<lparr>g_disk := fs, g_downloadingFilesManager := dfm\<rparr>;
             g = (if th' = None
                  then g\<lparr>g_downloadingFilesChannels := g_downloadingFilesChannels g |-| {|origin|}\<rparr> else g)
         in (g, th', out @ concat (map (\<lambda>h. sendPacketWithNextHop g origin (data_request g origin h)) hs)))"

section \<open>Searching\<close>

text \<open>The timer of the search goroutine fires. Only the shutdown reads the search request.\<close>

definition file_searching_tick :: "env \<Rightarrow> string list \<Rightarrow> Gossiper \<Rightarrow> search_thread
    \<Rightarrow> (Gossiper \<times> search_thread option \<times> effect list) go" where
  "file_searching_tick e keywords g th =
    (if se_budget th > se_maxAllowedBudget th then
       (if se_budget th > int64 (se_maxAllowedBudget th + 1) then
          (case g_currentSearchRequest g of
             None \<Rightarrow> Inl NilDereference
           | Some csr \<Rightarrow> Inr (g\<lparr>g_currentSearchRequest := Some (Shutdown csr)\<rparr>, None, []))
        else Inr (g, Some (th\<lparr>se_budget := int64 (se_budget th + 1)\<rparr>), []))
     else go_map (\<lambda>(g, es). (g, Some (th\<lparr>se_budget := int64 (se_budget th + 1)\<rparr>), es))
       (processSearchRequest e g \<lparr>sq_Origin = g_name g, sq_Budget = word_of_int (se_budget th),
          sq_Keywords = keywords\<rparr>))"

definition file_searching_reply :: "SearchReply \<Rightarrow> Gossiper \<Rightarrow> search_thread
    \<Rightarrow> (Gossiper \<times> search_thread option \<times> effect list) go" where
  "file_searching_reply packet g th =
    (case g_currentSearchRequest g of
       None \<Rightarrow> Inl NilDereference
     | Some csr \<Rightarrow>
        (case search_reply packet (csr, th) of
           ((csr, th), out) \<Rightarrow> Inr (g\<lparr>g_currentSearchRequest := Some csr\<rparr>, th, map Stdout out)))"

section \<open>The program\<close>

datatype goroutine = ClientReader | PeerReader | PeerWriter | AntiEntropyTimer | RouteRumors int
  | Webserver | MiningThread | MessageProcessor

record flags =
  fl_uiport :: int
  fl_gossipAddr :: string
  fl_name :: string
  fl_peers :: string
  fl_rtimer :: int
  fl_simpleMode :: bool
  fl_noWebserver :: bool
  fl_noAntiEntropy :: bool

text \<open>The flags that are not given on the command line.\<close>

definition default_flags :: flags where
  "default_flags = \<lparr>fl_uiport = 4848, fl_gossipAddr = ''127.0.0.1:1212'', fl_name = ''go_rbachev'', fl_peers = [],
     fl_rtimer = 0, fl_simpleMode = False, fl_noWebserver = False, fl_noAntiEntropy = False\<rparr>"

definition main_threads :: "flags \<Rightarrow> goroutine list" where
  "main_threads f = [ClientReader, PeerReader, PeerWriter]
     @ (if \<not> fl_noAntiEntropy f then [AntiEntropyTimer] else [])
     @ [RouteRumors (fl_rtimer f)]
     @ (if \<not> fl_noWebserver f then [Webserver] else [])
     @ [MiningThread, MessageProcessor]"

text \<open>The gossiper and its goroutines, or none if it cannot be created.\<close>

definition main :: "digest \<Rightarrow> (string \<Rightarrow> udpaddr option) \<Rightarrow> (udpaddr \<Rightarrow> udpaddr option) \<Rightarrow> filesystem \<Rightarrow> flags
    \<Rightarrow> filesystem \<times> (Gossiper \<times> goroutine list) option" where
  "main H resolve listen fs f =
    (case NewGossiper H resolve listen fs (fl_name f) (fl_uiport f) (fl_gossipAddr f) (fl_peers f) (fl_simpleMode f) of
       (fs, g) \<Rightarrow> (fs, case g of None \<Rightarrow> None | Some g \<Rightarrow> Some (g, main_threads f)))"

end
