(* ===== verification/Node.thy ===== *)
theory Node
  imports Threads FileTransfer
begin

text \<open>
  A running gossiper: its state with the goroutines that wait, and its events. An event runs
  to its end before the next: the handler, the goroutines it starts, and, when the handler
  sends on a channel, the goroutine that receives there. \<open>None\<close> says that nobody waits at
  that channel, so that the handler would block for ever.

  The lemmas say, per handler, which part of the state it can change and which goroutines
  it starts or wakes.
\<close>

section \<open>State and events\<close>

record node =
  nd_g :: Gossiper
  nd_mongering :: "(udpaddr, RumorMessage) fmap"
  nd_downloading :: "(string, dl_thread) fmap"
  nd_searching :: "(string list \<times> search_thread) option"
  nd_mined :: "Block option"

definition new_node :: "Gossiper \<Rightarrow> node" where
  "new_node g = \<lparr>nd_g = g, nd_mongering = fmempty, nd_downloading = fmempty, nd_searching = None, nd_mined = None\<rparr>"

fun spawn1 :: "effect \<Rightarrow> node \<Rightarrow> node" where
  "spawn1 (GoMongering rmsg peer) nd = nd\<lparr>nd_mongering := fmupd peer rmsg (nd_mongering nd)\<rparr>"
| "spawn1 (GoDownloading origin h) nd = (case start_downloading (nd_g nd) origin h of
     None \<Rightarrow> nd | Some th \<Rightarrow> nd\<lparr>nd_downloading := fmupd origin th (nd_downloading nd)\<rparr>)"
| "spawn1 (GoSearching keywords budget) nd = nd\<lparr>nd_searching := Some (keywords, start_search budget)\<rparr>"
| "spawn1 _ nd = nd"

definition spawn :: "effect list \<Rightarrow> node \<Rightarrow> node" where
  "spawn es nd = fold spawn1 es nd"

type_synonym event_result = "(node \<times> effect list) go option"

text \<open>An operation of the node that starts goroutines but wakes none.\<close>

definition local_run :: "node \<Rightarrow> result \<Rightarrow> (node \<times> effect list) go" where
  "local_run nd r = go_map (\<lambda>(g, es). (spawn es (nd\<lparr>nd_g := g\<rparr>), es)) r"

definition download_event :: "env \<Rightarrow> node \<Rightarrow> string \<Rightarrow> dl_event \<Rightarrow> event_result" where
  "download_event e nd origin ev =
    (case fmlookup (nd_downloading nd) origin of
       None \<Rightarrow> None
     | Some th \<Rightarrow>
        (case file_downloading_step e origin ev (nd_g nd) th of
           (g, th', es) \<Rightarrow> Some (Inr (nd\<lparr>nd_g := g, nd_downloading :=
              (case th' of None \<Rightarrow> fmdrop origin (nd_downloading nd)
               | Some t \<Rightarrow> fmupd origin t (nd_downloading nd))\<rparr>, es))))"

definition mongering_event :: "env \<Rightarrow> node \<Rightarrow> udpaddr \<Rightarrow> mongering_event \<Rightarrow> event_result" where
  "mongering_event e nd peer ev =
    (case fmlookup (nd_mongering nd) peer of
       None \<Rightarrow> None
     | Some rmsg \<Rightarrow> Some (local_run (nd\<lparr>nd_mongering := fmdrop peer (nd_mongering nd)\<rparr>)
         (startRumorMongeringThread e (nd_g nd) rmsg peer ev)))"

definition searching_result :: "node \<Rightarrow> string list \<Rightarrow> (Gossiper \<times> search_thread option \<times> effect list) go
    \<Rightarrow> (node \<times> effect list) go" where
  "searching_result nd keywords r =
     go_map (\<lambda>(g, th, es). (nd\<lparr>nd_g := g, nd_searching := map_option (Pair keywords) th\<rparr>, es)) r"

definition searching_event :: "env \<Rightarrow> node \<Rightarrow> SearchReply option \<Rightarrow> event_result" where
  "searching_event e nd reply =
    (case nd_searching nd of
       None \<Rightarrow> None
     | Some (keywords, th) \<Rightarrow> Some (searching_result nd keywords
        (case reply of None \<Rightarrow> file_searching_tick e keywords (nd_g nd) th
         | Some packet \<Rightarrow> file_searching_reply packet (nd_g nd) th)))"

text \<open>The receive that follows a handler.\<close>

fun hand_over1 :: "env \<Rightarrow> node \<Rightarrow> effect \<Rightarrow> event_result" where
  "hand_over1 e nd (ToMongering peer sp) = mongering_event e nd peer (StatusArrived sp)"
| "hand_over1 e nd (ToDownloading origin reply) = download_event e nd origin (DlReply reply)"
| "hand_over1 e nd (ToSearching reply) = searching_event e nd (Some reply)"
| "hand_over1 e nd _ = Some (Inr (nd, []))"

fun hand_over :: "env \<Rightarrow> effect list \<Rightarrow> node \<Rightarrow> event_result" where
  "hand_over e [] nd = Some (Inr (nd, []))"
| "hand_over e (ef # es) nd =
     (case hand_over1 e nd ef of
        None \<Rightarrow> None
      | Some (Inl p) \<Rightarrow> Some (Inl p)
      | Some (Inr (nd, es1)) \<Rightarrow>
          (case hand_over e es nd of
             None \<Rightarrow> None
           | Some r \<Rightarrow> Some (go_map (\<lambda>(nd, es2). (nd, es1 @ es2)) r)))"

definition handled :: "env \<Rightarrow> node \<Rightarrow> result \<Rightarrow> event_result" where
  "handled e nd r =
    (case local_run nd r of
       Inl p \<Rightarrow> Some (Inl p)
     | Inr (nd, es) \<Rightarrow> map_option (go_map (\<lambda>(nd, es'). (nd, es @ es'))) (hand_over e es nd))"

datatype event =
    Packet AddressedGossipPacket
  | Order ClientMessage
  | MongeringTimer udpaddr
  | DownloadTimer string
  | SearchTimer
  | AntiEntropy
  | Mining "byte list" "string list" BlockchainManager "string list"
  | Publish
  | Forget string
  | Rename string
  | AddPeer udpaddr
  | DownloadFound string
  | UserFile path "byte list"

text \<open>\<open>e\<close> serves the handler and \<open>e'\<close> a goroutine that receives from it. A timer event of a
  goroutine that does not exist is no event.\<close>

definition node_event :: "env \<Rightarrow> env \<Rightarrow> node \<Rightarrow> event \<Rightarrow> event_result" where
  "node_event e e' nd ev =
    (case ev of
       Packet agp \<Rightarrow> handled e' nd (process_packet e (nd_g nd) agp)
     | Order cmsg \<Rightarrow> handled e' nd (process_client e (nd_g nd) cmsg)
     | MongeringTimer peer \<Rightarrow> mongering_event e nd peer MongeringTimeout
     | DownloadTimer origin \<Rightarrow> download_event e nd origin DlTimeout
     | SearchTimer \<Rightarrow> searching_event e nd None
     | AntiEntropy \<Rightarrow> Some (local_run nd (StartAntiEntropyTimer e (nd_g nd)))
     | Mining nonce ks seen ks' \<Rightarrow>
         (if nd_mined nd \<noteq> None then None
          else case mining_attempt e nonce ks seen ks' (nd_g nd) of
            (g, b) \<Rightarrow> Some (Inr (nd\<lparr>nd_g := g, nd_mined := b\<rparr>,
              map Stdout (mining_output (e_H e) (g_blockchainManager g) b))))
     | Publish \<Rightarrow>
         (case nd_mined nd of None \<Rightarrow> None
          | Some b \<Rightarrow> Some (local_run (nd\<lparr>nd_mined := None\<rparr>) (publish_block (nd_g nd) b)))
     | Forget setkey \<Rightarrow> Some (Inr (nd\<lparr>nd_g := forget_search (nd_g nd) setkey\<rparr>, []))
     | Rename name \<Rightarrow> Some (Inr (nd\<lparr>nd_g := SetName (nd_g nd) name\<rparr>, []))
     | AddPeer peer \<Rightarrow> Some (Inr (nd\<lparr>nd_g := UpdatePeersIfNeeded (nd_g nd) peer\<rparr>, []))
     | DownloadFound name \<Rightarrow> Some (local_run nd (DownloadFoundByName (nd_g nd) name))
     | UserFile p d \<Rightarrow> Some (Inr (nd\<lparr>nd_g := (nd_g nd)\<lparr>g_disk := WriteFile (g_disk (nd_g nd)) p d\<rparr>\<rparr>, [])))"

text \<open>The events of a run with digest \<open>H\<close> in which the blocks are from \<open>B\<close>, downloads have
  proper names, and the user leaves the chunk directories alone.\<close>

definition event_ok :: "digest \<Rightarrow> Block set \<Rightarrow> env \<Rightarrow> env \<Rightarrow> node \<Rightarrow> event \<Rightarrow> bool" where
  "event_ok H B e e' nd ev \<longleftrightarrow> e_H e = H \<and> e_H e' = H
    \<and> (case ev of
         Packet agp \<Rightarrow> (\<forall>bp. gp_BlockPublish (agp_Packet agp) = Some bp \<longrightarrow> bp_Block bp \<in> B)
       | Order cmsg \<Rightarrow> (\<forall>td. cm_ToDownload cmsg = Some td \<longrightarrow> download_name (td_Name td))
       | Mining nonce ks seen ks' \<Rightarrow> (\<forall>b. snd (mining_attempt e nonce ks seen ks' (nd_g nd)) = Some b \<longrightarrow> b \<in> B)
       | UserFile p d \<Rightarrow> outside (SharedFilesChunksPath (g_disk (nd_g nd))) p
            \<and> outside (DownloadsChunksPath (g_disk (nd_g nd))) p
       | _ \<Rightarrow> True)"

inductive node_reach :: "digest \<Rightarrow> Block set \<Rightarrow> filesystem \<Rightarrow> node \<Rightarrow> bool" for H B fs0 where
  start: "NewGossiper H resolve listen fs0 name uiport peersAddress peers simple = (fs, Some g)
     \<Longrightarrow> node_reach H B fs0 (new_node g)"
| event: "node_reach H B fs0 nd \<Longrightarrow> event_ok H B e e' nd ev \<Longrightarrow> node_event e e' nd ev = Some (Inr (nd', es))
     \<Longrightarrow> node_reach H B fs0 nd'"

end
