(* ===== verification/NodeComponents.thy ===== *)
theory NodeComponents
  imports Node
begin

text \<open>
  A run of a gossiper, seen on its components: the message storage goes through arrivals of
  rumors and private messages, the blockchain manager and the file managers through the
  steps of their own reachability relations. So everything that holds in all reachable
  states of a component holds in every running gossiper.
\<close>

definition evolves :: "digest \<Rightarrow> Block set \<Rightarrow> Gossiper \<Rightarrow> Gossiper \<Rightarrow> bool" where
  "evolves H B g g' \<longleftrightarrow> (\<exists>ops. g_messageStorage g' = store_run (g_messageStorage g) ops)
     \<and> (bc_reach H B (g_blockchainManager g) \<longrightarrow> bc_reach H B (g_blockchainManager g'))
     \<and> (\<forall>fs0. files_reach H fs0 (g_disk g) (g_sharedFilesManager g) (g_downloadingFilesManager g)
          \<longrightarrow> files_reach H fs0 (g_disk g') (g_sharedFilesManager g') (g_downloadingFilesManager g'))"

lemma store_run_append: "store_run ms (xs @ ys) = store_run (store_run ms xs) ys"
  by (induction ms xs rule: store_run.induct) auto

lemma evolves_trans [trans]: "evolves H B g g1 \<Longrightarrow> evolves H B g1 g2 \<Longrightarrow> evolves H B g g2"
  unfolding evolves_def by (metis store_run_append)

lemma evolves_same:
  "g_messageStorage g' = g_messageStorage g \<Longrightarrow> g_blockchainManager g' = g_blockchainManager g \<Longrightarrow>
   g_disk g' = g_disk g \<Longrightarrow> g_sharedFilesManager g' = g_sharedFilesManager g \<Longrightarrow>
   g_downloadingFilesManager g' = g_downloadingFilesManager g \<Longrightarrow> evolves H B g g'"
  unfolding evolves_def by (metis store_run.simps(1))

lemma evolves_refl [simp]: "evolves H B g g"
  by (rule evolves_same) simp_all

lemma evolves_store:
  "evolves H B g (g\<lparr>g_messageStorage := store_run (g_messageStorage g) ops\<rparr>)"
  unfolding evolves_def by auto

lemma evolves_rumor: "evolves H B g (g\<lparr>g_messageStorage := fst (AddRumorMessage (g_messageStorage g) r)\<rparr>)"
  using evolves_store [of H B g "[ArriveRumor r]"] by simp

lemma evolves_private: "evolves H B g (g\<lparr>g_messageStorage := fst (AddPrivateMessage (g_messageStorage g) p n)\<rparr>)"
  using evolves_store [of H B g "[ArrivePrivate p n]"] by simp

lemma evolves_chain:
  "(bc_reach H B (g_blockchainManager g) \<Longrightarrow> bc_reach H B bm) \<Longrightarrow> evolves H B g (g\<lparr>g_blockchainManager := bm\<rparr>)"
  unfolding evolves_def by (auto intro: exI [of _ "[]"])

lemma evolves_files:
  "(\<And>fs0. files_reach H fs0 (g_disk g) (g_sharedFilesManager g) (g_downloadingFilesManager g)
      \<Longrightarrow> files_reach H fs0 fs sfm dfm) \<Longrightarrow>
   g_messageStorage g' = g_messageStorage g \<Longrightarrow> g_blockchainManager g' = g_blockchainManager g \<Longrightarrow>
   g_disk g' = fs \<Longrightarrow> g_sharedFilesManager g' = sfm \<Longrightarrow> g_downloadingFilesManager g' = dfm \<Longrightarrow> evolves H B g g'"
  unfolding evolves_def by (auto intro: exI [of _ "[]"])

section \<open>Handlers\<close>

lemma updateNextHop_fields [simp]:
  "g_messageStorage (fst (updateNextHop g n a)) = g_messageStorage g"
  "g_blockchainManager (fst (updateNextHop g n a)) = g_blockchainManager g"
  "g_disk (fst (updateNextHop g n a)) = g_disk g"
  "g_sharedFilesManager (fst (updateNextHop g n a)) = g_sharedFilesManager g"
  "g_downloadingFilesManager (fst (updateNextHop g n a)) = g_downloadingFilesManager g"
  by (simp_all add: updateNextHop_def)

lemma UpdatePeers_fields [simp]:
  "g_messageStorage (UpdatePeersIfNeeded g a) = g_messageStorage g"
  "g_blockchainManager (UpdatePeersIfNeeded g a) = g_blockchainManager g"
  "g_disk (UpdatePeersIfNeeded g a) = g_disk g"
  "g_sharedFilesManager (UpdatePeersIfNeeded g a) = g_sharedFilesManager g"
  "g_downloadingFilesManager (UpdatePeersIfNeeded g a) = g_downloadingFilesManager g"
  by (simp_all add: UpdatePeersIfNeeded_def)

lemma spread_evolves: "spreadTheRumor r g rmsg peer = Inr (g', es) \<Longrightarrow> evolves H B g g'"
  by (rule evolves_same) (auto simp: spreadTheRumor_def split: if_splits)

lemma processRumor_evolves:
  assumes "processRumorMessage e g rmsg = Inr (g', es)" shows "evolves H B g g'"
proof -
  obtain ms new where a: "AddRumorMessage (g_messageStorage g) rmsg = (ms, new)" by fastforce
  then have s: "evolves H B g (g\<lparr>g_messageStorage := ms\<rparr>)"
    using evolves_rumor [of H B g rmsg] by simp
  show ?thesis
  proof (cases "new \<and> \<not> arePeersEmpty (g\<lparr>g_messageStorage := ms\<rparr>)")
    case True
    then have "spreadTheRumor (e_rand e) (g\<lparr>g_messageStorage := ms\<rparr>) rmsg nil_addr = Inr (g', es)"
      using assms a by (simp add: processRumorMessage_def)
    from evolves_trans [OF s spread_evolves [OF this]] show ?thesis .
  next
    case False
    then show ?thesis using assms a s by (auto simp: processRumorMessage_def Let_def split: if_splits)
  qed
qed

lemma addressedRumor_evolves:
  assumes "processAddressedRumorMessage e g rmsg a = Inr (g', es)" shows "evolves H B g g'"
proof -
  let ?g = "fst (if IsNewMessage (g_messageStorage g) rmsg then updateNextHop g (rm_OriginalName rmsg) a else (g, []))"
  obtain es2 where "processRumorMessage e ?g rmsg = Inr (g', es2)"
    using assms by (auto simp: processAddressedRumorMessage_def andthen_Inr split: if_splits)
  then have "evolves H B ?g g'" by (rule processRumor_evolves)
  moreover have "evolves H B g ?g" by (rule evolves_same) auto
  ultimately show ?thesis using evolves_trans by blast
qed

lemma status_evolves:
  assumes "processAddressedStatusPacket e g sp a = Inr (g', es)" shows "evolves H B g g'"
  using assms
  by (auto simp: processAddressedStatusPacket_def dest: spread_evolves
      intro: evolves_same split: if_splits option.splits)

lemma private_evolves:
  assumes "processPrivateMessage g pmsg = Inr (g', es)" shows "evolves H B g g'"
  using assms evolves_private by (auto simp: processPrivateMessage_def Let_def split: if_splits)

lemma search_request_same: "processSearchRequest e g s = Inr (g', es) \<Longrightarrow> g' = g"
  by (auto simp: processSearchRequest_def Let_def split: if_splits)

lemma unchanged:
  "processAddressedSimpleMessage g smsg a = Inr (g', es) \<Longrightarrow> g' = g"
  "processDataRequest e g dq = Inr (g', es) \<Longrightarrow> g' = g"
  "processDataReply g dp = Inr (g', es) \<Longrightarrow> g' = g"
  "processAddressedSearchReply g sp = Inr (g', es) \<Longrightarrow> g' = g"
  by (auto simp: processAddressedSimpleMessage_def processDataRequest_def processDataReply_def
      processAddressedSearchReply_def Let_def split: if_splits option.splits)

lemma addressedSearch_evolves:
  assumes "processAddressedSearchRequest e g s = Inr (g', es)" shows "evolves H B g g'"
  using assms
  by (auto simp: processAddressedSearchRequest_def Let_def andthen_Inr dest!: search_request_same
      intro: evolves_same split: if_splits sum.splits)

lemma tx_evolves:
  assumes "processTxPublish g tx = Inr (g', es)" shows "evolves H B g g'"
proof -
  obtain bm new where a: "AddTransaction (g_blockchainManager g) tx = (bm, new)" by fastforce
  then have "evolves H B g (g\<lparr>g_blockchainManager := bm\<rparr>)"
    using bc_reach.add_tx [of H B "g_blockchainManager g" tx] by (intro evolves_chain) simp
  then show ?thesis using assms a by (auto simp: processTxPublish_def Let_def split: if_splits)
qed

lemma block_evolves:
  assumes "processBlockPublish e g bp = Inr (g', es)" "bp_Block bp \<in> B" shows "evolves (e_H e) B g g'"
proof -
  obtain bm new where a: "AddBlock (e_H e) (e_pendingOrder e) (g_blockchainManager g) (bp_Block bp) = Inr (bm, new)"
    using assms(1) by (auto simp: processBlockPublish_def)
  then have "evolves (e_H e) B g (g\<lparr>g_blockchainManager := bm\<rparr>)"
    using bc_reach.add_block [OF _ assms(2) a] by (intro evolves_chain)
  then show ?thesis using assms a by (auto simp: processBlockPublish_def Let_def split: if_splits)
qed

lemma share_evolves:
  assumes "processClientToShare e g m = Inr (g', es)" shows "evolves (e_H e) B g g'"
proof -
  obtain fs sfm r where a: "ShareFile (e_H e) (g_disk g) (g_sharedFilesManager g) (ts_Path m) = Inr (fs, sfm, r)"
    using assms by (auto simp: processClientToShare_def)
  let ?g1 = "g\<lparr>g_disk := fs, g_sharedFilesManager := sfm\<rparr>"
  have s: "evolves (e_H e) B g ?g1"
    by (rule evolves_files [OF files_reach.share [OF _ a]]) simp_all
  show ?thesis
  proof (cases r)
    case None
    then show ?thesis using assms a s by (auto simp: processClientToShare_def Let_def)
  next
    case (Some x)
    obtain n h k where x: "x = (n, h, k)" by (cases x)
    define tx where "tx = \<lparr>tx_File = \<lparr>f_Name = n, f_Size = word_of_nat k, f_MetafileHash = h\<rparr>,
      tx_HopLimit = BlockchainTxHopLimit\<rparr>"
    have g': "g' = ?g1\<lparr>g_blockchainManager := fst (AddTransaction (g_blockchainManager ?g1) tx)\<rparr>"
      using assms a Some x
      by (auto simp: processClientToShare_def Let_def tx_def [symmetric] split: prod.splits)
    have "evolves (e_H e) B ?g1 g'" unfolding g' by (rule evolves_chain) (rule bc_reach.add_tx)
    with s show ?thesis by (rule evolves_trans)
  qed
qed

lemma download_evolves:
  assumes "processClientDataRequest g m = Inr (g', es)" "download_name (td_Name m)" shows "evolves H B g g'"
proof (rule evolves_files)
  fix fs0 assume r: "files_reach H fs0 (g_disk g) (g_sharedFilesManager g) (g_downloadingFilesManager g)"
  have "g_downloadingFilesManager g' = g_downloadingFilesManager g
      \<or> g_downloadingFilesManager g' = fst (StartDownloadingFromOrigin (g_downloadingFilesManager g)
           (td_Destination m) (td_Name m) (td_HashValue m))"
    using assms(1) by (auto simp: processClientDataRequest_def Let_def split: if_splits option.splits prod.splits)
  then show "files_reach H fs0 (g_disk g) (g_sharedFilesManager g) (g_downloadingFilesManager g')"
    using r files_reach.request [OF r assms(2)] by metis
qed (use assms(1) in \<open>auto simp: processClientDataRequest_def Let_def split: if_splits option.splits prod.splits\<close>)

lemma packet_evolves:
  assumes "process_packet e g agp = Inr (g', es)"
    and "\<And>bp. gp_BlockPublish (agp_Packet agp) = Some bp \<Longrightarrow> bp_Block bp \<in> B"
  shows "evolves (e_H e) B g g'"
proof -
  let ?g = "UpdatePeersIfNeeded g (agp_Address agp)"
  have s: "evolves (e_H e) B g ?g" by (rule evolves_same) simp_all
  have "evolves (e_H e) B ?g g'"
    using assms unfolding process_packet_def andthen_Inr processAddressedGossipPacket_def Let_def
    by (auto split: option.splits dest: addressedRumor_evolves status_evolves private_evolves
        addressedSearch_evolves tx_evolves block_evolves dest!: unchanged)
  with s show ?thesis by (rule evolves_trans)
qed

lemma client_evolves:
  assumes "process_client e g cmsg = Inr (g', es)"
    and "\<And>td. cm_ToDownload cmsg = Some td \<Longrightarrow> download_name (td_Name td)"
  shows "evolves (e_H e) B g g'"
  using assms unfolding process_client_def andthen_Inr processClientMessage_def
  by (auto simp: processClientSearchRequest_def intro: evolves_same split: option.splits if_splits
      dest: processRumor_evolves private_evolves share_evolves download_evolves dest!: unchanged)

section \<open>Goroutines\<close>

lemma flip_evolves: "flipRumorMongeringCoin e g r = Inr (g', es) \<Longrightarrow> evolves H B g g'"
  by (auto simp: flipRumorMongeringCoin_def andthen_Inr dest: spread_evolves split: if_splits)

lemma mongering_evolves:
  assumes "startRumorMongeringThread e g r p ev = Inr (g', es)" shows "evolves H B g g'"
proof (cases ev)
  case MongeringTimeout
  have "evolves H B g (g\<lparr>g_statusesChannels := g_statusesChannels g |-| {|p|}\<rparr>)"
    by (rule evolves_same) simp_all
  moreover have "evolves H B (g\<lparr>g_statusesChannels := g_statusesChannels g |-| {|p|}\<rparr>) g'"
    using MongeringTimeout assms flip_evolves by (simp add: startRumorMongeringThread_def)
  ultimately show ?thesis by (rule evolves_trans)
next
  case (StatusArrived sp)
  with assms show ?thesis
    by (auto simp: startRumorMongeringThread_def andthen_Inr dest: spread_evolves flip_evolves
        split: option.splits if_splits)
qed

lemma download_step_files:
  assumes "download_step H ord src ev (fs, dfm, th) = ((fs', dfm', th'), hs)" "files_reach H fs0 fs sfm dfm"
  shows "files_reach H fs0 fs' sfm dfm'"
  using assms files_reach.give_up [OF assms(2)]
  by (auto simp: download_step_def Let_def split: dl_event.splits if_splits prod.splits option.splits
      intro: files_reach.reply [OF assms(2)])

lemma downloading_evolves:
  assumes "file_downloading_step e src ev g th = (g', th', es)" shows "evolves (e_H e) B g g'"
proof -
  obtain fs dfm th1 hs where
    d: "download_step (e_H e) (e_chunkOrder e) src ev (g_disk g, g_downloadingFilesManager g, th) = ((fs, dfm, th1), hs)"
    by (cases "download_step (e_H e) (e_chunkOrder e) src ev (g_disk g, g_downloadingFilesManager g, th)") auto
  have "g_disk g' = fs" "g_downloadingFilesManager g' = dfm"
    "g_sharedFilesManager g' = g_sharedFilesManager g" "g_messageStorage g' = g_messageStorage g"
    "g_blockchainManager g' = g_blockchainManager g"
    using assms d by (auto simp: file_downloading_step_def Let_def)
  then show ?thesis using evolves_files [OF download_step_files [OF d]] by blast
qed

lemma searching_evolves:
  "file_searching_tick e ks g th = Inr (g', th', es) \<Longrightarrow> evolves H B g g'"
  "file_searching_reply packet g th = Inr (g', th', es) \<Longrightarrow> evolves H B g g'"
  by (auto simp: file_searching_tick_def file_searching_reply_def Let_def dest!: search_request_same
      intro: evolves_same split: if_splits option.splits prod.splits)

lemma mining_evolves:
  assumes "mining_attempt e nonce ks seen ks' g = (g', b)" "\<And>x. b = Some x \<Longrightarrow> x \<in> B"
  shows "evolves (e_H e) B g g'"
proof -
  have m: "bc_reach (e_H e) B (fst (DoMining (e_H e) nonce ks seen ks' (g_blockchainManager g)))"
    if "bc_reach (e_H e) B (g_blockchainManager g)"
    using that by (rule bc_reach.mine) (use assms in \<open>auto simp: mining_attempt_def split: prod.splits\<close>)
  from evolves_chain [OF this] assms(1) show ?thesis
    by (auto simp: mining_attempt_def split: prod.splits)
qed

section \<open>Runs\<close>

lemma spawn1_g [simp]: "nd_g (spawn1 ef nd) = nd_g nd"
  by (cases ef) (auto split: option.splits)

lemma spawn_g [simp]: "nd_g (spawn es nd) = nd_g nd"
  by (induction es arbitrary: nd) (simp_all add: spawn_def)

lemma local_run_Inr: "local_run nd r = Inr (nd', es) \<longleftrightarrow> (\<exists>g. r = Inr (g, es) \<and> nd' = spawn es (nd\<lparr>nd_g := g\<rparr>))"
  by (auto simp: local_run_def)

lemma mongering_event_evolves:
  "mongering_event e nd p ev = Some (Inr (nd', es)) \<Longrightarrow> evolves H B (nd_g nd) (nd_g nd')"
  by (auto simp: mongering_event_def local_run_Inr dest: mongering_evolves split: option.splits)

lemma download_event_evolves:
  "download_event e nd src ev = Some (Inr (nd', es)) \<Longrightarrow> evolves (e_H e) B (nd_g nd) (nd_g nd')"
  by (auto simp: download_event_def dest: downloading_evolves split: option.splits prod.splits)

lemma searching_event_evolves:
  "searching_event e nd r = Some (Inr (nd', es)) \<Longrightarrow> evolves H B (nd_g nd) (nd_g nd')"
  by (auto simp: searching_event_def searching_result_def dest: searching_evolves split: option.splits prod.splits)

lemma hand_over1_evolves:
  "hand_over1 e nd ef = Some (Inr (nd', es)) \<Longrightarrow> evolves (e_H e) B (nd_g nd) (nd_g nd')"
  by (cases ef) (auto dest: mongering_event_evolves download_event_evolves searching_event_evolves)

lemma hand_over_evolves:
  "hand_over e efs nd = Some (Inr (nd', es)) \<Longrightarrow> evolves (e_H e) B (nd_g nd) (nd_g nd')"
proof (induction efs arbitrary: nd es)
  case (Cons ef efs)
  then obtain nd1 es1 es2 where "hand_over1 e nd ef = Some (Inr (nd1, es1))"
    "hand_over e efs nd1 = Some (Inr (nd', es2))"
    by (auto split: option.splits sum.splits)
  with Cons.IH hand_over1_evolves evolves_trans show ?case by blast
qed simp

lemma handled_evolves:
  assumes "handled e nd r = Some (Inr (nd', es))"
    and "\<And>g es. r = Inr (g, es) \<Longrightarrow> evolves (e_H e) B (nd_g nd) g"
  shows "evolves (e_H e) B (nd_g nd) (nd_g nd')"
proof -
  obtain g es1 es2 where r: "r = Inr (g, es1)" "hand_over e es1 (spawn es1 (nd\<lparr>nd_g := g\<rparr>)) = Some (Inr (nd', es2))"
    using assms(1) by (auto simp: handled_def local_run_def split: sum.splits)
  from assms(2) [OF r(1)] hand_over_evolves [OF r(2), of B] evolves_trans show ?thesis by fastforce
qed

lemma node_event_evolves:
  assumes "node_event e e' nd ev = Some (Inr (nd', es))" "event_ok H B e e' nd ev"
  shows "evolves H B (nd_g nd) (nd_g nd')"
proof (cases ev)
  case (Packet agp)
  then show ?thesis
    using assms handled_evolves [of e' nd _ nd' es B] packet_evolves [of e "nd_g nd" agp _ _ B]
    by (auto simp: node_event_def event_ok_def)
next
  case (Order cmsg)
  then show ?thesis
    using assms handled_evolves [of e' nd _ nd' es B] client_evolves [of e "nd_g nd" cmsg _ _ B]
    by (auto simp: node_event_def event_ok_def)
next
  case (Mining nonce ks seen ks')
  then show ?thesis
    using assms mining_evolves [of e nonce ks seen ks' "nd_g nd" _ _ B]
    by (auto simp: node_event_def event_ok_def split: prod.splits if_splits)
next
  case (UserFile p d)
  then show ?thesis
    using assms by (intro evolves_files [OF files_reach.user])
      (auto simp: node_event_def event_ok_def)
next
  case (AddPeer p)
  then show ?thesis using assms by (intro evolves_same) (auto simp: node_event_def)
next
  case (Rename n)
  then show ?thesis using assms by (intro evolves_same) (auto simp: node_event_def SetName_def)
next
  case (Forget k)
  then show ?thesis using assms by (intro evolves_same) (auto simp: node_event_def forget_search_def)
qed (use assms in \<open>auto simp: node_event_def event_ok_def local_run_Inr StartAntiEntropyTimer_def publish_block_def
      DownloadFoundByName_def dest: mongering_event_evolves download_event_evolves searching_event_evolves
      intro: evolves_same split: option.splits if_splits\<close>)

lemma NewGossiper_fields:
  assumes "NewGossiper H resolve listen fs0 name uiport paddr ps simple = (fs, Some g)"
  shows "\<exists>fs1. InitSharedFilesManager fs0 = (fs1, g_sharedFilesManager g)
     \<and> InitDownloadingFilesManager fs1 = (g_disk g, g_downloadingFilesManager g)
     \<and> g_messageStorage g = InitMessageStorage name \<and> g_blockchainManager g = InitBlockchainManager H
     \<and> g_statusesChannels g = {||} \<and> g_downloadingFilesChannels g = {||} \<and> g_currentSearchRequest g = None
     \<and> g_name g = name \<and> name \<noteq> []"
  using assms by (auto simp: NewGossiper_def split: prod.splits option.splits if_splits)

lemma node_components:
  assumes "node_reach H B fs0 nd"
  shows "(\<exists>name ops. g_messageStorage (nd_g nd) = store_run (InitMessageStorage name) ops)
     \<and> bc_reach H B (g_blockchainManager (nd_g nd))
     \<and> files_reach H fs0 (g_disk (nd_g nd)) (g_sharedFilesManager (nd_g nd)) (g_downloadingFilesManager (nd_g nd))"
  using assms
proof (induction rule: node_reach.induct)
  case (start resolve listen name uiport peersAddress peers simple fs g)
  note f = NewGossiper_fields [OF this]
  then have "g_messageStorage g = store_run (InitMessageStorage name) []" by auto
  with f show ?case unfolding new_node_def node.simps
    by (metis bc_reach.start files_reach.start)
next
  case (event nd e e' ev nd' es)
  from node_event_evolves [OF event(3,2)] event.IH show ?case
    unfolding evolves_def by (metis store_run_append)
qed

end
