(* ===== verification/NodeWaiting.thy ===== *)
theory NodeWaiting
  imports NodeComponents
begin

text \<open>
  Who waits at which channel. \<open>outcome\<close> says what a handler or goroutine may do with the
  channels: nothing, start one goroutine at a channel that had none, or send to one
  goroutine that is there. From this follow the invariant of a running gossiper, that
  channels and waiting goroutines belong to each other one to one, and that no packet of a
  peer makes it panic or block.
\<close>

section \<open>What a handler may do with the channels\<close>

definition alive :: "Gossiper \<Rightarrow> bool" where
  "alive g \<longleftrightarrow> (\<exists>csr. g_currentSearchRequest g = Some csr \<and> csr_isAlive csr)"

abbreviation downloads :: "Gossiper \<Rightarrow> string fset" where
  "downloads g \<equiv> fmdom (dfm_downloadingFiles (g_downloadingFilesManager g))"

definition same_wait :: "Gossiper \<Rightarrow> Gossiper \<Rightarrow> bool" where
  "same_wait g g' \<longleftrightarrow> g_statusesChannels g' = g_statusesChannels g
     \<and> g_downloadingFilesChannels g' = g_downloadingFilesChannels g \<and> downloads g' = downloads g
     \<and> alive g' = alive g \<and> set (g_peers g) \<subseteq> set (g_peers g')"

fun quiet1 :: "effect \<Rightarrow> bool" where
  "quiet1 (SendPacket a p) = True"
| "quiet1 (Stdout s) = True"
| "quiet1 (ForgetLater k) = True"
| "quiet1 (ToClientPort m) = True"
| "quiet1 _ = False"

abbreviation quiet :: "effect list \<Rightarrow> bool" where
  "quiet es \<equiv> list_all quiet1 es"

inductive outcome :: "Gossiper \<Rightarrow> Gossiper \<Rightarrow> effect list \<Rightarrow> bool" where
  silent: "same_wait g g' \<Longrightarrow> quiet es \<Longrightarrow> outcome g g' es"
| monger: "p |\<notin>| g_statusesChannels g \<Longrightarrow> g_peers g' \<noteq> [] \<Longrightarrow>
    same_wait (g\<lparr>g_statusesChannels := finsert p (g_statusesChannels g)\<rparr>) g' \<Longrightarrow> quiet es \<Longrightarrow>
    outcome g g' (es @ [GoMongering r p])"
| status: "p |\<in>| g_statusesChannels g \<Longrightarrow>
    same_wait (g\<lparr>g_statusesChannels := g_statusesChannels g |-| {|p|}\<rparr>) g' \<Longrightarrow> quiet es \<Longrightarrow>
    outcome g g' (es @ [ToMongering p sp])"
| data: "src |\<in>| g_downloadingFilesChannels g \<Longrightarrow> same_wait g g' \<Longrightarrow> quiet es \<Longrightarrow>
    outcome g g' (es @ [ToDownloading src dp])"
| reply: "alive g \<Longrightarrow> same_wait g g' \<Longrightarrow> quiet es \<Longrightarrow> outcome g g' (es @ [ToSearching srp])"
| download: "src |\<notin>| downloads g \<Longrightarrow> downloads g' = finsert src (downloads g) \<Longrightarrow>
    g_downloadingFilesChannels g' = finsert src (g_downloadingFilesChannels g) \<Longrightarrow>
    g_statusesChannels g' = g_statusesChannels g \<Longrightarrow> alive g' = alive g \<Longrightarrow> set (g_peers g) \<subseteq> set (g_peers g') \<Longrightarrow> quiet es \<Longrightarrow>
    outcome g g' (es @ [GoDownloading src h])"
| search: "\<not> alive g \<Longrightarrow> alive g' \<Longrightarrow> downloads g' = downloads g \<Longrightarrow>
    g_downloadingFilesChannels g' = g_downloadingFilesChannels g \<Longrightarrow>
    g_statusesChannels g' = g_statusesChannels g \<Longrightarrow> set (g_peers g) \<subseteq> set (g_peers g') \<Longrightarrow> quiet es \<Longrightarrow>
    outcome g g' (es @ [GoSearching ks b])"

lemma same_wait_refl [simp]: "same_wait g g"
  by (simp add: same_wait_def)

lemma quiet_out [simp]: "quiet (map Stdout out)"
  by (simp add: list_all_iff)

lemma quiet_sends [simp]: "quiet (sendAllPeers g gp)" "quiet (sendPacketWithNextHop g n gp)"
  "quiet (order_effect m)" "quiet (printPeers g)" "quiet (printed g p)"
  by (auto simp: sendAllPeers_def sendPacketWithNextHop_def order_effect_def printPeers_def printed_def
      list_all_iff split: option.splits)

text \<open>Quiet effects before, and changes before that nobody waits for.\<close>

lemma outcome_before:
  "outcome g1 g' es' \<Longrightarrow> same_wait g g1 \<Longrightarrow> quiet es \<Longrightarrow> outcome g g' (es @ es')"
proof (induction rule: outcome.induct)
  case (silent g1 g' es')
  then show ?case by (intro outcome.silent) (auto simp: same_wait_def)
next
  case (monger p g1 g' es' r)
  then show ?case
    using outcome.monger [of p g g' "es @ es'" r] by (auto simp: same_wait_def alive_def)
next
  case (status p g1 g' es' sp)
  then show ?case
    using outcome.status [of p g g' "es @ es'" sp] by (auto simp: same_wait_def alive_def)
next
  case (data src g1 g' es' dp)
  then show ?case
    using outcome.data [of src g g' "es @ es'" dp] by (auto simp: same_wait_def)
next
  case (reply g1 g' es' srp)
  then show ?case
    using outcome.reply [of g g' "es @ es'" srp] by (auto simp: same_wait_def)
next
  case (download src g1 g' es' h)
  then show ?case
    using outcome.download [of src g g' "es @ es'" h] by (auto simp: same_wait_def)
next
  case (search g1 g' es' ks b)
  then show ?case
    using outcome.search [of g g' "es @ es'" ks b] by (auto simp: same_wait_def)
qed

lemma outcome_andthen:
  assumes "andthen (Inr (g1, es1)) f = Inr (g', es)" "same_wait g g1" "quiet es1"
    and "\<And>es2. f g1 = Inr (g', es2) \<Longrightarrow> outcome g1 g' es2"
  shows "outcome g g' es"
  using assms outcome_before by (auto simp: andthen_Inr)

section \<open>The handlers\<close>

lemma spread_outcome:
  assumes "spreadTheRumor r g rmsg peer = Inr (g', es)" "g_peers g \<noteq> []" shows "outcome g g' es"
proof -
  obtain p where "(if peer = nil_addr then getRandomPeer r g else Inr peer) = Inr p"
    "(if p |\<in>| g_statusesChannels g then (g, [])
      else (g\<lparr>g_statusesChannels := finsert p (g_statusesChannels g)\<rparr>,
        [SendPacket p (EmptyPacket\<lparr>gp_Rumor := Some rmsg\<rparr>), Stdout (''MONGERING with '' @ p @ nl)] @ [GoMongering rmsg p]))
      = (g', es)"
    using assms(1) unfolding spreadTheRumor_def go_map_Inr by auto
  then show ?thesis
    using assms(2) outcome.silent [of g g "[]"]
      outcome.monger [of p g "g\<lparr>g_statusesChannels := finsert p (g_statusesChannels g)\<rparr>"
        "[SendPacket p (EmptyPacket\<lparr>gp_Rumor := Some rmsg\<rparr>), Stdout (''MONGERING with '' @ p @ nl)]" rmsg]
    by (auto simp: same_wait_def alive_def split: if_splits)
qed

lemma rumor_outcome:
  assumes "processRumorMessage e g rmsg = Inr (g', es)" shows "outcome g g' es"
proof -
  obtain ms new where a: "AddRumorMessage (g_messageStorage g) rmsg = (ms, new)" by fastforce
  let ?g = "g\<lparr>g_messageStorage := ms\<rparr>"
  have s: "same_wait g ?g" by (simp add: same_wait_def alive_def)
  show ?thesis
  proof (cases "new \<and> \<not> arePeersEmpty ?g")
    case True
    then have "spreadTheRumor (e_rand e) ?g rmsg nil_addr = Inr (g', es)" "g_peers ?g \<noteq> []"
      using assms a by (auto simp: processRumorMessage_def arePeersEmpty_def)
    from outcome_before [OF spread_outcome [OF this] s, of "[]"] show ?thesis by simp
  next
    case False
    then have "g' = ?g" "es = []" using assms a by (auto simp: processRumorMessage_def Let_def split: if_splits)
    then show ?thesis using s outcome.silent [of g ?g "[]"] by simp
  qed
qed

lemma addressed_rumor_outcome:
  assumes "processAddressedRumorMessage e g rmsg a = Inr (g', es)" shows "outcome g g' es"
proof -
  let ?u = "if IsNewMessage (g_messageStorage g) rmsg then updateNextHop g (rm_OriginalName rmsg) a else (g, [])"
  obtain g1 es1 where u: "?u = (g1, es1)" by fastforce
  then have s: "same_wait g g1" "quiet es1"
    by (auto simp: updateNextHop_def same_wait_def alive_def split: if_splits)
  obtain es2 where r: "processRumorMessage e g1 rmsg = Inr (g', es2)"
    "es = [SendPacket a (current_status e g)] @ es1 @ es2"
    using assms u by (auto simp: processAddressedRumorMessage_def andthen_Inr)
  then show ?thesis
    using outcome_before [OF rumor_outcome [OF r(1)] s(1), of "[SendPacket a (current_status e g)] @ es1"] s(2) by simp
qed

lemma status_outcome:
  assumes "processAddressedStatusPacket e g sp a = Inr (g', es)" "g_peers g \<noteq> []" shows "outcome g g' es"
proof (cases "a |\<in>| g_statusesChannels g")
  case True
  then show ?thesis
    using assms outcome.status [of a g g' "[]" sp]
    by (auto simp: processAddressedStatusPacket_def same_wait_def alive_def)
next
  case False
  with assms show ?thesis
    by (auto simp: processAddressedStatusPacket_def intro: spread_outcome outcome.silent
        split: option.splits if_splits)
qed

lemma simple_outcome: "processAddressedSimpleMessage g smsg a = Inr (g', es) \<Longrightarrow> outcome g g' es"
  by (auto simp: processAddressedSimpleMessage_def Let_def list_all_iff intro: outcome.silent)

lemma private_outcome: "processPrivateMessage g pmsg = Inr (g', es) \<Longrightarrow> outcome g g' es"
  by (auto simp: processPrivateMessage_def Let_def same_wait_def alive_def intro!: outcome.silent split: if_splits)

lemma data_request_outcome: "processDataRequest e g dq = Inr (g', es) \<Longrightarrow> outcome g g' es"
  by (auto simp: processDataRequest_def Let_def intro!: outcome.silent split: if_splits option.splits)

lemma data_reply_outcome: "processDataReply g dp = Inr (g', es) \<Longrightarrow> outcome g g' es"
  using outcome.data [of "dp_Origin dp" g g "[]" dp]
  by (auto simp: processDataReply_def Let_def intro: outcome.silent split: if_splits)

lemma search_reply_outcome: "processAddressedSearchReply g srp = Inr (g', es) \<Longrightarrow> outcome g g' es"
  using outcome.reply [of g g "[]" srp]
  by (auto simp: processAddressedSearchReply_def Let_def IsAlive_def ForwardSearchReply_def alive_def
      intro: outcome.silent split: if_splits option.splits)

lemma forward_search_quiet: "forward_search g s b = Inr es \<Longrightarrow> quiet es"
  by (auto simp: forward_search_def list_all_iff)

lemma search_request_quiet: "processSearchRequest e g s = Inr (g', es) \<Longrightarrow> quiet es"
  by (auto simp: processSearchRequest_def Let_def dest: forward_search_quiet split: if_splits)

lemma search_request_outcome:
  "processAddressedSearchRequest e g s = Inr (g', es) \<Longrightarrow> outcome g g' es"
  unfolding processAddressedSearchRequest_def Let_def
  by (auto simp: andthen_Inr same_wait_def alive_def intro!: outcome.silent dest: search_request_same
      search_request_quiet split: if_splits)

lemma tx_outcome: "processTxPublish g tx = Inr (g', es) \<Longrightarrow> outcome g g' es"
  by (auto simp: processTxPublish_def Let_def same_wait_def alive_def intro!: outcome.silent
      split: if_splits prod.splits)

lemma block_outcome: "processBlockPublish e g bp = Inr (g', es) \<Longrightarrow> outcome g g' es"
  by (auto simp: processBlockPublish_def Let_def same_wait_def alive_def intro!: outcome.silent
      split: if_splits prod.splits)

lemma share_outcome: "processClientToShare e g m = Inr (g', es) \<Longrightarrow> outcome g g' es"
  by (rule outcome.silent)
    (auto simp: processClientToShare_def Let_def same_wait_def alive_def case_prod_unfold split: option.splits)

lemma download_outcome:
  assumes "processClientDataRequest g m = Inr (g', es)" shows "outcome g g' es"
proof (cases "td_Destination m = [] \<or> td_Destination m |\<in>| downloads g")
  case True
  then show ?thesis using assms
    by (auto simp: processClientDataRequest_def StartDownloadingFromOrigin_def has_key_def Let_def
        same_wait_def alive_def intro!: outcome.silent split: option.splits if_splits)
next
  case False
  then show ?thesis using assms
    by (auto simp: processClientDataRequest_def StartDownloadingFromOrigin_def has_key_def Let_def alive_def
        intro!: outcome.download)
qed

lemma search_outcome: "processClientSearchRequest g m = Inr (g', es) \<Longrightarrow> outcome g g' es"
  using outcome.search [of g g' "[]" "sc_Keywords m" "sint (sc_Budget m)"]
  by (auto simp: processClientSearchRequest_def IsAlive_def alive_def InitCurrentSearchRequest_def
      intro: outcome.silent split: option.splits if_splits)

lemmas handler_outcomes = addressed_rumor_outcome simple_outcome private_outcome data_request_outcome
  data_reply_outcome search_reply_outcome search_request_outcome tx_outcome block_outcome

lemma packet_outcome:
  assumes "process_packet e g agp = Inr (g', es)" shows "outcome g g' es"
proof -
  let ?g = "UpdatePeersIfNeeded g (agp_Address agp)"
  have "outcome ?g g' es'" if "processAddressedGossipPacket e g agp = Inr (g', es')" for es'
    using that unfolding processAddressedGossipPacket_def Let_def
    by (auto split: option.splits intro: handler_outcomes status_outcome outcome.silent)
  moreover have "same_wait g ?g" by (auto simp: same_wait_def alive_def UpdatePeersIfNeeded_def)
  ultimately have "outcome g g' es'" if "processAddressedGossipPacket e g agp = Inr (g', es')" for es'
    using outcome_before [of ?g g' es' g "[]"] that by simp
  then show ?thesis
    using outcome_andthen [OF assms [unfolded process_packet_def]] by simp
qed

lemma client_outcome:
  assumes "process_client e g cmsg = Inr (g', es)" shows "outcome g g' es"
proof -
  have "outcome g g' es'" if "processClientMessage e g cmsg = Inr (g', es')" for es'
    using that unfolding processClientMessage_def
    by (auto split: option.splits if_splits intro: handler_outcomes rumor_outcome share_outcome download_outcome
        search_outcome outcome.silent)
  then show ?thesis
    using outcome_andthen [OF assms [unfolded process_client_def]] by simp
qed

section \<open>The goroutines\<close>

abbreviation starts_only :: "effect list \<Rightarrow> bool" where
  "starts_only es \<equiv> list_all (\<lambda>ef. quiet1 ef \<or> (\<exists>r p. ef = GoMongering r p)) es"

lemma spread_total: "g_peers g \<noteq> [] \<Longrightarrow> \<exists>g' es. spreadTheRumor r g rmsg peer = Inr (g', es) \<and> starts_only es"
proof -
  assume "g_peers g \<noteq> []"
  then have "\<exists>p. (if peer = nil_addr then getRandomPeer r g else Inr peer) = Inr p"
    using getRandomPeer_in [of g r] by auto
  then obtain p where "(if peer = nil_addr then getRandomPeer r g else Inr peer) = Inr p" by blast
  then show ?thesis by (simp add: spreadTheRumor_def del: go_map_Inr)
qed

lemma flip_ok:
  assumes "g_peers g \<noteq> []"
  shows "\<exists>g' es. flipRumorMongeringCoin e g r = Inr (g', es) \<and> outcome g g' es \<and> starts_only es"
proof (cases "e_coin e mod 2 = 0")
  case True
  obtain p where p: "getRandomPeer (e_rand e) g = Inr p" using getRandomPeer_in [OF assms] by blast
  from spread_total [OF assms] obtain g' es where
    s: "spreadTheRumor (e_rand' e) g r p = Inr (g', es)" "starts_only es" by blast
  let ?es = "[Stdout (''FLIPPED COIN sending rumor to '' @ p @ nl)]"
  have "flipRumorMongeringCoin e g r = Inr (g', ?es @ es)"
    using True p s(1) by (simp add: flipRumorMongeringCoin_def andthen_def)
  moreover have "outcome g g' (?es @ es)"
    using outcome_before [OF spread_outcome [OF s(1) assms] same_wait_refl, of ?es] by simp
  moreover have "starts_only (?es @ es)" using s(2) by simp
  ultimately show ?thesis by blast
next
  case False
  then show ?thesis by (auto simp: flipRumorMongeringCoin_def intro: outcome.silent)
qed

lemma status_thread_ok:
  assumes "ms_inv (g_messageStorage g)" "g_peers g \<noteq> []"
  shows "\<exists>g' es. startRumorMongeringThread e g r p (StatusArrived sp) = Inr (g', es) \<and> outcome g g' es \<and> starts_only es"
proof -
  obtain res where "status_diff_of e g sp = Inr res"
    using Diff_total [OF assms(1)] unfolding status_diff_of_def by blast
  then obtain m f where d: "status_diff_of e g sp = Inr (m, f)" by (cases res) auto
  show ?thesis
  proof (cases m)
    case (Some x)
    from spread_total [OF assms(2)] obtain g' es where
      s: "spreadTheRumor (e_rand e) g x p = Inr (g', es)" "starts_only es" by blast
    with d Some spread_outcome [OF s(1) assms(2)] show ?thesis by (simp add: startRumorMongeringThread_def)
  next
    case None
    show ?thesis
    proof (cases f)
      case True
      then show ?thesis using d None by (auto simp: startRumorMongeringThread_def intro: outcome.silent)
    next
      case False
      let ?es = "[Stdout (''IN SYNC WITH '' @ p @ nl)]"
      from flip_ok [OF assms(2)] obtain g' es where
        f: "flipRumorMongeringCoin e g r = Inr (g', es)" "outcome g g' es" "starts_only es" by blast
      then have "startRumorMongeringThread e g r p (StatusArrived sp) = Inr (g', ?es @ es)"
        using d None False by (simp add: startRumorMongeringThread_def andthen_def)
      moreover have "outcome g g' (?es @ es)"
        using outcome_before [OF f(2) same_wait_refl, of ?es] by simp
      ultimately show ?thesis using f(3) by auto
    qed
  qed
qed

lemma timeout_thread_ok:
  assumes "g_peers g \<noteq> []"
  shows "\<exists>g' es. startRumorMongeringThread e g r p MongeringTimeout = Inr (g', es)
     \<and> outcome (g\<lparr>g_statusesChannels := g_statusesChannels g |-| {|p|}\<rparr>) g' es \<and> starts_only es"
  using flip_ok [of "g\<lparr>g_statusesChannels := g_statusesChannels g |-| {|p|}\<rparr>"] assms
  by (simp add: startRumorMongeringThread_def)

lemma download_step_downloads:
  "download_step H ord src ev (fs, dfm, th) = ((fs', dfm', th'), hs) \<Longrightarrow>
   fmdom (dfm_downloadingFiles dfm') =
     (if th' = None then fmdom (dfm_downloadingFiles dfm) |-| {|src|} else fmdom (dfm_downloadingFiles dfm))"
  by (auto simp: download_step_def ProcessDataReply_def DropDownloading_def Let_def fmlookup_dom_iff
      split: dl_event.splits option.splits prod.splits if_splits)

lemma downloading_step_wait:
  assumes "file_downloading_step e src ev g th = (g', th', es)"
  shows "g_statusesChannels g' = g_statusesChannels g \<and> alive g' = alive g \<and> g_peers g' = g_peers g \<and> quiet es
     \<and> downloads g' = (if th' = None then downloads g |-| {|src|} else downloads g)
     \<and> g_downloadingFilesChannels g' = (if th' = None then g_downloadingFilesChannels g |-| {|src|}
          else g_downloadingFilesChannels g)"
proof -
  obtain fs dfm th1 hs where
    d: "download_step (e_H e) (e_chunkOrder e) src ev (g_disk g, g_downloadingFilesManager g, th) = ((fs, dfm, th1), hs)"
    by (cases "download_step (e_H e) (e_chunkOrder e) src ev (g_disk g, g_downloadingFilesManager g, th)") auto
  have q: "quiet (concat (map (\<lambda>h. sendPacketWithNextHop g1 src (data_request g1 src h)) hs))" for g1
    by (induction hs) auto
  show ?thesis
    using assms d q download_step_downloads [OF d]
    by (auto simp: file_downloading_step_def Let_def alive_def)
qed

lemma search_results_alive: "csr_isAlive (fst (foldl (search_result src) (csr, out) rs)) = csr_isAlive csr"
proof (induction rs arbitrary: csr out)
  case (Cons r rs)
  obtain csr1 out1 where s: "search_result src (csr, out) r = (csr1, out1)" by fastforce
  then have "csr_isAlive csr1 = csr_isAlive csr"
    by (auto simp: search_result_def Let_def AddFullMatch_def split: if_splits option.splits)
  then show ?case using Cons.IH [of csr1 out1] s by simp
qed simp

lemma searching_reply_ok:
  assumes "alive g"
  shows "\<exists>g' th' es. file_searching_reply packet g th = Inr (g', th', es) \<and> quiet es
     \<and> same_wait (g\<lparr>g_currentSearchRequest := None\<rparr>) (g'\<lparr>g_currentSearchRequest := None\<rparr>) \<and> (alive g' \<longleftrightarrow> th' \<noteq> None)"
proof -
  obtain csr where csr: "g_currentSearchRequest g = Some csr" "csr_isAlive csr" using assms by (auto simp: alive_def)
  obtain csr1 out where f: "foldl (search_result (sp_Origin packet)) (csr, []) (sp_Results packet) = (csr1, out)"
    by fastforce
  then have "csr_isAlive csr1" using search_results_alive [of "sp_Origin packet" csr "[]" "sp_Results packet"] csr(2) by simp
  then show ?thesis
    using csr(1) f by (auto simp: file_searching_reply_def search_reply_def same_wait_def alive_def Shutdown_def list_all_iff)
qed

lemma search_request_total: "g_peers g \<noteq> [] \<Longrightarrow> \<exists>es. processSearchRequest e g s = Inr (g, es)"
  by (simp add: processSearchRequest_def forward_search_def split_budget_def Let_def)

lemma searching_tick_ok:
  assumes "alive g" "file_searching_tick e ks g th = Inr (g', th', es)"
  shows "quiet es \<and> same_wait (g\<lparr>g_currentSearchRequest := None\<rparr>) (g'\<lparr>g_currentSearchRequest := None\<rparr>)
     \<and> (alive g' \<longleftrightarrow> th' \<noteq> None)"
  using assms
proof (cases "se_budget th > se_maxAllowedBudget th")
  case True
  then show ?thesis using assms
    by (auto simp: file_searching_tick_def same_wait_def alive_def Shutdown_def split: if_splits)
next
  case False
  with assms(2) obtain s where r: "processSearchRequest e g s = Inr (g', es)" "th' \<noteq> None"
    by (auto simp: file_searching_tick_def)
  from r(2) search_request_same [OF r(1)] search_request_quiet [OF r(1)] assms(1) show ?thesis by simp
qed

section \<open>The invariant\<close>

text \<open>A mongering goroutine per status channel, a downloading goroutine per reply channel and
  running download, and a search goroutine exactly while the search is alive. Mongering
  needs a peer.\<close>

definition wait_ok :: "node \<Rightarrow> bool" where
  "wait_ok nd \<longleftrightarrow> g_statusesChannels (nd_g nd) = fmdom (nd_mongering nd)
     \<and> g_downloadingFilesChannels (nd_g nd) = fmdom (nd_downloading nd)
     \<and> downloads (nd_g nd) = fmdom (nd_downloading nd)
     \<and> (alive (nd_g nd) \<longleftrightarrow> nd_searching nd \<noteq> None)
     \<and> (fmdom (nd_mongering nd) \<noteq> {||} \<longrightarrow> g_peers (nd_g nd) \<noteq> [])"

lemma spawn_quiet: "quiet es \<Longrightarrow> spawn (es @ efs) nd = spawn efs nd"
proof (induction es arbitrary: nd)
  case (Cons ef es)
  then show ?case by (cases ef) (auto simp: spawn_def)
qed simp

lemma spawn_Nil [simp]: "spawn [] nd = nd" "spawn [ef] nd = spawn1 ef nd"
  by (simp_all add: spawn_def)

lemma go_map_id: "go_map (\<lambda>(x, y). (x, y)) r = r" "go_map id r = r"
  by (cases r; auto)+

lemma hand_over_quiet: "quiet es \<Longrightarrow> hand_over e (es @ efs) nd = hand_over e efs nd"
proof (induction es arbitrary: nd)
  case (Cons ef es)
  then have "hand_over1 e nd ef = Some (Inr (nd, []))" by (cases ef) auto
  with Cons show ?case by (simp add: go_map_id split: option.splits)
qed simp

lemma hand_over_one:
  "hand_over e [ef] nd = Some (Inr (nd', es)) \<longleftrightarrow> hand_over1 e nd ef = Some (Inr (nd', es))"
  by (auto split: option.splits sum.splits)

lemma handled_eq:
  assumes "quiet es"
  shows "handled e nd (Inr (g, es)) = Some (Inr (nd\<lparr>nd_g := g\<rparr>, es))"
    "hand_over1 e (spawn1 ef (nd\<lparr>nd_g := g\<rparr>)) ef = Some (Inr (nd', es'))
      \<Longrightarrow> handled e nd (Inr (g, es @ [ef])) = Some (Inr (nd', (es @ [ef]) @ es'))"
proof -
  show "handled e nd (Inr (g, es)) = Some (Inr (nd\<lparr>nd_g := g\<rparr>, es))"
    using spawn_quiet [OF assms, of "[]"] hand_over_quiet [OF assms, of e "[]"]
    by (simp add: handled_def local_run_def)
  show "handled e nd (Inr (g, es @ [ef])) = Some (Inr (nd', (es @ [ef]) @ es'))"
    if "hand_over1 e (spawn1 ef (nd\<lparr>nd_g := g\<rparr>)) ef = Some (Inr (nd', es'))"
    using that hand_over_one [of e ef] spawn_quiet [OF assms, of "[ef]"] hand_over_quiet [OF assms, of e "[ef]"]
    by (simp add: handled_def local_run_def del: hand_over.simps)
qed

lemma spawn_local:
  assumes "wait_ok (nd\<lparr>nd_g := g\<rparr>)" "outcome g g' es" "starts_only es"
  shows "wait_ok (spawn es (nd\<lparr>nd_g := g'\<rparr>))"
  using assms(2,3,1)
proof (cases rule: outcome.cases)
  case silent
  then show ?thesis
    using assms(1) spawn_quiet [of es "[]"] by (auto simp: wait_ok_def same_wait_def)
next
  case (monger p es0 r)
  then show ?thesis
    using assms(1) spawn_quiet [of es0 "[GoMongering r p]"] by (auto simp: wait_ok_def same_wait_def alive_def)
qed auto

lemma mongering_status_ok:
  assumes "wait_ok (nd\<lparr>nd_mongering := fmdrop p (nd_mongering nd)\<rparr>)" "fmlookup (nd_mongering nd) p = Some r"
    and "ms_inv (g_messageStorage (nd_g nd))" "g_peers (nd_g nd) \<noteq> []"
  shows "\<exists>nd' es. mongering_event e nd p (StatusArrived sp) = Some (Inr (nd', es)) \<and> wait_ok nd'"
proof -
  from status_thread_ok [OF assms(3,4)] obtain g' es where
    s: "startRumorMongeringThread e (nd_g nd) r p (StatusArrived sp) = Inr (g', es)"
    "outcome (nd_g nd) g' es" "starts_only es" by blast
  have "wait_ok (spawn es ((nd\<lparr>nd_mongering := fmdrop p (nd_mongering nd)\<rparr>)\<lparr>nd_g := g'\<rparr>))"
    by (rule spawn_local [OF _ s(2,3)]) (use assms(1) in simp)
  then show ?thesis using s(1) assms(2) by (simp add: mongering_event_def local_run_def)
qed

lemma download_event_ok:
  assumes "wait_ok nd" "src |\<in>| fmdom (nd_downloading nd)"
  shows "\<exists>nd' es. download_event e nd src ev = Some (Inr (nd', es)) \<and> wait_ok nd'"
proof -
  obtain th where th: "fmlookup (nd_downloading nd) src = Some th" using assms(2) by (auto simp: fmlookup_dom_iff)
  obtain g' th' es where s: "file_downloading_step e src ev (nd_g nd) th = (g', th', es)"
    by (metis prod_cases3)
  from downloading_step_wait [OF s] show ?thesis
    using assms s th by (auto simp: download_event_def wait_ok_def split: option.splits)
qed

lemma searching_ok:
  assumes "wait_ok nd" "nd_searching nd = Some (ks, th)"
    and "r = Inr (g', th', es)"
    and "same_wait ((nd_g nd)\<lparr>g_currentSearchRequest := None\<rparr>) (g'\<lparr>g_currentSearchRequest := None\<rparr>)"
    and "alive g' \<longleftrightarrow> th' \<noteq> None"
  shows "\<exists>nd'. searching_result nd ks r = Inr (nd', es) \<and> wait_ok nd'"
  using assms by (auto simp: searching_result_def wait_ok_def same_wait_def)

end
