(* ===== verification/NodeProps.thy ===== *)
theory NodeProps
  imports NodeWaiting Samples
begin

text \<open>
  The invariant of a running gossiper over all events, and what it gives: which events can
  make a gossiper panic, that none blocks it, and that every event keeps the channels and
  the waiting goroutines together.
\<close>

section \<open>Every event keeps the invariant\<close>

lemma wait_same: "wait_ok nd \<Longrightarrow> same_wait (nd_g nd) g' \<Longrightarrow> wait_ok (nd\<lparr>nd_g := g'\<rparr>)"
  by (auto simp: wait_ok_def same_wait_def)

lemma handled_ok:
  assumes w: "wait_ok nd" and c: "outcome (nd_g nd) g' es" and m: "ms_inv (g_messageStorage g')"
  shows "\<exists>nd' es'. handled e nd (Inr (g', es)) = Some (Inr (nd', es')) \<and> wait_ok nd'"
  using c
proof (cases rule: outcome.cases)
  case silent
  then show ?thesis
    using w handled_eq(1) [of es e nd g'] by (auto simp: wait_ok_def same_wait_def)
next
  case (monger p es0 r)
  let ?nd = "nd\<lparr>nd_g := g', nd_mongering := fmupd p r (nd_mongering nd)\<rparr>"
  have "handled e nd (Inr (g', es)) = Some (Inr (?nd, es))"
    unfolding monger(1) using handled_eq(2) [OF monger(5), of e "GoMongering r p" g' nd ?nd "[]"] by simp
  moreover have "wait_ok ?nd" using w monger by (auto simp: wait_ok_def same_wait_def alive_def)
  ultimately show ?thesis by blast
next
  case (status p es0 sp)
  then obtain r where r: "fmlookup (nd_mongering nd) p = Some r"
    using w by (auto simp: wait_ok_def fmlookup_dom_iff)
  let ?nd = "nd\<lparr>nd_g := g'\<rparr>"
  have "fmdom (nd_mongering nd) \<noteq> {||}" using r by (auto dest: fmdomI)
  then have "g_peers (nd_g nd) \<noteq> []" using w by (simp add: wait_ok_def)
  then have "g_peers (nd_g ?nd) \<noteq> []" using status(3) by (auto simp: same_wait_def)
  moreover have "wait_ok (?nd\<lparr>nd_mongering := fmdrop p (nd_mongering ?nd)\<rparr>)"
    using w status(3) \<open>g_peers (nd_g ?nd) \<noteq> []\<close> by (auto simp: wait_ok_def same_wait_def alive_def)
  moreover have "fmlookup (nd_mongering ?nd) p = Some r" using r by simp
  ultimately obtain nd' es' where
    "mongering_event e ?nd p (StatusArrived sp) = Some (Inr (nd', es'))" "wait_ok nd'"
    using mongering_status_ok [where nd = ?nd and p = p and r = r and e = e and sp = sp] m by auto
  then show ?thesis
    unfolding status(1) using handled_eq(2) [OF status(4), of e "ToMongering p sp" g' nd nd' es'] by simp
next
  case (data src es0 dp)
  let ?nd = "nd\<lparr>nd_g := g'\<rparr>"
  have "wait_ok ?nd" using w data(3) by (auto simp: wait_ok_def same_wait_def)
  moreover have "src |\<in>| fmdom (nd_downloading ?nd)" using w data(2) by (simp add: wait_ok_def)
  ultimately obtain nd' es' where "download_event e ?nd src (DlReply dp) = Some (Inr (nd', es'))" "wait_ok nd'"
    using download_event_ok [of ?nd src e "DlReply dp"] by auto
  then show ?thesis
    unfolding data(1) using handled_eq(2) [OF data(4), of e "ToDownloading src dp" g' nd nd' es'] by simp
next
  case (reply es0 srp)
  let ?nd = "nd\<lparr>nd_g := g'\<rparr>"
  have n: "wait_ok ?nd" using w reply(3) by (auto simp: wait_ok_def same_wait_def)
  have a: "alive g'" using reply(2,3) by (simp add: same_wait_def)
  with n obtain ks th where s: "nd_searching ?nd = Some (ks, th)" by (auto simp: wait_ok_def)
  from searching_reply_ok [OF a, of srp th] obtain g2 th2 es2 where
    r: "file_searching_reply srp g' th = Inr (g2, th2, es2)"
    "same_wait (g'\<lparr>g_currentSearchRequest := None\<rparr>) (g2\<lparr>g_currentSearchRequest := None\<rparr>)" "alive g2 \<longleftrightarrow> th2 \<noteq> None"
    by blast
  from searching_ok [OF n s r(1)] r(2,3) obtain nd' where
    "searching_event e ?nd (Some srp) = Some (Inr (nd', es2))" "wait_ok nd'"
    using s r(1) by (auto simp: searching_event_def)
  then show ?thesis
    unfolding reply(1) using handled_eq(2) [OF reply(4), of e "ToSearching srp" g' nd nd' es2] by simp
next
  case (download src es0 h)
  let ?nd = "nd\<lparr>nd_g := g', nd_downloading := fmupd src (start_thread h) (nd_downloading nd)\<rparr>"
  have "spawn1 (GoDownloading src h) (nd\<lparr>nd_g := g'\<rparr>) = ?nd"
    using download(4) by (simp add: start_downloading_def)
  then have "handled e nd (Inr (g', es)) = Some (Inr (?nd, es))"
    unfolding download(1) using handled_eq(2) [OF download(8), of e "GoDownloading src h" g' nd ?nd "[]"] by simp
  moreover have "wait_ok ?nd" using w download by (auto simp: wait_ok_def)
  ultimately show ?thesis by blast
next
  case (search es0 ks b)
  let ?nd = "nd\<lparr>nd_g := g', nd_searching := Some (ks, start_search b)\<rparr>"
  have "handled e nd (Inr (g', es)) = Some (Inr (?nd, es))"
    unfolding search(1) using handled_eq(2) [OF search(8), of e "GoSearching ks b" g' nd ?nd "[]"] by simp
  moreover have "wait_ok ?nd" using w search by (auto simp: wait_ok_def)
  ultimately show ?thesis by blast
qed

lemma mongering_timer_ok:
  assumes "wait_ok nd" "p |\<in>| fmdom (nd_mongering nd)"
  shows "\<exists>nd' es. mongering_event e nd p MongeringTimeout = Some (Inr (nd', es)) \<and> wait_ok nd'"
proof -
  obtain r where r: "fmlookup (nd_mongering nd) p = Some r" using assms(2) by (auto simp: fmlookup_dom_iff)
  have "g_peers (nd_g nd) \<noteq> []" using assms by (auto simp: wait_ok_def)
  from timeout_thread_ok [OF this] obtain g' es where
    s: "startRumorMongeringThread e (nd_g nd) r p MongeringTimeout = Inr (g', es)"
    "outcome ((nd_g nd)\<lparr>g_statusesChannels := g_statusesChannels (nd_g nd) |-| {|p|}\<rparr>) g' es" "starts_only es" by blast
  have "wait_ok (spawn es ((nd\<lparr>nd_mongering := fmdrop p (nd_mongering nd)\<rparr>)\<lparr>nd_g := g'\<rparr>))"
    by (rule spawn_local [OF _ s(2,3)]) (use assms(1) in \<open>auto simp: wait_ok_def alive_def\<close>)
  then show ?thesis using s(1) r by (simp add: mongering_event_def local_run_def)
qed

lemma searching_timer_ok:
  assumes "wait_ok nd" "searching_event e nd None = Some (Inr (nd', es))" shows "wait_ok nd'"
proof -
  obtain ks th where s: "nd_searching nd = Some (ks, th)"
    "searching_result nd ks (file_searching_tick e ks (nd_g nd) th) = Inr (nd', es)"
    using assms(2) by (auto simp: searching_event_def split: option.splits)
  then obtain g' th' where t: "file_searching_tick e ks (nd_g nd) th = Inr (g', th', es)"
    by (auto simp: searching_result_def)
  have "alive (nd_g nd)" using assms(1) s(1) by (auto simp: wait_ok_def)
  from searching_tick_ok [OF this t] searching_ok [OF assms(1) s(1) t] s(2) t show ?thesis by auto
qed

lemma quiet_run_ok:
  assumes "wait_ok nd" "local_run nd r = Inr (nd', es)" "\<And>g. r = Inr (g, es) \<Longrightarrow> g = nd_g nd \<and> quiet es"
  shows "wait_ok nd'"
proof -
  obtain g where g: "r = Inr (g, es)" "nd' = spawn es (nd\<lparr>nd_g := g\<rparr>)" using assms(2) by (auto simp: local_run_Inr)
  with assms(3) [OF g(1)] have "nd' = nd" using spawn_quiet [of es "[]" nd] by simp
  with assms(1) show ?thesis by simp
qed

lemma Init_no_downloads: "InitDownloadingFilesManager fs = (fs', dfm) \<Longrightarrow> dfm_downloadingFiles dfm = fmempty"
  by (auto simp: InitDownloadingFilesManager_def Let_def simp del: paths_eq)

lemma new_node_ok: "NewGossiper H resolve listen fs0 name uiport pa ps simple = (fs, Some g) \<Longrightarrow> wait_ok (new_node g)"
  using NewGossiper_fields [of H resolve listen fs0 name uiport pa ps simple fs g]
  by (auto simp: wait_ok_def new_node_def alive_def dest: Init_no_downloads)

lemma reach_store: "node_reach H B fs0 nd \<Longrightarrow> ms_inv (g_messageStorage (nd_g nd))"
  using node_components [of H B fs0 nd] ms_inv_store_run [OF ms_inv_Init] by fastforce

lemma evolves_store_inv: "evolves H B g g' \<Longrightarrow> ms_inv (g_messageStorage g) \<Longrightarrow> ms_inv (g_messageStorage g')"
  unfolding evolves_def using ms_inv_store_run by metis

lemma handled_run:
  assumes "wait_ok nd" "ms_inv (g_messageStorage (nd_g nd))"
    and "\<And>g es. r = Inr (g, es) \<Longrightarrow> outcome (nd_g nd) g es \<and> evolves H B (nd_g nd) g"
  shows "(\<exists>nd' es. handled e nd r = Some (Inr (nd', es)) \<and> wait_ok nd') \<or> (\<exists>p. r = Inl p \<and> handled e nd r = Some (Inl p))"
proof (cases r)
  case (Inr x)
  obtain g es where r: "r = Inr (g, es)" using Inr by (cases x) auto
  from assms(3) [OF r] handled_ok [OF assms(1), of g es e] evolves_store_inv [OF _ assms(2)] r show ?thesis
    by blast
qed (simp add: handled_def local_run_def)

lemma event_keeps_wait:
  assumes "wait_ok nd" "ms_inv (g_messageStorage (nd_g nd))" "event_ok H B e e' nd ev"
    and "node_event e e' nd ev = Some (Inr (nd', es))"
  shows "wait_ok nd'"
proof (cases ev)
  case (Packet agp)
  have "outcome (nd_g nd) g es \<and> evolves H B (nd_g nd) g" if "process_packet e (nd_g nd) agp = Inr (g, es)" for g es
    using packet_outcome [OF that] packet_evolves [OF that, of B] assms(3) Packet by (auto simp: event_ok_def)
  from handled_run [OF assms(1,2), of "process_packet e (nd_g nd) agp" H B e', OF this] Packet assms(4) show ?thesis
    by (auto simp: node_event_def)
next
  case (Order cmsg)
  have "outcome (nd_g nd) g es \<and> evolves H B (nd_g nd) g" if "process_client e (nd_g nd) cmsg = Inr (g, es)" for g es
    using client_outcome [OF that] client_evolves [OF that, of B] assms(3) Order by (auto simp: event_ok_def)
  from handled_run [OF assms(1,2), of "process_client e (nd_g nd) cmsg" H B e', OF this] Order assms(4) show ?thesis
    by (auto simp: node_event_def)
next
  case (MongeringTimer p)
  then have m: "mongering_event e nd p MongeringTimeout = Some (Inr (nd', es))"
    using assms(4) by (simp add: node_event_def)
  then have "p |\<in>| fmdom (nd_mongering nd)"
    by (auto simp: mongering_event_def fmlookup_dom_iff split: option.splits)
  from mongering_timer_ok [OF assms(1) this, of e] m show ?thesis by auto
next
  case (DownloadTimer src)
  then have m: "download_event e nd src DlTimeout = Some (Inr (nd', es))"
    using assms(4) by (simp add: node_event_def)
  then have "src |\<in>| fmdom (nd_downloading nd)"
    by (auto simp: download_event_def fmlookup_dom_iff split: option.splits)
  from download_event_ok [OF assms(1) this, of e DlTimeout] m show ?thesis by auto
next
  case SearchTimer
  then show ?thesis using assms(4) searching_timer_ok [OF assms(1)] by (auto simp: node_event_def)
next
  case AntiEntropy
  then have "local_run nd (StartAntiEntropyTimer e (nd_g nd)) = Inr (nd', es)"
    using assms(4) by (simp add: node_event_def)
  then show ?thesis
    by (rule quiet_run_ok [OF assms(1)]) (auto simp: StartAntiEntropyTimer_def split: if_splits)
next
  case (Mining nonce ks seen ks')
  then show ?thesis using assms(1,4)
    by (auto simp: node_event_def mining_attempt_def wait_ok_def alive_def split: prod.splits if_splits)
next
  case Publish
  then obtain b where "local_run (nd\<lparr>nd_mined := None\<rparr>) (publish_block (nd_g nd) b) = Inr (nd', es)"
    using assms(4) by (auto simp: node_event_def split: option.splits)
  then show ?thesis
    by (rule quiet_run_ok [rotated]) (use assms(1) in \<open>auto simp: publish_block_def wait_ok_def\<close>)
next
  case (DownloadFound n)
  then have "local_run nd (DownloadFoundByName (nd_g nd) n) = Inr (nd', es)"
    using assms(4) by (simp add: node_event_def)
  then show ?thesis
    by (rule quiet_run_ok [OF assms(1)]) (auto simp: DownloadFoundByName_def split: option.splits)
next
  case (Forget k)
  then have "nd' = nd\<lparr>nd_g := forget_search (nd_g nd) k\<rparr>" using assms(4) by (simp add: node_event_def)
  then show ?thesis using wait_same [OF assms(1)] by (simp add: same_wait_def alive_def forget_search_def)
next
  case (Rename n)
  then have "nd' = nd\<lparr>nd_g := SetName (nd_g nd) n\<rparr>" using assms(4) by (simp add: node_event_def)
  then show ?thesis using wait_same [OF assms(1)] by (simp add: same_wait_def alive_def SetName_def)
next
  case (AddPeer p)
  then have "nd' = nd\<lparr>nd_g := UpdatePeersIfNeeded (nd_g nd) p\<rparr>" using assms(4) by (simp add: node_event_def)
  moreover have "same_wait (nd_g nd) (UpdatePeersIfNeeded (nd_g nd) p)"
    by (auto simp: same_wait_def alive_def UpdatePeersIfNeeded_def)
  ultimately show ?thesis using wait_same [OF assms(1)] by simp
next
  case (UserFile p d)
  then have "nd' = nd\<lparr>nd_g := (nd_g nd)\<lparr>g_disk := WriteFile (g_disk (nd_g nd)) p d\<rparr>\<rparr>"
    using assms(4) by (simp add: node_event_def)
  then show ?thesis using wait_same [OF assms(1)] by (simp add: same_wait_def alive_def)
qed

lemma reach_wait: "node_reach H B fs0 nd \<Longrightarrow> wait_ok nd"
proof (induction rule: node_reach.induct)
  case (event nd e e' ev nd' es)
  from event_keeps_wait [OF event.IH reach_store [OF event(1)] event(2,3)] show ?case .
qed (rule new_node_ok)

section \<open>Properties\<close>


lemma AddBlock_total:
  "bm_inv H B bm \<Longrightarrow> collision_free H B \<Longrightarrow> b \<in> B \<Longrightarrow> \<exists>r. AddBlock H ord bm b = Inr r"
  using AddBlock_inv by blast

lemma spread_returns: "g_peers g \<noteq> [] \<Longrightarrow> \<exists>x. spreadTheRumor r g rmsg peer = Inr x"
  using spread_total by blast

lemma status_returns:
  assumes "ms_inv (g_messageStorage g)" "g_peers g \<noteq> []"
  shows "\<exists>x. processAddressedStatusPacket e g sp a = Inr x"
proof -
  obtain m f where "status_diff_of e g sp = Inr (m, f)"
    using Diff_total [OF assms(1)] unfolding status_diff_of_def by fastforce
  then show ?thesis
    using spread_returns [OF assms(2)] by (auto simp: processAddressedStatusPacket_def split: option.splits)
qed

lemma rumor_returns: "\<exists>x. processRumorMessage e g rmsg = Inr x"
proof -
  obtain ms new where "AddRumorMessage (g_messageStorage g) rmsg = (ms, new)" by fastforce
  then show ?thesis
    using spread_returns [of "g\<lparr>g_messageStorage := ms\<rparr>"] by (cases new) (auto simp: processRumorMessage_def arePeersEmpty_def Let_def)
qed

lemma andthen_returns: "(\<And>g. \<exists>x. f g = Inr x) \<Longrightarrow> \<exists>x. andthen (Inr y) f = Inr x"
proof -
  assume f: "\<And>g. \<exists>x. f g = Inr x"
  obtain g es where y: "y = (g, es)" by (cases y)
  obtain g' es' where "f g = Inr (g', es')" using f [of g] by auto
  then show ?thesis by (simp add: y andthen_def)
qed

lemma packet_returns:
  assumes "ms_inv (g_messageStorage g)" "bm_inv (e_H e) B (g_blockchainManager g)" "collision_free (e_H e) B"
    and "\<And>bp. gp_BlockPublish (agp_Packet agp) = Some bp \<Longrightarrow> bp_Block bp \<in> B"
  shows "\<exists>x. process_packet e g agp = Inr x"
proof -
  let ?g = "UpdatePeersIfNeeded g (agp_Address agp)"
  have r: "\<exists>x. processAddressedRumorMessage e ?g m a = Inr x" for m a
    unfolding processAddressedRumorMessage_def by (rule andthen_returns rumor_returns)+
  have s: "\<exists>x. processAddressedStatusPacket e ?g m a = Inr x" for m a
    by (rule status_returns) (use assms(1) in simp_all)
  have q: "\<exists>x. processAddressedSearchRequest e ?g m = Inr x" for m
  proof -
    let ?k = "GetRecentSearchRequestSetKey (sq_Origin m) (sq_Keywords m)"
    obtain es where "processSearchRequest e (?g\<lparr>g_recentSearchRequests := finsert ?k (g_recentSearchRequests ?g)\<rparr>) m
        = Inr (?g\<lparr>g_recentSearchRequests := finsert ?k (g_recentSearchRequests ?g)\<rparr>, es)"
      using search_request_total [of "?g\<lparr>g_recentSearchRequests := finsert ?k (g_recentSearchRequests ?g)\<rparr>" e m] by auto
    then show ?thesis by (simp add: processAddressedSearchRequest_def andthen_def Let_def)
  qed
  have b: "\<exists>x. processBlockPublish e ?g m = Inr x" if bp: "gp_BlockPublish (agp_Packet agp) = Some m" for m
  proof -
    obtain r where "AddBlock (e_H e) (e_pendingOrder e) (g_blockchainManager g) (bp_Block m) = Inr r"
      using AddBlock_total [OF assms(2,3) assms(4) [OF bp], of "e_pendingOrder e"] by blast
    then show ?thesis by (simp add: processBlockPublish_def del: go_map_Inr)
  qed
  have o: "\<exists>x. processAddressedSimpleMessage ?g m1 (Some a) = Inr x" "\<exists>x. processPrivateMessage ?g m2 = Inr x"
    "\<exists>x. processDataRequest e ?g m3 = Inr x" "\<exists>x. processDataReply ?g m4 = Inr x"
    "\<exists>x. processAddressedSearchReply ?g m5 = Inr x" "\<exists>x. processTxPublish ?g m6 = Inr x" for m1 m2 m3 m4 m5 m6 a
    by (auto simp: processAddressedSimpleMessage_def processPrivateMessage_def processDataRequest_def
        processDataReply_def processAddressedSearchReply_def processTxPublish_def Let_def split: option.splits prod.splits)
  have "\<exists>x. processAddressedGossipPacket e g agp = Inr x"
    unfolding processAddressedGossipPacket_def Let_def
    using r s q b o by (auto split: option.splits)
  then show ?thesis by (auto simp: process_packet_def andthen_def)
qed

text \<open>C1: No packet of a peer makes a running gossiper panic or block for ever, whatever it
  carries: the handler returns, and when it sends on a channel a goroutine is there to
  receive. Events run one after the other, each to its end (what can happen when they do not is
  the subject of the theory Concurrency); block hashes do not collide.\<close>
theorem no_packet_stops_a_gossiper:
  assumes "node_reach H B fs0 nd" "collision_free H B" "event_ok H B e e' nd (Packet agp)"
  shows "\<exists>nd' es. node_event e e' nd (Packet agp) = Some (Inr (nd', es))"
proof -
  have h: "e_H e = H" "\<And>bp. gp_BlockPublish (agp_Packet agp) = Some bp \<Longrightarrow> bp_Block bp \<in> B"
    using assms(3) by (auto simp: event_ok_def)
  have m: "ms_inv (g_messageStorage (nd_g nd))" by (rule reach_store [OF assms(1)])
  have b: "bm_inv (e_H e) B (g_blockchainManager (nd_g nd))"
    using bc_reach_inv node_components [OF assms(1)] assms(2) h(1) by blast
  obtain g es where r: "process_packet e (nd_g nd) agp = Inr (g, es)"
    using packet_returns [OF m b _ h(2)] assms(2) h(1) by fastforce
  have "outcome (nd_g nd) g es \<and> evolves H B (nd_g nd) g"
    using packet_outcome [OF r] packet_evolves [OF r, of B] h by auto
  with handled_run [OF reach_wait [OF assms(1)] m, of "Inr (g, es)" H B e'] r show ?thesis
    by (auto simp: node_event_def)
qed

text \<open>The events at which a gossiper panics.\<close>

definition order_panics :: "Gossiper \<Rightarrow> ClientMessage \<Rightarrow> bool" where
  "order_panics g cmsg \<longleftrightarrow> cm_Rumor cmsg = None \<and> cm_RouteRumor cmsg = None \<and> cm_Private cmsg = None
    \<and> (case cm_ToShare cmsg of
         Some ts \<Rightarrow> os_Stat (g_disk g) (Join (SharedFilesPath (g_disk g)) (ts_Path ts)) = Inl NotDirectory
       | None \<Rightarrow> (case cm_ToDownload cmsg of
             Some td \<Rightarrow> td_Destination td = [] \<and> g_currentSearchRequest g = None
           | None \<Rightarrow> False))"

definition event_panics :: "node \<Rightarrow> event \<Rightarrow> panic option" where
  "event_panics nd ev = (case ev of
     Order cmsg \<Rightarrow> if order_panics (nd_g nd) cmsg then Some NilDereference else None
   | SearchTimer \<Rightarrow> (case nd_searching nd of
        Some (ks, th) \<Rightarrow> if g_peers (nd_g nd) = [] \<and> se_budget th \<le> se_maxAllowedBudget th
          then Some DivideByZero else None
      | None \<Rightarrow> None)
   | DownloadFound n \<Rightarrow> if g_currentSearchRequest (nd_g nd) = None then Some NilDereference else None
   | _ \<Rightarrow> None)"

lemma share_panics: "processClientToShare e g m = Inl p \<longleftrightarrow>
    p = NilDereference \<and> os_Stat (g_disk g) (Join (SharedFilesPath (g_disk g)) (ts_Path m)) = Inl NotDirectory"
  unfolding processClientToShare_def go_map_Inl by (rule share_file_panics)

lemma rumor_never_panics: "processRumorMessage e g r \<noteq> Inl p"
  using rumor_returns [of e g r] by auto

lemma order_panics: "process_client e g cmsg = Inl p \<longleftrightarrow> p = NilDereference \<and> order_panics g cmsg"
proof -
  have "process_client e g cmsg = Inl p \<longleftrightarrow> processClientMessage e g cmsg = Inl p"
    by (simp add: process_client_def andthen_def)
  also have "\<dots> \<longleftrightarrow> p = NilDereference \<and> order_panics g cmsg"
    unfolding processClientMessage_def order_panics_def
    by (auto simp: processAddressedSimpleMessage_def processPrivateMessage_def processClientSearchRequest_def
        processClientDataRequest_def share_panics rumor_never_panics Let_def
        split: option.splits if_splits prod.splits)
  finally show ?thesis .
qed

lemma handled_panics:
  assumes "wait_ok nd" "ms_inv (g_messageStorage (nd_g nd))"
    and "\<And>g es. r = Inr (g, es) \<Longrightarrow> outcome (nd_g nd) g es \<and> evolves H B (nd_g nd) g"
  shows "handled e nd r = Some (Inl p) \<longleftrightarrow> r = Inl p"
  using handled_run [of nd r H B e, OF assms] by (auto simp: handled_def local_run_def)

lemma search_timer_panics:
  assumes "wait_ok nd" "nd_searching nd = Some (ks, th)"
  shows "file_searching_tick e ks (nd_g nd) th = Inl p \<longleftrightarrow>
     p = DivideByZero \<and> g_peers (nd_g nd) = [] \<and> se_budget th \<le> se_maxAllowedBudget th"
proof -
  obtain csr where "g_currentSearchRequest (nd_g nd) = Some csr"
    using assms by (auto simp: wait_ok_def alive_def)
  then show ?thesis
    by (auto simp: file_searching_tick_def processSearchRequest_def forward_search_def split_budget_def Let_def)
qed


text \<open>C10: In every running gossiper the channels and the waiting goroutines belong to each other:
  a status channel exists exactly for each peer with a mongering goroutine, a reply channel
  and a running download exactly for each downloading goroutine, and the search is alive
  exactly while its goroutine runs.\<close>
theorem channels_have_one_waiter:
  assumes "node_reach H B fs0 nd"
  shows "g_statusesChannels (nd_g nd) = fmdom (nd_mongering nd)
     \<and> g_downloadingFilesChannels (nd_g nd) = fmdom (nd_downloading nd)
     \<and> fmdom (dfm_downloadingFiles (g_downloadingFilesManager (nd_g nd))) = fmdom (nd_downloading nd)
     \<and> ((\<exists>csr. g_currentSearchRequest (nd_g nd) = Some csr \<and> IsAlive csr) \<longleftrightarrow> nd_searching nd \<noteq> None)"
  using reach_wait [OF assms] by (simp add: wait_ok_def alive_def IsAlive_def)

section \<open>Witnesses\<close>

definition sample_node :: node where
  "sample_node = new_node (sample ''A'' [''b:2''] fmempty)"

lemma reach_sample: "node_reach pad {} empty_disk sample_node"
  unfolding sample_node_def by (rule node_reach.start [OF sample_starts(1)])

lemma no_collisions: "collision_free pad {}"
proof -
  have "Block_preimage pad b \<noteq> []" for b by (simp add: Block_preimage_def le32_def)
  then show ?thesis by (simp add: collision_free_def)
qed


theorem no_packet_stops_a_gossiper_witness:
  "\<exists>nd' es. node_event sample_env sample_env sample_node (Packet \<lparr>agp_Packet = EmptyPacket\<lparr>gp_Rumor := Some
     \<lparr>rm_OriginalName = ''B'', rm_ID = 1, rm_Text = ''hi''\<rparr>\<rparr>, agp_Address = ''b:2''\<rparr>) = Some (Inr (nd', es))"
  by (rule no_packet_stops_a_gossiper [OF reach_sample no_collisions]) (simp add: event_ok_def EmptyPacket_def)


theorem channels_have_one_waiter_witness:
  "g_statusesChannels (nd_g sample_node) = fmdom (nd_mongering sample_node) \<and> nd_searching sample_node = None"
  using channels_have_one_waiter [OF reach_sample] by (simp add: sample_node_def new_node_def)

end
