(* ===== verification/NodeSends.thy ===== *)
theory NodeSends
  imports NodeComponents Samples
begin

text \<open>
  What a gossiper puts on the wire. \<open>GossipPacket\<close> is a tagged union written as a struct of ten
  pointers; the receiver looks at the first that is not nil and drops the rest. \<open>sound\<close> says of
  a handler or goroutine that every packet it sends has exactly one field and goes to a peer the
  gossiper knows, that a rumor it sends is one it has stored, and that routes stay within the
  peers and the store grows.
\<close>

section \<open>Well-formed sends\<close>

definition packet_fields :: "GossipPacket \<Rightarrow> nat" where
  "packet_fields p = length (filter id
     [gp_Simple p \<noteq> None, gp_Rumor p \<noteq> None, gp_Status p \<noteq> None, gp_Private p \<noteq> None,
      gp_DataRequest p \<noteq> None, gp_DataReply p \<noteq> None, gp_SearchRequest p \<noteq> None,
      gp_SearchReply p \<noteq> None, gp_TxPublish p \<noteq> None, gp_BlockPublish p \<noteq> None])"

definition stored :: "MessageStorage \<Rightarrow> RumorMessage \<Rightarrow> bool" where
  "stored ms r \<longleftrightarrow> r \<in> set (rumors ms (rm_OriginalName r))"

definition store_le :: "MessageStorage \<Rightarrow> MessageStorage \<Rightarrow> bool" where
  "store_le ms ms' \<longleftrightarrow> (\<forall>r. stored ms r \<longrightarrow> stored ms' r)"

fun typed1 :: "udpaddr set \<Rightarrow> MessageStorage \<Rightarrow> effect \<Rightarrow> bool" where
  "typed1 A ms (SendPacket a p) =
     (a \<in> A \<and> packet_fields p = 1 \<and> (case gp_Rumor p of None \<Rightarrow> True | Some r \<Rightarrow> stored ms r))"
| "typed1 A ms (GoMongering r a) = (a \<in> A \<and> stored ms r)"
| "typed1 A ms _ = True"

abbreviation typed :: "Gossiper \<Rightarrow> effect list \<Rightarrow> bool" where
  "typed g es \<equiv> list_all (typed1 (set (g_peers g)) (g_messageStorage g)) es"

definition known :: "Gossiper \<Rightarrow> bool" where
  "known g \<longleftrightarrow> (\<forall>n a. fmlookup (g_nextHop g) n = Some a \<longrightarrow> a \<in> set (g_peers g))
     \<and> ms_inv (g_messageStorage g)"

definition sound :: "Gossiper \<Rightarrow> Gossiper \<Rightarrow> effect list \<Rightarrow> bool" where
  "sound g g' es \<longleftrightarrow> set (g_peers g) \<subseteq> set (g_peers g') \<and> store_le (g_messageStorage g) (g_messageStorage g')
     \<and> known g' \<and> typed g' es"

lemma packet_fields_simps [simp]:
  "packet_fields (EmptyPacket\<lparr>gp_Simple := Some x1\<rparr>) = 1" "packet_fields (EmptyPacket\<lparr>gp_Rumor := Some x2\<rparr>) = 1"
  "packet_fields (EmptyPacket\<lparr>gp_Status := Some x3\<rparr>) = 1" "packet_fields (EmptyPacket\<lparr>gp_Private := Some x4\<rparr>) = 1"
  "packet_fields (EmptyPacket\<lparr>gp_DataRequest := Some x5\<rparr>) = 1"
  "packet_fields (EmptyPacket\<lparr>gp_DataReply := Some x6\<rparr>) = 1"
  "packet_fields (EmptyPacket\<lparr>gp_SearchRequest := Some x7\<rparr>) = 1"
  "packet_fields (EmptyPacket\<lparr>gp_SearchReply := Some x8\<rparr>) = 1"
  "packet_fields (EmptyPacket\<lparr>gp_TxPublish := Some x9\<rparr>) = 1"
  "packet_fields (EmptyPacket\<lparr>gp_BlockPublish := Some x10\<rparr>) = 1"
  "packet_fields (current_status e g) = 1" "packet_fields (data_request g src h) = 1"
  "packet_fields (search_packet s b) = 1"
  by (simp_all add: packet_fields_def EmptyPacket_def current_status_def data_request_def search_packet_def)

lemma not_rumor [simp]:
  "gp_Rumor EmptyPacket = None" "gp_Rumor (current_status e g) = None" "gp_Rumor (data_request g src h) = None"
  "gp_Rumor (search_packet s b) = None"
  by (simp_all add: EmptyPacket_def current_status_def data_request_def search_packet_def)

lemma store_le_refl [simp]: "store_le ms ms"
  by (simp add: store_le_def)

lemma store_le_trans: "store_le a b \<Longrightarrow> store_le b c \<Longrightarrow> store_le a c"
  by (simp add: store_le_def)

lemma store_le_AddRumor: "store_le ms (fst (AddRumorMessage ms r))"
  by (auto simp: store_le_def stored_def AddRumor_rumors)

lemma stored_AddRumor: "snd (AddRumorMessage ms r) \<Longrightarrow> stored (fst (AddRumorMessage ms r)) r"
  by (simp add: stored_def AddRumor_rumors AddRumor_accepted IsNewMessage_iff)

lemma AddPrivate_rumors: "rumors (fst (AddPrivateMessage ms p n)) = rumors ms"
  by (simp add: AddPrivateMessage_def rumors_frame)

lemma store_le_AddPrivate: "store_le ms (fst (AddPrivateMessage ms p n))"
  by (simp add: store_le_def stored_def AddPrivate_rumors)

lemma typed_mono: "typed1 A ms ef \<Longrightarrow> A \<subseteq> B \<Longrightarrow> store_le ms ms' \<Longrightarrow> typed1 B ms' ef"
  by (cases ef) (auto simp: store_le_def split: option.splits)

lemma typed_list_mono:
  "list_all (typed1 A ms) es \<Longrightarrow> A \<subseteq> B \<Longrightarrow> store_le ms ms' \<Longrightarrow> list_all (typed1 B ms') es"
  using typed_mono by (auto simp: list_all_iff)

lemma sound_refl: "known g \<Longrightarrow> typed g es \<Longrightarrow> sound g g es"
  by (simp add: sound_def)

lemma sound_before:
  assumes "sound g g1 es1" "sound g1 g2 es2" shows "sound g g2 (es1 @ es2)"
  using assms typed_list_mono store_le_trans by (fastforce simp: sound_def)

lemma sound_andthen:
  assumes "andthen (Inr (g1, es1)) f = Inr (g', es)" "sound g g1 es1"
    and "\<And>es2. f g1 = Inr (g', es2) \<Longrightarrow> sound g1 g' es2"
  shows "sound g g' es"
  using assms sound_before by (auto simp: andthen_Inr)

lemma typed_out [simp]: "list_all (typed1 A ms) (map Stdout out)"
  by (simp add: list_all_iff)

lemma typed_sends [simp]:
  "set (g_peers g) \<subseteq> A \<Longrightarrow> packet_fields p = 1 \<Longrightarrow> gp_Rumor p = None \<Longrightarrow>
   list_all (typed1 A ms) (sendAllPeers g p)"
  "list_all (typed1 A ms) (order_effect m)" "list_all (typed1 A ms) (printPeers g)"
  "list_all (typed1 A ms) (printed g q)"
  by (auto simp: sendAllPeers_def order_effect_def printPeers_def printed_def list_all_iff split: option.splits)

lemma typed_hop [simp]:
  "known g \<Longrightarrow> set (g_peers g) \<subseteq> A \<Longrightarrow> packet_fields p = 1 \<Longrightarrow> gp_Rumor p = None \<Longrightarrow>
   list_all (typed1 A ms) (sendPacketWithNextHop g n p)"
  by (cases "fmlookup (g_nextHop g) n") (auto simp: sendPacketWithNextHop_def known_def)

section \<open>The handlers\<close>

lemma sound_frame:
  "known g \<Longrightarrow> g_peers g' = g_peers g \<Longrightarrow> g_nextHop g' = g_nextHop g \<Longrightarrow>
   g_messageStorage g' = g_messageStorage g \<Longrightarrow> typed g es \<Longrightarrow> sound g g' es"
  by (auto simp: sound_def known_def)

lemma known_frame [simp]:
  "known (g\<lparr>g_statusesChannels := s\<rparr>) = known g"
  "known (g\<lparr>g_recentSearchRequests := r\<rparr>) = known g" "known (g\<lparr>g_currentSearchRequest := c\<rparr>) = known g"
  "known (g\<lparr>g_name := n\<rparr>) = known g" "known (g\<lparr>g_disk := d\<rparr>) = known g"
  "known (g\<lparr>g_downloadingFilesManager := dm\<rparr>) = known g"
  "known (g\<lparr>g_downloadingFilesChannels := dc\<rparr>) = known g"
  "known (g\<lparr>g_blockchainManager := bm\<rparr>) = known g" "known (g\<lparr>g_sharedFilesManager := sm\<rparr>) = known g"
  by (simp_all add: known_def)

lemma spread_sound:
  assumes "spreadTheRumor r g m peer = Inr (g', es)" "known g" "stored (g_messageStorage g) m" "peer \<in> set (g_peers g) \<or> peer = nil_addr"
  shows "sound g g' es"
proof -
  obtain p where p: "(if peer = nil_addr then getRandomPeer r g else Inr peer) = Inr p"
    "(if p |\<in>| g_statusesChannels g then (g, [])
      else (g\<lparr>g_statusesChannels := finsert p (g_statusesChannels g)\<rparr>,
        [SendPacket p (EmptyPacket\<lparr>gp_Rumor := Some m\<rparr>), Stdout (''MONGERING with '' @ p @ nl), GoMongering m p]))
      = (g', es)"
    using assms(1) unfolding spreadTheRumor_def go_map_Inr by auto
  have "p \<in> set (g_peers g)"
  proof (cases "peer = nil_addr")
    case True
    then have r: "getRandomPeer r g = Inr p" using p(1) by simp
    then have "g_peers g \<noteq> []" by (auto simp: getRandomPeer_def)
    then show ?thesis using getRandomPeer_in [of g r] r by auto
  next
    case False
    then show ?thesis using p(1) assms(4) by simp
  qed
  then show ?thesis using p(2) assms(2,3) by (auto intro!: sound_frame split: if_splits)
qed

lemma rumor_sound:
  assumes "processRumorMessage e g m = Inr (g', es)" "known g" shows "sound g g' es"
proof -
  obtain ms new where a: "AddRumorMessage (g_messageStorage g) m = (ms, new)" by fastforce
  let ?g = "g\<lparr>g_messageStorage := ms\<rparr>"
  have ms: "ms = fst (AddRumorMessage (g_messageStorage g) m)" "new = snd (AddRumorMessage (g_messageStorage g) m)"
    using a by simp_all
  have s: "sound g ?g []"
    using assms(2) ms_inv_AddRumor store_le_AddRumor unfolding ms(1) by (simp add: sound_def known_def)
  show ?thesis
  proof (cases "new \<and> \<not> arePeersEmpty ?g")
    case True
    then have "spreadTheRumor (e_rand e) ?g m nil_addr = Inr (g', es)"
      using assms(1) a by (auto simp: processRumorMessage_def)
    then have "sound ?g g' es"
      by (rule spread_sound) (use s True ms stored_AddRumor in \<open>simp_all add: sound_def\<close>)
    from sound_before [OF s this] show ?thesis by simp
  next
    case False
    then have "g' = ?g" "es = []" using assms(1) a by (auto simp: processRumorMessage_def Let_def split: if_splits)
    then show ?thesis using s by simp
  qed
qed

lemma updateNextHop_sound:
  "known g \<Longrightarrow> a \<in> set (g_peers g) \<Longrightarrow> updateNextHop g n a = (g', es) \<Longrightarrow> sound g g' es"
  by (auto simp: updateNextHop_def sound_def known_def split: if_splits)

lemma addressed_rumor_sound:
  assumes "processAddressedRumorMessage e g m a = Inr (g', es)" "known g" "a \<in> set (g_peers g)"
  shows "sound g g' es"
proof (rule sound_andthen [OF assms(1) [unfolded processAddressedRumorMessage_def]])
  show "sound g g [SendPacket a (current_status e g)]" using assms(2,3) by (auto intro: sound_refl)
  fix es2
  let ?u = "if IsNewMessage (g_messageStorage g) m then updateNextHop g (rm_OriginalName m) a else (g, [])"
  obtain g1 es1 where u: "?u = (g1, es1)" by fastforce
  then have s: "sound g g1 es1"
    using assms(2,3) updateNextHop_sound by (auto intro: sound_refl split: if_splits)
  assume "andthen (Inr ?u) (\<lambda>g. processRumorMessage e g m) = Inr (g', es2)"
  then show "sound g g' es2"
    unfolding u by (rule sound_andthen [OF _ s]) (use s rumor_sound in \<open>auto simp: sound_def\<close>)
qed

lemma diff_stored:
  "status_diff_of e g sp = Inr (Some r, f) \<Longrightarrow> known g \<Longrightarrow> stored (g_messageStorage g) r"
  using Diff_Some by (simp add: status_diff_of_def known_def stored_def)

lemma status_sound:
  assumes "processAddressedStatusPacket e g sp a = Inr (g', es)" "known g" "a \<in> set (g_peers g)"
  shows "sound g g' es"
  using assms
  by (auto simp: processAddressedStatusPacket_def intro: spread_sound sound_frame sound_refl diff_stored
      split: option.splits if_splits)

lemma simple_sound: "processAddressedSimpleMessage g m a = Inr (g', es) \<Longrightarrow> known g \<Longrightarrow> sound g g' es"
  by (auto simp: processAddressedSimpleMessage_def Let_def list_all_iff intro!: sound_refl)

lemma private_sound: "processPrivateMessage g m = Inr (g', es) \<Longrightarrow> known g \<Longrightarrow> sound g g' es"
  using ms_inv_AddPrivate store_le_AddPrivate
  by (auto simp: processPrivateMessage_def Let_def sound_def known_def [of "g\<lparr>g_messageStorage := ms\<rparr>" for ms]
      known_def [of g] intro: sound_refl split: if_splits) (auto simp: known_def)

lemma data_request_sound: "processDataRequest e g m = Inr (g', es) \<Longrightarrow> known g \<Longrightarrow> sound g g' es"
  by (auto simp: processDataRequest_def Let_def intro!: sound_refl split: if_splits option.splits)

lemma data_reply_sound: "processDataReply g m = Inr (g', es) \<Longrightarrow> known g \<Longrightarrow> sound g g' es"
  by (auto simp: processDataReply_def Let_def intro!: sound_refl split: if_splits)

lemma search_reply_sound: "processAddressedSearchReply g m = Inr (g', es) \<Longrightarrow> known g \<Longrightarrow> sound g g' es"
  by (auto simp: processAddressedSearchReply_def Let_def intro!: sound_refl split: if_splits option.splits)

lemma split_budget_peers: "split_budget b ps = Inr xs \<Longrightarrow> map fst xs = ps"
  by (auto simp: split_budget_def Let_def budget_loop_peers split: if_splits)

lemma forward_search_typed: "forward_search g s b = Inr es \<Longrightarrow> typed g es"
proof -
  assume "forward_search g s b = Inr es"
  then obtain xs where x: "split_budget b (g_peers g) = Inr xs"
    "es = map (\<lambda>(peer, newbudget). SendPacket peer (search_packet s newbudget)) xs"
    by (auto simp: forward_search_def)
  from split_budget_peers [OF x(1)] have "set (g_peers g) = fst ` set xs" by (metis set_map)
  then show ?thesis using x(2) by (force simp: list_all_iff)
qed

lemma search_request_sound:
  assumes "processSearchRequest e g s = Inr (g', es)" "known g" shows "sound g g' es"
proof -
  have "g' = g" using search_request_same [OF assms(1)] .
  moreover have "typed g es"
    using assms by (auto simp: processSearchRequest_def Let_def dest: forward_search_typed split: if_splits)
  ultimately show ?thesis using assms(2) by (simp add: sound_refl)
qed

lemma addressed_search_sound:
  assumes "processAddressedSearchRequest e g s = Inr (g', es)" "known g" shows "sound g g' es"
proof -
  let ?k = "GetRecentSearchRequestSetKey (sq_Origin s) (sq_Keywords s)"
  let ?g = "g\<lparr>g_recentSearchRequests := finsert ?k (g_recentSearchRequests g)\<rparr>"
  show ?thesis
  proof (cases "?k |\<in>| g_recentSearchRequests g")
    case True
    then show ?thesis using assms by (auto simp: processAddressedSearchRequest_def Let_def intro: sound_refl)
  next
    case False
    then have r: "andthen (Inr (?g, [ForgetLater ?k])) (\<lambda>g. processSearchRequest e g s) = Inr (g', es)"
      using assms(1) by (simp add: processAddressedSearchRequest_def Let_def)
    show ?thesis
      by (rule sound_andthen [OF r]) (use assms(2) search_request_sound in \<open>auto intro: sound_frame\<close>)
  qed
qed

lemma tx_sound: "processTxPublish g tx = Inr (g', es) \<Longrightarrow> known g \<Longrightarrow> sound g g' es"
  by (auto simp: processTxPublish_def Let_def intro!: sound_frame split: if_splits prod.splits)

lemma block_sound: "processBlockPublish e g bp = Inr (g', es) \<Longrightarrow> known g \<Longrightarrow> sound g g' es"
  by (auto simp: processBlockPublish_def Let_def intro!: sound_frame split: if_splits prod.splits)

lemma share_sound: "processClientToShare e g m = Inr (g', es) \<Longrightarrow> known g \<Longrightarrow> sound g g' es"
  by (rule sound_frame) (auto simp: processClientToShare_def Let_def case_prod_unfold split: option.splits)

lemma download_sound: "processClientDataRequest g m = Inr (g', es) \<Longrightarrow> known g \<Longrightarrow> sound g g' es"
  by (auto simp: processClientDataRequest_def Let_def intro!: sound_frame split: if_splits option.splits prod.splits)

lemma search_sound: "processClientSearchRequest g m = Inr (g', es) \<Longrightarrow> known g \<Longrightarrow> sound g g' es"
  by (auto simp: processClientSearchRequest_def intro!: sound_frame split: if_splits)

lemmas packet_sound_cases = addressed_rumor_sound status_sound simple_sound private_sound data_request_sound
  data_reply_sound search_reply_sound addressed_search_sound tx_sound block_sound

lemma known_UpdatePeers: "known g \<Longrightarrow> known (UpdatePeersIfNeeded g a)"
  by (auto simp: known_def UpdatePeersIfNeeded_def)

lemma packet_sound:
  assumes "process_packet e g agp = Inr (g', es)" "known g" shows "sound g g' es"
proof -
  let ?g = "UpdatePeersIfNeeded g (agp_Address agp)"
  have u: "sound g ?g []" "known ?g" "agp_Address agp \<in> set (g_peers ?g)"
    using assms(2) by (simp_all add: sound_def known_UpdatePeers subset_insertI)
  have "sound g g' es'" if "processAddressedGossipPacket e g agp = Inr (g', es')" for es'
  proof -
    have "sound ?g g' es'"
      using that u(2,3) unfolding processAddressedGossipPacket_def Let_def
      by (auto split: option.splits intro: packet_sound_cases sound_refl)
    from sound_before [OF u(1) this] show ?thesis by simp
  qed
  then show ?thesis
    using sound_andthen [OF assms(1) [unfolded process_packet_def]] assms(2) by (simp add: sound_refl)
qed

lemma client_sound:
  assumes "process_client e g cmsg = Inr (g', es)" "known g" shows "sound g g' es"
proof -
  have "sound g g' es'" if "processClientMessage e g cmsg = Inr (g', es')" for es'
    using that assms(2) unfolding processClientMessage_def
    by (auto split: option.splits if_splits intro: simple_sound rumor_sound private_sound share_sound download_sound
        search_sound sound_refl)
  then show ?thesis
    using sound_andthen [OF assms(1) [unfolded process_client_def]] assms(2) by (simp add: sound_refl)
qed

section \<open>The goroutines\<close>

lemma flip_sound:
  assumes "flipRumorMongeringCoin e g r = Inr (g', es)" "known g" "stored (g_messageStorage g) r" shows "sound g g' es"
proof (cases "e_coin e mod 2 = 0")
  case True
  then obtain p where p: "getRandomPeer (e_rand e) g = Inr p"
    and r: "andthen (Inr (g, [Stdout (''FLIPPED COIN sending rumor to '' @ p @ nl)]))
      (\<lambda>g. spreadTheRumor (e_rand' e) g r p) = Inr (g', es)"
    using assms(1) by (auto simp: flipRumorMongeringCoin_def)
  have "g_peers g \<noteq> []" using p by (auto simp: getRandomPeer_def)
  then have "p \<in> set (g_peers g)" using getRandomPeer_in [of g "e_rand e"] p by auto
  with r assms(2,3) show ?thesis by (intro sound_andthen [OF r]) (auto intro: sound_refl spread_sound)
next
  case False
  then show ?thesis using assms by (simp add: flipRumorMongeringCoin_def sound_refl)
qed

lemma mongering_sound:
  assumes "startRumorMongeringThread e g r p ev = Inr (g', es)" "known g" "p \<in> set (g_peers g)"
    and "stored (g_messageStorage g) r"
  shows "sound g g' es"
proof (cases ev)
  case MongeringTimeout
  let ?g = "g\<lparr>g_statusesChannels := g_statusesChannels g |-| {|p|}\<rparr>"
  have "sound ?g g' es" using assms(1,2,4) MongeringTimeout by (intro flip_sound) (auto simp: startRumorMongeringThread_def)
  then show ?thesis by (simp add: sound_def)
next
  case (StatusArrived sp)
  then obtain m f where d: "status_diff_of e g sp = Inr (m, f)"
    using assms(1) by (auto simp: startRumorMongeringThread_def)
  show ?thesis
  proof (cases "m = None \<and> \<not> f")
    case True
    then have r: "andthen (Inr (g, [Stdout (''IN SYNC WITH '' @ p @ nl)])) (\<lambda>g. flipRumorMongeringCoin e g r) = Inr (g', es)"
      using assms(1) StatusArrived d by (simp add: startRumorMongeringThread_def)
    show ?thesis by (rule sound_andthen [OF r]) (use assms(2,4) flip_sound in \<open>auto intro: sound_refl\<close>)
  next
    case False
    then show ?thesis using assms StatusArrived d
      by (auto simp: startRumorMongeringThread_def intro: spread_sound sound_refl diff_stored split: option.splits)
  qed
qed

lemma downloading_sound:
  assumes "file_downloading_step e src ev g th = (g', th', es)" "known g" shows "sound g g' es"
proof -
  obtain fs dfm th1 hs where
    d: "download_step (e_H e) (e_chunkOrder e) src ev (g_disk g, g_downloadingFilesManager g, th) = ((fs, dfm, th1), hs)"
    by (cases "download_step (e_H e) (e_chunkOrder e) src ev (g_disk g, g_downloadingFilesManager g, th)") auto
  have q: "typed g1 (concat (map (\<lambda>h. sendPacketWithNextHop g1 src (data_request g1 src h)) hs))" if "known g1" for g1
    using that by (induction hs) auto
  have e: "g_peers g' = g_peers g" "g_nextHop g' = g_nextHop g" "g_messageStorage g' = g_messageStorage g"
    "es = map Stdout (download_output (e_H e) (g_disk g) (g_downloadingFilesManager g) src ev)
       @ concat (map (\<lambda>h. sendPacketWithNextHop g' src (data_request g' src h)) hs)"
    using assms(1) d by (auto simp: file_downloading_step_def Let_def)
  have "known g'" using assms(2) e by (simp add: known_def)
  with q [OF this] e(1,3) show ?thesis unfolding e(4) sound_def by simp
qed

lemma searching_tick_sound:
  assumes "file_searching_tick e ks g th = Inr (g', th', es)" "known g" shows "sound g g' es"
proof (cases "se_budget th > se_maxAllowedBudget th")
  case True
  then show ?thesis using assms by (auto simp: file_searching_tick_def intro: sound_refl sound_frame split: if_splits option.splits)
next
  case False
  then show ?thesis using assms search_request_sound by (auto simp: file_searching_tick_def)
qed

lemma searching_reply_sound:
  assumes "file_searching_reply packet g th = Inr (g', th', es)" "known g" shows "sound g g' es"
proof -
  obtain csr where "g_currentSearchRequest g = Some csr"
    using assms(1) by (auto simp: file_searching_reply_def split: option.splits)
  moreover obtain csr' th1 out where "search_reply packet (csr, th) = ((csr', th1), out)" by (metis prod_cases3 prod.collapse)
  ultimately show ?thesis using assms by (auto simp: file_searching_reply_def list_all_iff intro!: sound_frame)
qed

section \<open>The node\<close>

definition nd_known :: "node \<Rightarrow> bool" where
  "nd_known nd \<longleftrightarrow> known (nd_g nd) \<and> (\<forall>p r. fmlookup (nd_mongering nd) p = Some r \<longrightarrow>
     p \<in> set (g_peers (nd_g nd)) \<and> stored (g_messageStorage (nd_g nd)) r)"

definition nd_sound :: "node \<Rightarrow> node \<Rightarrow> effect list \<Rightarrow> bool" where
  "nd_sound nd nd' es \<longleftrightarrow> set (g_peers (nd_g nd)) \<subseteq> set (g_peers (nd_g nd'))
     \<and> store_le (g_messageStorage (nd_g nd)) (g_messageStorage (nd_g nd')) \<and> nd_known nd' \<and> typed (nd_g nd') es"

lemma nd_sound_before:
  assumes "nd_sound nd nd1 es1" "nd_sound nd1 nd2 es2" shows "nd_sound nd nd2 (es1 @ es2)"
  using assms typed_list_mono store_le_trans by (fastforce simp: nd_sound_def)

lemma nd_sound_refl: "nd_known nd \<Longrightarrow> nd_sound nd nd []"
  by (simp add: nd_sound_def)

lemma spawn_known:
  assumes "nd_known nd" "typed (nd_g nd) es"
  shows "nd_g (spawn es nd) = nd_g nd \<and> nd_known (spawn es nd)"
  using assms
proof (induction es arbitrary: nd)
  case (Cons ef es)
  have s: "nd_g (spawn1 ef nd) = nd_g nd" "nd_known (spawn1 ef nd)"
    using Cons.prems by (cases ef; auto simp: nd_known_def split: option.splits)+
  then show ?case using Cons.IH [of "spawn1 ef nd"] Cons.prems(2) by (simp add: spawn_def)
qed (simp add: spawn_def)

lemma local_run_sound:
  assumes "local_run nd r = Inr (nd', es)" "nd_known nd"
    and "\<And>g' es'. r = Inr (g', es') \<Longrightarrow> sound (nd_g nd) g' es'"
  shows "nd_sound nd nd' es"
proof -
  obtain g' where r: "r = Inr (g', es)" "nd' = spawn es (nd\<lparr>nd_g := g'\<rparr>)" using assms(1) by (auto simp: local_run_def)
  note s = assms(3) [OF r(1)]
  have "nd_known (nd\<lparr>nd_g := g'\<rparr>)" using s assms(2) by (auto simp: nd_known_def sound_def store_le_def)
  from spawn_known [OF this, of es] s show ?thesis by (simp add: r(2) nd_sound_def sound_def)
qed

lemma download_event_sound:
  assumes "download_event e nd src ev = Some (Inr (nd', es))" "nd_known nd" shows "nd_sound nd nd' es"
proof -
  obtain th where th: "fmlookup (nd_downloading nd) src = Some th"
    using assms(1) by (auto simp: download_event_def split: option.splits)
  obtain g' th' es' where st: "file_downloading_step e src ev (nd_g nd) th = (g', th', es')"
    by (metis prod_cases3)
  have "sound (nd_g nd) g' es'" using downloading_sound [OF st] assms(2) by (simp add: nd_known_def)
  moreover have "nd_g nd' = g'" "nd_mongering nd' = nd_mongering nd" "es = es'"
    using assms(1) th st by (auto simp: download_event_def)
  ultimately show ?thesis using assms(2) by (auto simp: nd_sound_def nd_known_def sound_def store_le_def)
qed

lemma mongering_event_sound:
  assumes "mongering_event e nd p ev = Some (Inr (nd', es))" "nd_known nd" shows "nd_sound nd nd' es"
proof -
  obtain r where r: "fmlookup (nd_mongering nd) p = Some r"
    "local_run (nd\<lparr>nd_mongering := fmdrop p (nd_mongering nd)\<rparr>) (startRumorMongeringThread e (nd_g nd) r p ev) = Inr (nd', es)"
    using assms(1) by (auto simp: mongering_event_def split: option.splits)
  let ?nd = "nd\<lparr>nd_mongering := fmdrop p (nd_mongering nd)\<rparr>"
  have k: "nd_known ?nd" "known (nd_g nd)" using assms(2) by (auto simp: nd_known_def)
  have p: "p \<in> set (g_peers (nd_g nd))" "stored (g_messageStorage (nd_g nd)) r"
    using assms(2) r(1) by (auto simp: nd_known_def)
  have "nd_sound ?nd nd' es"
    by (rule local_run_sound [OF r(2) k(1)]) (use mongering_sound k(2) p in simp)
  then show ?thesis by (simp add: nd_sound_def)
qed

lemma searching_event_sound:
  assumes "searching_event e nd reply = Some (Inr (nd', es))" "nd_known nd" shows "nd_sound nd nd' es"
proof -
  obtain ks th where t: "nd_searching nd = Some (ks, th)"
    using assms(1) by (auto simp: searching_event_def split: option.splits)
  obtain g' th' where g: "(case reply of None \<Rightarrow> file_searching_tick e ks (nd_g nd) th
      | Some packet \<Rightarrow> file_searching_reply packet (nd_g nd) th) = Inr (g', th', es)"
    "nd' = nd\<lparr>nd_g := g', nd_searching := map_option (Pair ks) th'\<rparr>"
    using assms(1) t by (auto simp: searching_event_def searching_result_def)
  have "sound (nd_g nd) g' es"
    using g(1) assms(2) searching_tick_sound searching_reply_sound by (auto simp: nd_known_def split: option.splits)
  then show ?thesis using assms(2) g(2) by (auto simp: nd_sound_def nd_known_def sound_def store_le_def)
qed

lemma hand_over1_sound:
  "hand_over1 e nd ef = Some (Inr (nd', es)) \<Longrightarrow> nd_known nd \<Longrightarrow> nd_sound nd nd' es"
  by (cases ef) (auto intro: mongering_event_sound download_event_sound searching_event_sound nd_sound_refl)

lemma hand_over_sound:
  "hand_over e efs nd = Some (Inr (nd', es)) \<Longrightarrow> nd_known nd \<Longrightarrow> nd_sound nd nd' es"
proof (induction efs arbitrary: nd es)
  case (Cons ef efs)
  obtain nd1 es1 es2 where h: "hand_over1 e nd ef = Some (Inr (nd1, es1))"
    "hand_over e efs nd1 = Some (Inr (nd', es2))" "es = es1 @ es2"
    using Cons.prems(1) by (auto split: option.splits sum.splits)
  have s: "nd_sound nd nd1 es1" by (rule hand_over1_sound [OF h(1) Cons.prems(2)])
  then have "nd_sound nd1 nd' es2" using Cons.IH [OF h(2)] by (simp add: nd_sound_def)
  with s show ?case unfolding h(3) by (rule nd_sound_before)
qed (simp add: nd_sound_refl)

lemma handled_sound:
  assumes "handled e nd r = Some (Inr (nd', es))" "nd_known nd"
    and "\<And>g' es'. r = Inr (g', es') \<Longrightarrow> sound (nd_g nd) g' es'"
  shows "nd_sound nd nd' es"
proof -
  obtain nd1 es1 es2 where h: "local_run nd r = Inr (nd1, es1)" "hand_over e es1 nd1 = Some (Inr (nd', es2))"
    "es = es1 @ es2"
    using assms(1) by (auto simp: handled_def split: sum.splits)
  have s: "nd_sound nd nd1 es1" by (rule local_run_sound [OF h(1) assms(2,3)])
  then have "nd_sound nd1 nd' es2" using hand_over_sound [OF h(2)] by (simp add: nd_sound_def)
  with s show ?thesis unfolding h(3) by (rule nd_sound_before)
qed

lemma nd_sound_frame:
  "nd_known nd \<Longrightarrow> sound (nd_g nd) g' es \<Longrightarrow> nd_mongering nd' = nd_mongering nd \<Longrightarrow> nd_g nd' = g' \<Longrightarrow> nd_sound nd nd' es"
  by (auto simp: nd_sound_def nd_known_def sound_def store_le_def)

lemma event_sound:
  assumes "node_event e e' nd ev = Some (Inr (nd', es))" "nd_known nd" shows "nd_sound nd nd' es"
proof -
  have k: "known (nd_g nd)" using assms(2) by (simp add: nd_known_def)
  show ?thesis
  proof (cases ev)
    case (Packet agp)
    with assms show ?thesis by (auto simp: node_event_def intro: handled_sound packet_sound k)
  next
    case (Order cmsg)
    with assms show ?thesis by (auto simp: node_event_def intro: handled_sound client_sound k)
  next
    case AntiEntropy
    have "sound (nd_g nd) g' es'" if "StartAntiEntropyTimer e (nd_g nd) = Inr (g', es')" for g' es'
      using that k getRandomPeer_in [of "nd_g nd" "e_rand e"]
      by (auto simp: StartAntiEntropyTimer_def arePeersEmpty_def intro!: sound_refl split: if_splits)
    with AntiEntropy assms show ?thesis by (auto simp: node_event_def intro: local_run_sound)
  next
    case (Mining nonce ks seen ks')
    obtain bm b where "DoMining (e_H e) nonce ks seen ks' (g_blockchainManager (nd_g nd)) = (bm, b)" by fastforce
    with Mining assms(1) have "nd' = nd\<lparr>nd_g := (nd_g nd)\<lparr>g_blockchainManager := bm\<rparr>, nd_mined := b\<rparr>"
      "es = map Stdout (mining_output (e_H e) bm b)"
      by (auto simp: node_event_def mining_attempt_def split: if_splits)
    with assms(2) show ?thesis by (simp add: nd_sound_def nd_known_def)
  next
    case Publish
    then obtain b where b: "local_run (nd\<lparr>nd_mined := None\<rparr>) (publish_block (nd_g nd) b) = Inr (nd', es)"
      using assms(1) by (auto simp: node_event_def split: option.splits)
    have "nd_sound (nd\<lparr>nd_mined := None\<rparr>) nd' es"
      by (rule local_run_sound [OF b]) (use assms(2) k in \<open>auto simp: nd_known_def publish_block_def intro: sound_refl\<close>)
    then show ?thesis by (simp add: nd_sound_def)
  next
    case (DownloadFound name)
    with assms show ?thesis
      by (auto simp: node_event_def DownloadFoundByName_def intro!: local_run_sound sound_refl k split: option.splits)
  next
    case (MongeringTimer p)
    with assms show ?thesis by (simp add: node_event_def mongering_event_sound)
  next
    case (DownloadTimer src)
    with assms show ?thesis by (simp add: node_event_def download_event_sound)
  next
    case SearchTimer
    with assms show ?thesis by (simp add: node_event_def searching_event_sound)
  next
    case (AddPeer a)
    have "sound (nd_g nd) (UpdatePeersIfNeeded (nd_g nd) a) []" using k by (simp add: sound_def known_UpdatePeers subset_insertI)
    with AddPeer assms show ?thesis by (auto simp: node_event_def intro: nd_sound_frame)
  next
    case (Forget key)
    with assms show ?thesis by (auto simp: node_event_def forget_search_def nd_sound_def nd_known_def)
  next
    case (Rename name)
    with assms show ?thesis by (auto simp: node_event_def SetName_def nd_sound_def nd_known_def)
  next
    case (UserFile f d)
    with assms show ?thesis by (auto simp: node_event_def nd_sound_def nd_known_def)
  qed
qed

lemma reach_known: "node_reach H B fs0 nd \<Longrightarrow> nd_known nd"
proof (induction rule: node_reach.induct)
  case (start resolve listen name uiport peersAddress peers simple fs g)
  then have "g_nextHop g = fmempty" "g_messageStorage g = InitMessageStorage name"
    by (auto simp: NewGossiper_def Let_def split: option.splits if_splits prod.splits)
  then show ?case by (simp add: nd_known_def new_node_def known_def ms_inv_Init)
next
  case (event nd e e' ev nd' es)
  then show ?case using event_sound by (auto simp: nd_sound_def)
qed

text \<open>C11: Every packet a gossiper sends, in answer to whatever event, is well-formed: exactly one
  of the ten fields of the struct is set, so that its receiver acts on all of it; it goes to
  an address in the gossiper's list of peers; and a rumor in it is one the gossiper has stored.
  No routing entry, status channel or content of a received packet can direct a send elsewhere
  or make the gossiper spread what it has not accepted.\<close>
theorem sends_well_formed_packets_to_peers:
  assumes "node_reach H B fs0 nd" "node_event e e' nd ev = Some (Inr (nd', es))" "SendPacket a p \<in> set es"
  shows "packet_fields p = 1 \<and> a \<in> set (g_peers (nd_g nd'))
     \<and> (case gp_Rumor p of None \<Rightarrow> True | Some r \<Rightarrow> stored (g_messageStorage (nd_g nd')) r)"
  using event_sound [OF assms(2) reach_known [OF assms(1)]] assms(3) by (auto simp: nd_sound_def list_all_iff)

theorem sends_well_formed_packets_to_peers_witness:
  "let nd = new_node (sample ''A'' [''b:2''] fmempty) in
   \<exists>nd' es a p. node_event sample_env sample_env nd AntiEntropy = Some (Inr (nd', es))
     \<and> SendPacket a p \<in> set es \<and> packet_fields p = 1 \<and> a \<in> set (g_peers (nd_g nd'))"
proof -
  let ?nd = "new_node (sample ''A'' [''b:2''] fmempty)"
  let ?p = "current_status sample_env (sample ''A'' [''b:2''] fmempty)"
  have r: "node_reach pad {} empty_disk ?nd" by (rule node_reach.start [OF sample_starts(1)])
  have e: "node_event sample_env sample_env ?nd AntiEntropy = Some (Inr (?nd, [SendPacket ''b:2'' ?p]))"
    by (simp add: node_event_def StartAntiEntropyTimer_def arePeersEmpty_def getRandomPeer_def local_run_def
        new_node_def spawn_def)
  show ?thesis
    using sends_well_formed_packets_to_peers [OF r e, of "''b:2''" ?p] e by (auto simp: Let_def)
qed

end
