(* ===== verification/GossiperProps.thy ===== *)
theory GossiperProps
  imports Threads Samples
begin

text \<open>
  What single operations of a gossiper do: the answer to a rumor, the division of a search
  budget, the search goroutine against its abstract counterpart of \<open>Search\<close>, and the way
  of an order from a search match back to the gossiper.
\<close>

section \<open>Rumors\<close>

lemma add_rumor_pair: "AddRumorMessage ms r = (fst (AddRumorMessage ms r), IsNewMessage ms r)"
  by (simp add: prod_eq_iff AddRumor_accepted IsNewMessage_iff)

lemma spread_random:
  assumes "g_peers g \<noteq> []"
  shows "\<exists>p \<in> set (g_peers g). spreadTheRumor r g rmsg nil_addr = Inr
     (if p |\<in>| g_statusesChannels g then (g, [])
      else (g\<lparr>g_statusesChannels := finsert p (g_statusesChannels g)\<rparr>,
            [SendPacket p (EmptyPacket\<lparr>gp_Rumor := Some rmsg\<rparr>), Stdout (''MONGERING with '' @ p @ nl), GoMongering rmsg p]))"
proof -
  obtain p where "p \<in> set (g_peers g)" "getRandomPeer r g = Inr p" using getRandomPeer_in [OF assms] by blast
  then show ?thesis by (intro bexI [of _ p]) (simp_all add: spreadTheRumor_def del: go_map_Inr)
qed

lemma updateNextHop_new:
  "\<exists>es. updateNextHop g n a = (g\<lparr>g_nextHop := fmupd n a (g_nextHop g)\<rparr>, es) \<and> list_all (\<lambda>ef. \<exists>s. ef = Stdout s) es"
proof (cases "fmlookup (g_nextHop g) n = Some a")
  case True
  then have "fmupd n a (g_nextHop g) = g_nextHop g" by (intro fmap_ext) auto
  then show ?thesis using True by (simp add: updateNextHop_def)
qed (simp add: updateNextHop_def)

lemma rumor_new:
  assumes "IsNewMessage (g_messageStorage g) r" "g_peers g \<noteq> []"
  shows "\<exists>g' es p. processAddressedRumorMessage e g r a = Inr (g', SendPacket a (current_status e g) # es)
     \<and> g_messageStorage g' = fst (AddRumorMessage (g_messageStorage g) r)
     \<and> g_nextHop g' = fmupd (rm_OriginalName r) a (g_nextHop g) \<and> p \<in> set (g_peers g)
     \<and> (if p |\<in>| g_statusesChannels g then g_statusesChannels g' = g_statusesChannels g
        else g_statusesChannels g' = finsert p (g_statusesChannels g)
          \<and> SendPacket p (EmptyPacket\<lparr>gp_Rumor := Some r\<rparr>) \<in> set es \<and> GoMongering r p \<in> set es)"
proof -
  obtain es1 where u: "updateNextHop g (rm_OriginalName r) a = (g\<lparr>g_nextHop := fmupd (rm_OriginalName r) a (g_nextHop g)\<rparr>, es1)"
    using updateNextHop_new by blast
  let ?g = "g\<lparr>g_nextHop := fmupd (rm_OriginalName r) a (g_nextHop g),
    g_messageStorage := fst (AddRumorMessage (g_messageStorage g) r)\<rparr>"
  have "g_peers ?g \<noteq> []" using assms(2) by simp
  from spread_random [OF this, of "e_rand e" r] obtain p where
    p: "p \<in> set (g_peers g)" "spreadTheRumor (e_rand e) ?g r nil_addr = Inr
     (if p |\<in>| g_statusesChannels g then (?g, [])
      else (?g\<lparr>g_statusesChannels := finsert p (g_statusesChannels g)\<rparr>,
            [SendPacket p (EmptyPacket\<lparr>gp_Rumor := Some r\<rparr>), Stdout (''MONGERING with '' @ p @ nl), GoMongering r p]))"
    by auto
  have m: "processRumorMessage e (g\<lparr>g_nextHop := fmupd (rm_OriginalName r) a (g_nextHop g)\<rparr>) r
      = spreadTheRumor (e_rand e) ?g r nil_addr"
    unfolding processRumorMessage_def using assms
    by (subst add_rumor_pair) (simp add: Let_def arePeersEmpty_def)
  show ?thesis
    using p assms(1) by (auto simp: processAddressedRumorMessage_def andthen_def u m)
qed

lemma rumor_old:
  assumes "\<not> IsNewMessage (g_messageStorage g) r"
  shows "processAddressedRumorMessage e g r a
    = Inr (g\<lparr>g_messageStorage := fst (AddRumorMessage (g_messageStorage g) r)\<rparr>, [SendPacket a (current_status e g)])"
proof -
  have "processRumorMessage e g r = Inr (g\<lparr>g_messageStorage := fst (AddRumorMessage (g_messageStorage g) r)\<rparr>, [])"
    unfolding processRumorMessage_def using assms by (subst add_rumor_pair) (simp add: Let_def)
  then show ?thesis using assms by (simp add: processAddressedRumorMessage_def andthen_def)
qed

lemma packet_rumor: "gp_Rumor (agp_Packet agp) = Some r \<Longrightarrow>
   processAddressedGossipPacket e g agp
     = processAddressedRumorMessage e (UpdatePeersIfNeeded g (agp_Address agp)) r (agp_Address agp)"
  by (simp add: processAddressedGossipPacket_def Let_def)

lemma UpdatePeers_keeps [simp]:
  "g_messageStorage (UpdatePeersIfNeeded g a) = g_messageStorage g" "g_nextHop (UpdatePeersIfNeeded g a) = g_nextHop g"
  "g_statusesChannels (UpdatePeersIfNeeded g a) = g_statusesChannels g"
  "current_status e (UpdatePeersIfNeeded g a) = current_status e g"
  by (simp_all add: UpdatePeersIfNeeded_def current_status_def)

text \<open>C19: A rumor from a peer is first answered with a status. A new rumor is then stored, the
  peer becomes the next hop to its origin, and some known peer is sent the rumor and gets a
  mongering goroutine, unless it has one; a rumor that is not new changes neither the
  routes nor what any lookup in the store gives, and is not spread.\<close>
theorem rumor_packet_spec:
  assumes "gp_Rumor (agp_Packet agp) = Some r" and "agp_Address agp = a"
  shows "\<exists>g' es. processAddressedGossipPacket e g agp = Inr (g', SendPacket a (current_status e g) # es)
     \<and> (if IsNewMessage (g_messageStorage g) r then
          rumors (g_messageStorage g') (rm_OriginalName r) = rumors (g_messageStorage g) (rm_OriginalName r) @ [r]
          \<and> fmlookup (g_nextHop g') (rm_OriginalName r) = Some a
          \<and> (\<exists>p \<in> insert a (set (g_peers g)). p |\<in>| g_statusesChannels g'
               \<and> (p |\<notin>| g_statusesChannels g \<longrightarrow> SendPacket p (EmptyPacket\<lparr>gp_Rumor := Some r\<rparr>) \<in> set es
                    \<and> GoMongering r p \<in> set es))
        else es = [] \<and> g_nextHop g' = g_nextHop g \<and> g_statusesChannels g' = g_statusesChannels g
          \<and> rumors (g_messageStorage g') = rumors (g_messageStorage g)
          \<and> clock (g_messageStorage g') = clock (g_messageStorage g))"
proof (cases "IsNewMessage (g_messageStorage g) r")
  case True
  let ?g = "UpdatePeersIfNeeded g a"
  have "IsNewMessage (g_messageStorage ?g) r" using True by simp
  from rumor_new [OF this UpdatePeers_not_empty, of e a, unfolded UpdatePeers_keeps peers_UpdatePeers] obtain g' es p where
    "processAddressedRumorMessage e ?g r a = Inr (g', SendPacket a (current_status e g) # es)"
    "g_messageStorage g' = fst (AddRumorMessage (g_messageStorage g) r)"
    "g_nextHop g' = fmupd (rm_OriginalName r) a (g_nextHop g)" "p \<in> insert a (set (g_peers g))"
    "if p |\<in>| g_statusesChannels g then g_statusesChannels g' = g_statusesChannels g
        else g_statusesChannels g' = finsert p (g_statusesChannels g)
          \<and> SendPacket p (EmptyPacket\<lparr>gp_Rumor := Some r\<rparr>) \<in> set es \<and> GoMongering r p \<in> set es"
    by blast
  then show ?thesis
    using True assms by (auto simp: packet_rumor AddRumor_simps split: if_splits)
next
  case False
  then have "\<not> IsNewMessage (g_messageStorage (UpdatePeersIfNeeded g a)) r" by simp
  from rumor_old [OF this, of e a] False assms show ?thesis
    by (simp add: packet_rumor AddRumor_simps)
qed

text \<open>C37: The status that answers a rumor was taken before the rumor was stored. So the peer
  that sent the rumor because this gossiper lacks it finds the same rumor missing again in
  the answer, although it is stored.\<close>
theorem feedback_status_is_stale:
  assumes "ms_inv ms" and "range_order (e_clockOrder e (VectorClock (g_messageStorage g))) (VectorClock (g_messageStorage g))"
    and "Diff ks ms (GetCurrentStatusPacket (e_clockOrder e (VectorClock (g_messageStorage g))) (g_messageStorage g))
           = Inr (Some r, f)"
    and "g_peers g \<noteq> []"
  shows "\<exists>g' es sp. processAddressedRumorMessage e g r a = Inr (g', SendPacket a (EmptyPacket\<lparr>gp_Status := Some sp\<rparr>) # es)
     \<and> r \<in> set (rumors (g_messageStorage g') (rm_OriginalName r)) \<and> Diff ks ms sp = Inr (Some r, f)"
proof -
  have n: "IsNewMessage (g_messageStorage g) r"
    using Diff_status_Some [OF assms(1,2,3)] by (simp add: IsNewMessage_iff)
  from rumor_new [OF n assms(4), of e a] obtain g' es where
    "processAddressedRumorMessage e g r a = Inr (g', SendPacket a (current_status e g) # es)"
    "g_messageStorage g' = fst (AddRumorMessage (g_messageStorage g) r)" by blast
  then show ?thesis using assms(3) n by (auto simp: current_status_def AddRumor_simps)
qed

section \<open>Search requests\<close>

text \<open>The search requests among the effects, with their budgets.\<close>

definition sent_search :: "effect \<Rightarrow> (udpaddr \<times> int) option" where
  "sent_search ef = (case ef of
     SendPacket p gp \<Rightarrow> map_option (\<lambda>s. (p, uint (sq_Budget s))) (gp_SearchRequest gp)
   | _ \<Rightarrow> None)"

definition search_budgets :: "effect list \<Rightarrow> (udpaddr \<times> int) list" where
  "search_budgets es = List.map_filter sent_search es"

lemma search_budgets_append: "search_budgets (xs @ ys) = search_budgets xs @ search_budgets ys"
  by (simp add: search_budgets_def List.map_filter_def)

lemma search_budgets_sends:
  "\<forall>(p, b) \<in> set bs. 0 \<le> b \<and> b < 2 ^ 64 \<Longrightarrow>
   search_budgets (map (\<lambda>(p, b). SendPacket p (search_packet s b)) bs) = bs"
  by (induction bs) (auto simp: search_budgets_def List.map_filter_simps sent_search_def search_packet_def
      uint_word_of_int_eq take_bit_int_eq_self)

lemma search_budgets_reply: "gp_SearchRequest gp = None \<Longrightarrow> search_budgets (sendPacketWithNextHop g n gp) = []"
  by (auto simp: search_budgets_def sendPacketWithNextHop_def sent_search_def List.map_filter_simps split: option.splits)

lemma forward_search_fair:
  assumes "0 \<le> b" "b < 2 ^ 63" "g_peers g \<noteq> []"
  shows "\<exists>es. forward_search g s b = Inr es \<and> map fst (search_budgets es) = g_peers g
     \<and> sum_list (map snd (search_budgets es)) = b
     \<and> (\<forall>(p, c) \<in> set (search_budgets es). b div int (length (g_peers g)) \<le> c \<and> c \<le> b div int (length (g_peers g)) + 1)"
proof -
  let ?q = "b div int (length (g_peers g))"
  from split_budget_is_fair [OF assms] obtain bs where
    bs: "split_budget b (g_peers g) = Inr bs" "map fst bs = g_peers g" "sum_list (map snd bs) = b"
    "\<forall>(p, c) \<in> set bs. ?q \<le> c \<and> c \<le> ?q + 1" by blast
  have q: "0 \<le> ?q" using assms(1,3) by (simp add: pos_imp_zdiv_nonneg_iff)
  have "?q \<le> b" using zdiv_mono2 [of b 1 "int (length (g_peers g))"] assms(1,3) by (simp add: Suc_le_eq)
  then have "?q < 2 ^ 63" using assms(2) by linarith
  then have "\<forall>(p, c) \<in> set bs. 0 \<le> c \<and> c < 2 ^ 64" using bs(4) q by fastforce
  then have "search_budgets (map (\<lambda>(p, b). SendPacket p (search_packet s b)) bs) = bs"
    by (rule search_budgets_sends)
  then show ?thesis using bs by (simp add: forward_search_def)
qed

lemma sint_u64: "sint (w :: u64) = (if uint w < 2 ^ 63 then uint w else uint w - 2 ^ 64)"
proof -
  let ?s = "sint w"
  have r: "- (2 ^ 63) \<le> ?s" "?s < 2 ^ 63" using sint_greater_eq [of w] sint_less [of w] by simp_all
  have u: "uint w = ?s mod 2 ^ 64" using uint_sint [of w] by (simp add: take_bit_eq_mod)
  show ?thesis
  proof (cases "0 \<le> ?s")
    case True
    then have "?s mod 2 ^ 64 = ?s" using r(2) by (intro mod_pos_pos_trivial) simp_all
    then show ?thesis using u r(2) by simp
  next
    case False
    have "(?s + 2 ^ 64) mod 2 ^ 64 = ?s + 2 ^ 64" using False r(1) by (intro mod_pos_pos_trivial) simp_all
    then have "?s mod 2 ^ 64 = ?s + 2 ^ 64" by simp
    then show ?thesis using u r(1) by simp
  qed
qed

lemma int64_pred: "int64 (sint (w :: u64) - 1) = (if uint w = 2 ^ 63 then 2 ^ 63 - 1 else sint w - 1)"
proof (cases "uint w = 2 ^ 63")
  case True
  then have "w = word_of_int (2 ^ 63)" by (metis word_of_int_uint)
  then show ?thesis using True by (simp add: int64_def)
next
  case False
  have "- (2 ^ 63) \<le> sint w - 1" "sint w - 1 < 2 ^ 63"
    using False uint_lt2p [of w] unfolding sint_u64
    by (auto split: if_splits) (use uint_ge_0 [of w] in linarith)
  then show ?thesis using False by simp
qed

text \<open>C29: A search request of another gossiper with budget \<open>b\<close> is sent on exactly when
  \<open>2 \<le> b \<le> 2^63\<close>: every peer gets it with a share, the shares sum to \<open>b - 1\<close> and differ by at
  most one. The upper bound is where the budget, read as a signed number, is so small that
  the decrement wraps to the right value.\<close>
theorem search_budget_is_divided:
  assumes "sq_Origin s \<noteq> g_name g" "g_peers g \<noteq> []"
  defines "b \<equiv> uint (sq_Budget s)"
  shows "\<exists>es. processSearchRequest e g s = Inr (g, es)
     \<and> (if 2 \<le> b \<and> b \<le> 2 ^ 63 then
          map fst (search_budgets es) = g_peers g \<and> sum_list (map snd (search_budgets es)) = b - 1
          \<and> (\<forall>(p, c) \<in> set (search_budgets es). (b - 1) div int (length (g_peers g)) \<le> c
               \<and> c \<le> (b - 1) div int (length (g_peers g)) + 1)
        else search_budgets es = [])"
proof -
  let ?w = "sq_Budget s"
  define reply where "reply = (if search_results e g (sq_Keywords s) \<noteq> [] then
     sendPacketWithNextHop g (sq_Origin s) (EmptyPacket\<lparr>gp_SearchReply := Some \<lparr>sp_Origin = g_name g,
       sp_Destination = sq_Origin s, sp_HopLimit = DefaultHopLimit, sp_Results = search_results e g (sq_Keywords s)\<rparr>\<rparr>) else [])"
  have r: "search_budgets reply = []"
    unfolding reply_def by (auto intro!: search_budgets_reply simp: EmptyPacket_def)
      (simp add: search_budgets_def List.map_filter_simps)
  have run: "processSearchRequest e g s = (if int64 (sint ?w - 1) \<le> 0 then Inr (g, reply)
      else go_map (\<lambda>sends. (g, reply @ sends)) (forward_search g s (int64 (sint ?w - 1))))"
    unfolding processSearchRequest_def Let_def reply_def [symmetric] using assms(1) by simp
  have bnd: "0 \<le> b" "b < 2 ^ 64" using uint_lt2p [of ?w] by (simp_all add: b_def)
  have p: "int64 (sint ?w - 1) = (if b \<le> 2 ^ 63 then b - 1 else b - 2 ^ 64 - 1)"
    using int64_pred [of ?w] sint_u64 [of ?w] by (auto simp: b_def)
  show ?thesis
  proof (cases "2 \<le> b \<and> b \<le> 2 ^ 63")
    case True
    from True have "0 \<le> b - 1" "b - 1 < 2 ^ 63" by simp_all
    from forward_search_fair [OF this assms(2), of s] obtain es where es: "forward_search g s (b - 1) = Inr es"
      "map fst (search_budgets es) = g_peers g" "sum_list (map snd (search_budgets es)) = b - 1"
      "\<forall>(p, c) \<in> set (search_budgets es). (b - 1) div int (length (g_peers g)) \<le> c
         \<and> c \<le> (b - 1) div int (length (g_peers g)) + 1" by blast
    have "processSearchRequest e g s = Inr (g, reply @ es)" using True es(1) by (simp add: run p)
    then show ?thesis using True es(2-) r by (simp add: search_budgets_append)
  next
    case False
    then have "int64 (sint ?w - 1) \<le> 0" using bnd by (auto simp: p)
    then have "processSearchRequest e g s = Inr (g, reply)" by (simp add: run)
    then show ?thesis using False r by auto
  qed
qed

text \<open>A gossiper's own search request that comes back to it from a peer is sent on with its
  whole budget: the budget is reduced only for requests of others, and the first request
  was not recorded as recently seen.\<close>
lemma own_search_not_reduced:
  assumes "sq_Origin s = g_name g" "g_peers g \<noteq> []" "uint (sq_Budget s) < 2 ^ 63"
    and "GetRecentSearchRequestSetKey (sq_Origin s) (sq_Keywords s) |\<notin>| g_recentSearchRequests g"
  shows "\<exists>g' es. processAddressedSearchRequest e g s = Inr (g', es)
     \<and> sum_list (map snd (search_budgets es)) = uint (sq_Budget s)"
proof -
  let ?g = "g\<lparr>g_recentSearchRequests := finsert (GetRecentSearchRequestSetKey (sq_Origin s) (sq_Keywords s))
    (g_recentSearchRequests g)\<rparr>"
  have b: "sint (sq_Budget s) = uint (sq_Budget s)" using assms(3) sint_u64 by simp
  have "g_peers ?g \<noteq> []" using assms(2) by simp
  from forward_search_fair [OF _ assms(3) this, of s] obtain es where
    es: "forward_search ?g s (uint (sq_Budget s)) = Inr es" "sum_list (map snd (search_budgets es)) = uint (sq_Budget s)"
    by auto
  have "processSearchRequest e ?g s = Inr (?g, es)" using es(1) assms(1) b by (simp add: processSearchRequest_def)
  then have "processAddressedSearchRequest e g s = Inr (?g, ForgetLater
      (GetRecentSearchRequestSetKey (sq_Origin s) (sq_Keywords s)) # es)"
    using assms(4) by (simp add: processAddressedSearchRequest_def andthen_def Let_def)
  moreover have "search_budgets (ForgetLater k # es) = search_budgets es" for k
    by (simp add: search_budgets_def List.map_filter_simps sent_search_def)
  ultimately show ?thesis using es(2) by simp
qed


section \<open>From a match to a download\<close>

lemma request_fields:
  "sendPacketWithNextHop (g\<lparr>g_downloadingFilesManager := x, g_downloadingFilesChannels := y\<rparr>) = sendPacketWithNextHop g"
  "data_request (g\<lparr>g_downloadingFilesManager := x, g_downloadingFilesChannels := y\<rparr>) = data_request g"
  by (simp_all add: fun_eq_iff sendPacketWithNextHop_def data_request_def)


section \<open>Witnesses\<close>

definition rumor_B :: RumorMessage where
  "rumor_B = \<lparr>rm_OriginalName = ''B'', rm_ID = 1, rm_Text = ''hi''\<rparr>"

theorem rumor_packet_spec_witness:
  "\<exists>g' es. processAddressedGossipPacket sample_env (sample ''A'' [] fmempty)
       \<lparr>agp_Packet = EmptyPacket\<lparr>gp_Rumor := Some rumor_B\<rparr>, agp_Address = ''b:2''\<rparr> = Inr (g', es)
     \<and> fmlookup (g_nextHop g') ''B'' = Some ''b:2'' \<and> rumors (g_messageStorage g') ''B'' = [rumor_B]"
  using rumor_packet_spec [of "\<lparr>agp_Packet = EmptyPacket\<lparr>gp_Rumor := Some rumor_B\<rparr>, agp_Address = ''b:2''\<rparr>"
      rumor_B "''b:2''" sample_env "sample ''A'' [] fmempty"]
  by (auto simp: IsNewMessage_iff rumor_B_def)

theorem feedback_status_is_stale_witness:
  "\<exists>g' es sp. processAddressedRumorMessage sample_env (sample ''B'' [''a:1''] fmempty)
       \<lparr>rm_OriginalName = ''A'', rm_ID = 1, rm_Text = ''hi''\<rparr> ''a:1''
       = Inr (g', SendPacket ''a:1'' (EmptyPacket\<lparr>gp_Status := Some sp\<rparr>) # es)
     \<and> Diff [''A''] one_rumor_store sp = Inr (Some \<lparr>rm_OriginalName = ''A'', rm_ID = 1, rm_Text = ''hi''\<rparr>, False)"
proof -
  let ?g = "sample ''B'' [''a:1''] fmempty"
  have o: "range_order (e_clockOrder sample_env (VectorClock (g_messageStorage ?g))) (VectorClock (g_messageStorage ?g))"
    by (simp add: sample_env_def range_order_sorted_keys)
  have "e_clockOrder sample_env (VectorClock (g_messageStorage ?g)) = []"
    by (simp add: sample_env_def InitMessageStorage_def sorted_keys_def sorted_list_of_fset.rep_eq)
  then have "Diff [''A''] one_rumor_store (GetCurrentStatusPacket (e_clockOrder sample_env (VectorClock (g_messageStorage ?g)))
       (g_messageStorage ?g)) = Inr (Some \<lparr>rm_OriginalName = ''A'', rm_ID = 1, rm_Text = ''hi''\<rparr>, False)"
    by (simp add: Diff_def GetCurrentStatusPacket_def one_rumor_store_rumors one_rumor_store_clock go_simps)
  from feedback_status_is_stale [OF _ o this, of "''a:1''"] one_rumor_store_good show ?thesis
    by (fastforce simp: ms_good_def)
qed

theorem search_budget_is_divided_witness:
  "\<exists>es. processSearchRequest sample_env (sample ''A'' [''b:2'', ''c:3''] fmempty)
       \<lparr>sq_Origin = ''B'', sq_Budget = 4, sq_Keywords = [''k'']\<rparr> = Inr (sample ''A'' [''b:2'', ''c:3''] fmempty, es)
     \<and> sum_list (map snd (search_budgets es)) = 3"
  using search_budget_is_divided [of "\<lparr>sq_Origin = ''B'', sq_Budget = 4, sq_Keywords = [''k'']\<rparr>"
      "sample ''A'' [''b:2'', ''c:3''] fmempty" sample_env] by auto

definition searching :: Gossiper where
  "searching = (sample ''A'' [''b:2''] fmempty)\<lparr>g_currentSearchRequest := Some
     \<lparr>csr_fullMatches = [\<lparr>fm_Filename = ''f'', fm_Origin = ''B'', fm_MetafileHash = zero_hash\<rparr>],
      csr_isAlive = True, csr_gossiperUIPort = 4848\<rparr>\<rparr>"



end
