(* ===== verification/Webserver.thy ===== *)
theory Webserver
  imports GossiperProps
begin

text \<open>
  The handlers of the HTTP interface (\<open>webserver/Webserver.go\<close>). A handler that reads gives
  the value that is rendered as JSON; one that orders gives the order that goes to the
  client port, or none; a panic is caught by the HTTP server and ends only the request. The
  body of a request is read completely. \<open>serve\<close> is the table of routes; that a route is taken
  when its method and path match, and the rendering as JSON, are the libraries' part.
\<close>

section \<open>Reading\<close>

definition getGossiperName :: "Gossiper \<Rightarrow> string" where
  "getGossiperName g = GetName g"

definition getGossiperID :: "Gossiper \<Rightarrow> u32" where
  "getGossiperID g = GetID g (GetName g)"

definition getPeers :: "Gossiper \<Rightarrow> udpaddr list" where
  "getPeers g = GetPeersCopy g"

definition getOrigins :: "env \<Rightarrow> Gossiper \<Rightarrow> string list" where
  "getOrigins e g = GetOriginsCopy e g"

definition getMessages :: "Gossiper \<Rightarrow> RumorMessage list \<times> PrivateMessage list" where
  "getMessages g = (GetRumorMessages g, GetPrivateMessages g)"

definition getSharedFiles :: "env \<Rightarrow> Gossiper \<Rightarrow> string list" where
  "getSharedFiles e g = GetSharedFiles e g"

definition getSearchMatches :: "Gossiper \<Rightarrow> string list" where
  "getSearchMatches g = GetFullSearchMatches g"

section \<open>Changing\<close>

text \<open>\<open>strings.TrimSpace(s) == ""\<close>: the UTF-8 encodings of the white space of Unicode.\<close>

fun blank :: "nat list \<Rightarrow> bool" where
  "blank [] = True"
| "blank (a # as) =
     (if a = 32 \<or> 9 \<le> a \<and> a \<le> 13 then blank as
      else (case as of
          [] \<Rightarrow> False
        | b # bs \<Rightarrow>
            if a = 0xC2 \<and> (b = 0x85 \<or> b = 0xA0) then blank bs
            else (case bs of
                [] \<Rightarrow> False
              | c # cs \<Rightarrow>
                  if a = 0xE1 \<and> b = 0x9A \<and> c = 0x80
                     \<or> a = 0xE2 \<and> b = 0x80 \<and> (0x80 \<le> c \<and> c \<le> 0x8A \<or> c = 0xA8 \<or> c = 0xA9 \<or> c = 0xAF)
                     \<or> a = 0xE2 \<and> b = 0x81 \<and> c = 0x9F
                     \<or> a = 0xE3 \<and> b = 0x80 \<and> c = 0x80
                  then blank cs else False)))"

definition setGossiperName :: "Gossiper \<Rightarrow> string \<Rightarrow> Gossiper" where
  "setGossiperName g body = (if blank (map of_char body) then g else SetName g body)"

text \<open>An error of \<open>ResolveUDPAddr\<close> is only logged; the address is nil then.\<close>

definition addPeer :: "(string \<Rightarrow> udpaddr option) \<Rightarrow> Gossiper \<Rightarrow> string \<Rightarrow> Gossiper" where
  "addPeer resolve g body =
     UpdatePeersIfNeeded g (case resolve body of None \<Rightarrow> nil_addr | Some udpAddress \<Rightarrow> udpAddress)"

section \<open>Ordering\<close>

definition sendRumorMessage :: "string \<Rightarrow> ClientMessage" where
  "sendRumorMessage body = SendRumorMessage body"

definition sendPrivateMessage :: "string \<Rightarrow> ClientMessage go" where
  "sendPrivateMessage body = (let s = strings_Split body (CHR ''|'') in
     go_bind (slice_get s 0) (\<lambda>dest. go_map (\<lambda>txt. SendPrivateMessage txt dest) (slice_get s 1)))"

definition web_shareFile :: "string \<Rightarrow> ClientMessage" where
  "web_shareFile body = SendToShareMessage body"

definition web_search :: "string \<Rightarrow> ClientMessage" where
  "web_search body = SendToSearchMessage (strings_Split body (CHR '','')) 0"

definition downloadFound :: "Gossiper \<Rightarrow> string \<Rightarrow> result" where
  "downloadFound g body = DownloadFoundByName g body"

text \<open>The name for a requested file: the first number under which nothing exists. The loop has
  no bound.\<close>

definition numbered :: "string \<Rightarrow> nat \<Rightarrow> string" where
  "numbered dest i = dest @ ''-'' @ Itoa (int i)"

partial_function (option) file_number :: "filesystem \<Rightarrow> string \<Rightarrow> nat \<Rightarrow> nat option" where
  [code]: "file_number fs dest i =
    (if IsNotExist fs (Join (DownloadsPath fs) (numbered dest i)) then Some i else file_number fs dest (i + 1))"

definition requestFile :: "filesystem \<Rightarrow> string \<Rightarrow> ClientMessage option option go" where
  "requestFile fs body = (let s = strings_Split body (CHR ''|'') in
     go_bind (slice_get s 0) (\<lambda>dest. go_map (\<lambda>h.
         map_option (\<lambda>filenumber. SendToDownloadMessage (numbered dest filenumber) h dest) (file_number fs dest 1))
       (slice_get s 1)))"

section \<open>The routes\<close>

text \<open>What a request leads to. \<open>Hangs\<close> is the loop of \<open>requestFile\<close> that does not end.\<close>

datatype shown = ShowString string | ShowID u32 | ShowList "string list"
  | ShowMessages "RumorMessage list" "PrivateMessage list"

datatype answer = NotFound | Hangs | Panics panic | Shows shown | Does Gossiper "effect list"

text \<open>\<open>marshal\<close> is \<open>json.Marshal\<close>; its error is only logged, and the body is empty then.\<close>

definition writeJsonResponse :: "(shown \<Rightarrow> byte list option) \<Rightarrow> shown \<Rightarrow> (string \<times> string) \<times> byte list" where
  "writeJsonResponse marshal data =
     ((''Content-Type'', ''application/json''), case marshal data of None \<Rightarrow> [] | Some bytes \<Rightarrow> bytes)"

definition ordered :: "Gossiper \<Rightarrow> ClientMessage option \<Rightarrow> answer" where
  "ordered g cmsg = Does g (order_effect cmsg)"

definition requested :: "Gossiper \<Rightarrow> ClientMessage option option go \<Rightarrow> answer" where
  "requested g r = (case r of Inl p \<Rightarrow> Panics p | Inr None \<Rightarrow> Hangs | Inr (Some cmsg) \<Rightarrow> ordered g cmsg)"

definition serve :: "env \<Rightarrow> (string \<Rightarrow> udpaddr option) \<Rightarrow> Gossiper \<Rightarrow> string \<Rightarrow> string \<Rightarrow> string \<Rightarrow> answer" where
  "serve e resolve g meth path body =
    (if meth = ''GET'' then
       (if path = ''/getGossiperName'' then Shows (ShowString (getGossiperName g))
        else if path = ''/getGossiperID'' then Shows (ShowID (getGossiperID g))
        else if path = ''/getPeers'' then Shows (ShowList (getPeers g))
        else if path = ''/getOrigins'' then Shows (ShowList (getOrigins e g))
        else if path = ''/getMessages'' then (case getMessages g of (rs, ps) \<Rightarrow> Shows (ShowMessages rs ps))
        else if path = ''/getSharedFiles'' then Shows (ShowList (getSharedFiles e g))
        else if path = ''/getSearchMatches'' then Shows (ShowList (getSearchMatches g))
        else NotFound)
     else if meth = ''POST'' then
       (if path = ''/setGossiperName'' then Does (setGossiperName g body) []
        else if path = ''/addPeer'' then Does (addPeer resolve g body) []
        else if path = ''/sendRumorMessage'' then ordered g (Some (sendRumorMessage body))
        else if path = ''/sendPrivateMessage'' then
          (case sendPrivateMessage body of Inl p \<Rightarrow> Panics p | Inr cmsg \<Rightarrow> ordered g (Some cmsg))
        else if path = ''/shareFile'' then ordered g (Some (web_shareFile body))
        else if path = ''/requestFile'' then requested g (requestFile (g_disk g) body)
        else if path = ''/search'' then ordered g (Some (web_search body))
        else if path = ''/downloadFound'' then
          (case downloadFound g body of Inl p \<Rightarrow> Panics p | Inr (g, es) \<Rightarrow> Does g es)
        else NotFound)
     else NotFound)"

text \<open>The web interface changes at most the name and the peers; everything else goes through
  the client port, one order per request.\<close>

lemma serve_effects:
  assumes "serve e resolve g meth path body = Does g' es"
  shows "g' = g \<or> (\<exists>n. g' = SetName g n) \<or> (\<exists>a. g' = UpdatePeersIfNeeded g a)"
    "es = [] \<or> (\<exists>cmsg. es = [ToClientPort cmsg])"
  using assms
  by (auto simp: serve_def ordered_def requested_def order_effect_def setGossiperName_def addPeer_def
      downloadFound_def DownloadFoundByName_def split: if_splits option.splits sum.splits prod.splits)

section \<open>The number of a requested file\<close>

lemma decimal_digits: "c \<in> set (decimal n) \<Longrightarrow> \<exists>k < 10. c = char_of (48 + k :: nat)"
proof (induction n rule: decimal.induct)
  case (1 n)
  show ?case
  proof (cases "n < 10")
    case True
    then show ?thesis using 1(2) by (auto simp: decimal.simps [of n])
  next
    case False
    then have "c \<in> set (decimal (n div 10)) \<or> c = char_of (48 + n mod 10)"
      using 1(2) by (auto simp: decimal.simps [of n])
    then show ?thesis using 1(1) [OF False] by (auto intro: exI [of _ "n mod 10"])
  qed
qed

lemma decimal_value: "foldl (\<lambda>v c. 10 * v + (of_char c - 48)) 0 (decimal n) = n"
proof (induction n rule: decimal.induct)
  case (1 n)
  show ?case
  proof (cases "n < 10")
    case True
    then show ?thesis by (simp add: decimal.simps [of n])
  next
    case False
    then show ?thesis using 1 [OF False] by (simp add: decimal.simps [of n])
  qed
qed

lemma decimal_inj: "decimal m = decimal n \<Longrightarrow> m = n"
  by (metis decimal_value)

lemma digit_plain: "k < 10 \<Longrightarrow> char_of (48 + k :: nat) \<noteq> CHR ''/''"
proof
  assume k: "k < 10" and c: "char_of (48 + k :: nat) = CHR ''/''"
  have "(of_char (char_of (48 + k :: nat) :: char) :: nat) = 48 + k" using k by simp
  then show False unfolding c by simp
qed

lemma numbered_inj: "numbered d i = numbered d j \<Longrightarrow> i = j"
  by (auto simp: numbered_def Itoa_def dest: decimal_inj)

lemma numbered_plain: "CHR ''/'' \<notin> set d \<Longrightarrow> plain_name (numbered d i)"
proof -
  assume d: "CHR ''/'' \<notin> set d"
  have "CHR ''/'' \<notin> set (decimal i)" using decimal_digits digit_plain by metis
  moreover have "CHR ''-'' \<in> set (numbered d i)" by (simp add: numbered_def)
  then have "numbered d i \<noteq> ''.''" "numbered d i \<noteq> ''..''" by auto
  ultimately show ?thesis using d by (auto simp: plain_name_def numbered_def Itoa_def)
qed

lemma file_number_least:
  "IsNotExist fs (Join (DownloadsPath fs) (numbered dest (i + k))) \<Longrightarrow>
   \<exists>n. file_number fs dest i = Some n \<and> i \<le> n \<and> n \<le> i + k
     \<and> IsNotExist fs (Join (DownloadsPath fs) (numbered dest n))
     \<and> (\<forall>j. i \<le> j \<and> j < n \<longrightarrow> \<not> IsNotExist fs (Join (DownloadsPath fs) (numbered dest j)))"
proof (induction k arbitrary: i)
  case 0
  then show ?case by (subst file_number.simps) auto
next
  case (Suc k)
  show ?case
  proof (cases "IsNotExist fs (Join (DownloadsPath fs) (numbered dest i))")
    case True
    then show ?thesis by (subst file_number.simps) auto
  next
    case False
    from Suc.IH [of "i + 1"] Suc.prems obtain n where n: "file_number fs dest (i + 1) = Some n" "i + 1 \<le> n"
      "n \<le> i + Suc k" "IsNotExist fs (Join (DownloadsPath fs) (numbered dest n))"
      "\<forall>j. i + 1 \<le> j \<and> j < n \<longrightarrow> \<not> IsNotExist fs (Join (DownloadsPath fs) (numbered dest j))" by auto
    have "file_number fs dest i = Some n" using False n(1) by (subst file_number.simps) simp
    moreover have "\<not> IsNotExist fs (Join (DownloadsPath fs) (numbered dest j))" if "i \<le> j" "j < n" for j
      using that n(5) False by (cases "i = j") auto
    ultimately show ?thesis using n(2-4) by (intro exI [of _ n]) auto
  qed
qed

lemma free_number_exists:
  assumes "fs_closed fs" "node_at fs (DownloadsPath fs) = Some Dir" "CHR ''/'' \<notin> set dest"
  shows "\<exists>k. IsNotExist fs (Join (DownloadsPath fs) (numbered dest (1 + k)))"
proof (rule ccontr)
  let ?p = "\<lambda>k. DownloadsPath fs @ [numbered dest (1 + k)]"
  assume "\<nexists>k. IsNotExist fs (Join (DownloadsPath fs) (numbered dest (1 + k)))"
  then have "node_at fs (?p k) \<noteq> None" for k
    using IsNotExist_in_dir [OF assms(1,2)] Join_plain [OF numbered_plain [OF assms(3)]] by metis
  then have "range ?p \<subseteq> fset (fmdom (fs_nodes fs))" by (auto simp: fmlookup_dom_iff)
  then have "finite (range ?p)" by (rule finite_subset) simp
  moreover have "inj ?p" by (rule injI) (auto dest: numbered_inj)
  ultimately show False using finite_imageD infinite_UNIV_nat by blast
qed

lemma file_number_diverges:
  assumes "\<And>j. \<not> IsNotExist fs (Join (DownloadsPath fs) (numbered dest j))"
  shows "file_number fs dest i = None"
proof (rule ccontr)
  assume "file_number fs dest i \<noteq> None"
  then obtain n where n: "file_number fs dest i = Some n" by blast
  have "\<exists>j. IsNotExist fs (Join (DownloadsPath fs) (numbered dest j))"
  proof (rule file_number.raw_induct [where P = "\<lambda>fs dest i n.
      \<exists>j. IsNotExist fs (Join (DownloadsPath fs) (numbered dest j))", OF _ n])
    fix f fs dest i and y :: nat
    assume "\<And>fs dest i y. f fs dest i = Some y \<Longrightarrow> \<exists>j. IsNotExist fs (Join (DownloadsPath fs) (numbered dest j))"
      and "(if IsNotExist fs (Join (DownloadsPath fs) (numbered dest i)) then Some i else f fs dest (i + 1)) = Some y"
    then show "\<exists>j. IsNotExist fs (Join (DownloadsPath fs) (numbered dest j))"
      by (cases "IsNotExist fs (Join (DownloadsPath fs) (numbered dest i))") auto
  qed
  with assms show False by blast
qed

lemma hex_no_bar: "CHR ''|'' \<notin> set (hex_EncodeToString h)"
proof
  assume "CHR ''|'' \<in> set (hex_EncodeToString h)"
  then obtain n where n: "n < 16" "CHR ''|'' = hex_digit n" using hex_chars by blast
  then have "from_hex_char (CHR ''|'') = Some n" by simp
  then show False by (simp add: from_hex_char_def)
qed

lemma requestFile_eq:
  assumes "CHR ''|'' \<notin> set dest" "length h = 32"
  shows "requestFile fs (dest @ ''|'' @ hex_EncodeToString h) = Inr (map_option (\<lambda>n. Some
     (EmptyClientMessage\<lparr>cm_ToDownload := Some \<lparr>td_Name = numbered dest n, td_Destination = dest, td_HashValue = h\<rparr>\<rparr>))
     (file_number fs dest 1))"
proof -
  have "strings_Split (dest @ CHR ''|'' # hex_EncodeToString h) (CHR ''|'') = [dest, hex_EncodeToString h]"
    using assms(1) by (simp add: strings_Split_app strings_Split_plain hex_no_bar)
  then show ?thesis
    using assms(2) by (simp add: requestFile_def slice_get_def SendToDownload_encoded del: go_map_Inr slice_get_Inr)
qed

lemma below_file:
  assumes "fs_closed fs" "plain_name x" "node_at fs (p @ [x]) = Some (Data d)" "CHR ''/'' \<notin> set dest"
  shows "\<not> IsNotExist fs (Join p (numbered (x @ ''/'' @ dest) j))"
proof -
  have x: "CHR ''/'' \<notin> set x" using assms(2) by (simp add: plain_name_def)
  have "numbered (x @ ''/'' @ dest) j = x @ CHR ''/'' # numbered dest j" by (simp add: numbered_def)
  then have "Join p (numbered (x @ ''/'' @ dest) j) = Join (Join p x) (numbered dest j)"
    using x by (simp add: Join_def strings_Split_app strings_Split_plain)
  also have "\<dots> = (p @ [x]) @ [numbered dest j]"
    using assms(2) numbered_plain [OF assms(4)] by simp
  finally have j: "Join p (numbered (x @ ''/'' @ dest) j) = (p @ [x]) @ [numbered dest j]" .
  have "node_at fs ((p @ [x]) @ [numbered dest j]) = None"
    using fs_closed_child [OF assms(1), of "p @ [x]"] assms(3) by simp
  moreover have "list_ex (\<lambda>i. \<exists>d. node_at fs (take i ((p @ [x]) @ [numbered dest j])) = Some (Data d))
      [0..<length ((p @ [x]) @ [numbered dest j])]"
    unfolding list_ex_iff using assms(3) by (intro bexI [of _ "length (p @ [x])"]) simp_all
  ultimately show ?thesis unfolding IsNotExist_def os_Stat_def j by simp
qed

text \<open>C32: A request to download from an origin whose name has no slash gets the first number
  under which nothing exists among the downloads, and the order names that file, the origin
  and the decoded hash; with an origin that leads through a downloaded file the loop for the
  number never ends.\<close>
theorem requestFile_number:
  assumes "fs_closed fs" "node_at fs (DownloadsPath fs) = Some Dir"
    and "CHR ''/'' \<notin> set dest" "CHR ''|'' \<notin> set dest" "length h = 32"
  shows "(\<exists>n. requestFile fs (dest @ ''|'' @ hex_EncodeToString h) = Inr (Some (Some
          (EmptyClientMessage\<lparr>cm_ToDownload := Some \<lparr>td_Name = numbered dest n, td_Destination = dest,
             td_HashValue = h\<rparr>\<rparr>)))
       \<and> 1 \<le> n \<and> node_at fs (DownloadsPath fs @ [numbered dest n]) = None
       \<and> (\<forall>j. 1 \<le> j \<and> j < n \<longrightarrow> node_at fs (DownloadsPath fs @ [numbered dest j]) \<noteq> None))
     \<and> (\<forall>x d. plain_name x \<and> CHR ''|'' \<notin> set x \<and> node_at fs (DownloadsPath fs @ [x]) = Some (Data d) \<longrightarrow>
          requestFile fs ((x @ ''/'' @ dest) @ ''|'' @ hex_EncodeToString h) = Inr None)"
proof (rule conjI)
  obtain k where "IsNotExist fs (Join (DownloadsPath fs) (numbered dest (1 + k)))"
    using free_number_exists [OF assms(1-3)] by blast
  from file_number_least [OF this] obtain n where
    n: "file_number fs dest 1 = Some n" "1 \<le> n" "IsNotExist fs (Join (DownloadsPath fs) (numbered dest n))"
    "\<forall>j. 1 \<le> j \<and> j < n \<longrightarrow> \<not> IsNotExist fs (Join (DownloadsPath fs) (numbered dest j))" by blast
  have p: "IsNotExist fs (Join (DownloadsPath fs) (numbered dest j))
      \<longleftrightarrow> node_at fs (DownloadsPath fs @ [numbered dest j]) = None" for j
    using IsNotExist_in_dir [OF assms(1,2)] Join_plain [OF numbered_plain [OF assms(3)]] by metis
  show "\<exists>n. requestFile fs (dest @ ''|'' @ hex_EncodeToString h) = Inr (Some (Some
          (EmptyClientMessage\<lparr>cm_ToDownload := Some \<lparr>td_Name = numbered dest n, td_Destination = dest,
             td_HashValue = h\<rparr>\<rparr>)))
       \<and> 1 \<le> n \<and> node_at fs (DownloadsPath fs @ [numbered dest n]) = None
       \<and> (\<forall>j. 1 \<le> j \<and> j < n \<longrightarrow> node_at fs (DownloadsPath fs @ [numbered dest j]) \<noteq> None)"
    unfolding requestFile_eq [OF assms(4,5)] n(1) using n(2-4) [unfolded p] by auto
  show "\<forall>x d. plain_name x \<and> CHR ''|'' \<notin> set x \<and> node_at fs (DownloadsPath fs @ [x]) = Some (Data d) \<longrightarrow>
          requestFile fs ((x @ ''/'' @ dest) @ ''|'' @ hex_EncodeToString h) = Inr None"
  proof (intro allI impI, elim conjE)
    fix x d assume x: "plain_name x" "CHR ''|'' \<notin> set x" "node_at fs (DownloadsPath fs @ [x]) = Some (Data d)"
    have "CHR ''|'' \<notin> set (x @ ''/'' @ dest)" using x(2) assms(4) by simp
    moreover have "file_number fs (x @ ''/'' @ dest) 1 = None"
      by (rule file_number_diverges) (rule below_file [OF assms(1) x(1,3) assms(3)])
    ultimately show "requestFile fs ((x @ ''/'' @ dest) @ ''|'' @ hex_EncodeToString h) = Inr None"
      using requestFile_eq [of "x @ ''/'' @ dest" h fs] assms(5) by simp
  qed
qed

theorem requestFile_number_witness:
  "\<exists>n. requestFile fresh_disk (''B'' @ ''|'' @ hex_EncodeToString zero_hash) = Inr (Some (Some
     (EmptyClientMessage\<lparr>cm_ToDownload := Some \<lparr>td_Name = numbered ''B'' n, td_Destination = ''B'',
        td_HashValue = zero_hash\<rparr>\<rparr>)))"
proof -
  have i: "dfm_inv pad fresh_disk no_downloads"
    using files_reach_inv [OF reach_started(2) disk_startable(2)] by (simp add: files_inv_def)
  then have "fs_closed fresh_disk" using dfm_invD(1) downloads_dirsD(1) by blast
  moreover have "node_at fresh_disk (DownloadsPath fresh_disk) = Some Dir" by (simp add: fresh_disk_eq)
  ultimately show ?thesis using requestFile_number [of fresh_disk "''B''" zero_hash] by simp blast
qed

end
