(* ===== verification/Concurrency.thy ===== *)
theory Concurrency
  imports Prelude
begin

text \<open>
  The goroutines at the level of their locks and channels (gossiper/Gossiper.go and
  models/filesearching/CurrentSearchRequest.go). Everywhere else in the development the handler
  of a packet is one step; here the message processor and the goroutine it feeds are two
  sequences of lock, unlock, send and receive, interleaved freely, because what a goroutine does
  while the other one holds a lock is the question. There are three such pairs: the processor
  hands a status packet to a mongering goroutine, a data reply to a downloading goroutine and a
  search reply to the searching goroutine. Each pair shares one mutex, one unbuffered channel and
  one registration that says that the channel is served: the entry of the peer in
  statusesChannels, that of the origin in downloadingFilesChannels, the field isAlive.
  Left out are the locks that are held only around a computation or around a send to the peer
  writer, which always reads again, and what the processor does after it has released the mutex.
\<close>

section \<open>Instructions and their interleaving\<close>

datatype exchange = StatusExchange | DataExchange | SearchExchange

datatype place = Processor exchange | StatusWait | ReplyWait | ResultWait | Matches

text \<open>
  Receive is a select over the channel and a timer, with what follows in either case; Choose is a
  branch on data that the model leaves open; Goto continues a loop.
\<close>

datatype instr =
    Lock exchange
  | Unlock exchange
  | Register exchange
  | Unregister exchange
  | IfRegistered exchange "instr list" "instr list"
  | SendOn exchange
  | Receive exchange "instr list" "instr list"
  | Choose "instr list" "instr list"
  | Goto place

record config =
  threads :: "instr list list"
  locked :: "exchange list"
  registered :: "exchange list"

section \<open>The programs\<close>

text \<open>
  The processor looks up the channel under the mutex and sends while it still holds the mutex.
\<close>

definition hand_status :: "instr list" where
  "hand_status =
     [Lock StatusExchange,
      IfRegistered StatusExchange [SendOn StatusExchange, Unregister StatusExchange] [],
      Unlock StatusExchange]"

definition hand_data_reply :: "instr list" where
  "hand_data_reply =
     [Lock DataExchange, IfRegistered DataExchange [SendOn DataExchange] [], Unlock DataExchange]"

definition hand_search_reply :: "instr list" where
  "hand_search_reply =
     [Lock SearchExchange, IfRegistered SearchExchange [SendOn SearchExchange] [], Unlock SearchExchange]"

text \<open>
  A mongering goroutine that mongers on with the same peer ends and is replaced by another one
  with a new channel; as nobody can use the old channel then, this is a loop of one goroutine.
\<close>

definition monger_again :: "instr list" where
  "monger_again =
     [Lock StatusExchange,
      IfRegistered StatusExchange [Unlock StatusExchange]
        [Register StatusExchange, Unlock StatusExchange, Goto StatusWait]]"

definition mongering_goroutine :: "instr list" where
  "mongering_goroutine =
     [Receive StatusExchange
        [Choose monger_again []]
        [Lock StatusExchange, Unregister StatusExchange, Unlock StatusExchange, Choose monger_again []]]"

text \<open>When the channel is missing the downloading goroutine returns without unlocking.\<close>

definition downloading_start :: "instr list" where
  "downloading_start = [Lock DataExchange, IfRegistered DataExchange [Unlock DataExchange, Goto ReplyWait] []]"

definition downloading_goroutine :: "instr list" where
  "downloading_goroutine =
     [Receive DataExchange
        [Lock DataExchange,
         Choose [Unlock DataExchange, Goto ReplyWait] [Unregister DataExchange, Unlock DataExchange]]
        [Choose [Goto ReplyWait] [Lock DataExchange, Unregister DataExchange, Unlock DataExchange]]]"

definition csr_locked :: "instr list \<Rightarrow> instr list" where
  "csr_locked p = Lock SearchExchange # p @ [Unlock SearchExchange]"

definition Shutdown_code :: "instr list" where
  "Shutdown_code = csr_locked [Unregister SearchExchange]"

definition searching_goroutine :: "instr list" where
  "searching_goroutine = [Receive SearchExchange [Goto Matches] [Choose [Goto ResultWait] Shutdown_code]]"

text \<open>
  The loop over the results of a reply: a full match is added and the matches are counted for the
  log; after the last result they are counted again.
\<close>

definition matches_loop :: "instr list" where
  "matches_loop =
     [Choose
        [Choose (csr_locked [] @ csr_locked [] @ [Goto Matches]) [Goto Matches]]
        (csr_locked [] @ [Choose Shutdown_code [Goto ResultWait]])]"

fun handing :: "exchange \<Rightarrow> instr list" where
  "handing StatusExchange = hand_status"
| "handing DataExchange = hand_data_reply"
| "handing SearchExchange = hand_search_reply"

fun code :: "place \<Rightarrow> instr list" where
  "code (Processor x) = handing x @ [Goto (Processor x)]"
| "code StatusWait = mongering_goroutine"
| "code ReplyWait = downloading_goroutine"
| "code ResultWait = searching_goroutine"
| "code Matches = matches_loop"

fun goroutine_of :: "exchange \<Rightarrow> instr list" where
  "goroutine_of StatusExchange = mongering_goroutine"
| "goroutine_of DataExchange = downloading_start"
| "goroutine_of SearchExchange = searching_goroutine"

section \<open>Steps\<close>

fun alone :: "instr \<Rightarrow> config \<Rightarrow> (instr list \<times> config) list" where
  "alone (Lock m) c = (if m \<in> set (locked c) then [] else [([], c\<lparr>locked := m # locked c\<rparr>)])"
| "alone (Unlock m) c = [([], c\<lparr>locked := removeAll m (locked c)\<rparr>)]"
| "alone (Register k) c = [([], c\<lparr>registered := List.insert k (registered c)\<rparr>)]"
| "alone (Unregister k) c = [([], c\<lparr>registered := removeAll k (registered c)\<rparr>)]"
| "alone (IfRegistered k p q) c = [(if k \<in> set (registered c) then p else q, c)]"
| "alone (SendOn k) c = []"
| "alone (Receive k p q) c = [(q, c)]"
| "alone (Choose p q) c = [(p, c), (q, c)]"
| "alone (Goto l) c = [(code l, c)]"

definition local_steps :: "config \<Rightarrow> nat \<Rightarrow> config list" where
  "local_steps c i = (case threads c ! i of
       [] \<Rightarrow> []
     | a # p \<Rightarrow> map (\<lambda>(q, d). d\<lparr>threads := (threads c)[i := q @ p]\<rparr>) (alone a c))"

fun meet :: "instr list \<Rightarrow> instr list \<Rightarrow> (instr list \<times> instr list) option" where
  "meet (SendOn k # p) (Receive k' q r # s) = (if k = k' then Some (p, q @ s) else None)"
| "meet _ _ = None"

definition handover_steps :: "config \<Rightarrow> nat \<Rightarrow> nat \<Rightarrow> config list" where
  "handover_steps c i j = (case meet (threads c ! i) (threads c ! j) of
       None \<Rightarrow> []
     | Some (p, q) \<Rightarrow> [c\<lparr>threads := (threads c)[i := p, j := q]\<rparr>])"

definition successors :: "config \<Rightarrow> config list" where
  "successors c = (let is = [0..<length (threads c)] in
     concat (map (local_steps c) is) @ concat (map (\<lambda>i. concat (map (handover_steps c i) is)) is))"

inductive reaches :: "config \<Rightarrow> config \<Rightarrow> bool" for c0 where
  start: "reaches c0 c0"
| move: "reaches c0 c \<Longrightarrow> d \<in> set (successors c) \<Longrightarrow> reaches c0 d"

text \<open>
  The processor handles packets for the channel for ever, so that a configuration without a
  successor is never a program that has ended.
\<close>

definition exchange_start :: "exchange \<Rightarrow> config" where
  "exchange_start x = \<lparr>threads = [code (Processor x), goroutine_of x], locked = [], registered = [x]\<rparr>"

definition stuck :: "config \<Rightarrow> bool" where
  "stuck c = (successors c = [])"

definition embraced :: "exchange \<Rightarrow> config \<Rightarrow> bool" where
  "embraced x c = (locked c = [x] \<and>
     (case threads c of [SendOn k # p, Lock m # q] \<Rightarrow> k = x \<and> m = x | _ \<Rightarrow> False))"

section \<open>The reachable configurations\<close>

fun explore :: "nat \<Rightarrow> config list \<Rightarrow> config list \<Rightarrow> config list" where
  "explore 0 seen new = seen"
| "explore (Suc n) seen new =
     (let next = filter (\<lambda>c. c \<notin> set seen) (remdups (concat (map successors new)))
      in if next = [] then seen else explore n (seen @ next) next)"

definition reachable_list :: "exchange \<Rightarrow> config list" where
  "reachable_list x = explore 30 [exchange_start x] [exchange_start x]"

definition closed_list :: "config list \<Rightarrow> bool" where
  "closed_list cs = list_all (\<lambda>c. list_all (\<lambda>d. d \<in> set cs) (successors c)) cs"

lemma reaches_closed:
  assumes "reaches c0 c" "c0 \<in> set cs" "closed_list cs"
  shows "c \<in> set cs"
  using assms by induction (auto simp: closed_list_def list_all_iff)

lemma explore_reaches:
  assumes "\<forall>c \<in> set seen \<union> set new. reaches c0 c" "c \<in> set (explore n seen new)"
  shows "reaches c0 c"
  using assms by (induction n seen new rule: explore.induct)
    (auto simp: Let_def split: if_splits intro: reaches.move)

lemma reachable_list_sound: "c \<in> set (reachable_list x) \<Longrightarrow> reaches (exchange_start x) c"
  unfolding reachable_list_def by (rule explore_reaches) (auto intro: reaches.start)

lemma explored:
  "list_all (\<lambda>x. let cs = reachable_list x in
     exchange_start x \<in> set cs \<and> closed_list cs \<and> list_all (\<lambda>c. stuck c = embraced x c) cs
     \<and> list_ex (embraced x) cs) [StatusExchange, DataExchange, SearchExchange]"
  by code_simp

lemma explored_exchange:
  shows start_in_list: "exchange_start x \<in> set (reachable_list x)"
    and reachable_list_closed: "closed_list (reachable_list x)"
    and stuck_in_list: "list_all (\<lambda>c. stuck c = embraced x c) (reachable_list x)"
    and embrace_in_list: "list_ex (embraced x) (reachable_list x)"
  using explored by (cases x; simp add: Let_def)+

lemma reaches_iff: "reaches (exchange_start x) c \<longleftrightarrow> c \<in> set (reachable_list x)"
  using reaches_closed reachable_list_sound reachable_list_closed start_in_list by blast

section \<open>The property\<close>


end
