(* ===== verification/NodeRumors.thy ===== *)
theory NodeRumors
  imports NodeSends
begin

text \<open>
  How an event changes the rumors of a gossiper: not at all, except that a rumor packet and an
  order of the client can each append one rumor, that of the packet or the next one of the
  gossiper's own name. \<open>grows R\<close> says so of a handler; goroutines, which only read the store,
  satisfy \<open>same_store\<close>.
\<close>

definition same_store :: "Gossiper \<Rightarrow> Gossiper \<Rightarrow> bool" where
  "same_store g g' \<longleftrightarrow> g_name g' = g_name g \<and> rumors (g_messageStorage g') = rumors (g_messageStorage g)"

definition grows :: "RumorMessage set \<Rightarrow> Gossiper \<Rightarrow> Gossiper \<Rightarrow> bool" where
  "grows R g g' \<longleftrightarrow> g_name g' = g_name g \<and> (rumors (g_messageStorage g') = rumors (g_messageStorage g)
     \<or> (\<exists>r \<in> R. rumors (g_messageStorage g') = rumors (fst (AddRumorMessage (g_messageStorage g) r))))"

lemma same_store_refl [simp]: "same_store g g"
  by (simp add: same_store_def)

lemma same_store_trans: "same_store g g1 \<Longrightarrow> same_store g1 g2 \<Longrightarrow> same_store g g2"
  by (simp add: same_store_def)

lemma grows_same: "same_store g g' \<Longrightarrow> grows R g g'"
  by (simp add: same_store_def grows_def)

lemma grows_then_same: "grows R g g1 \<Longrightarrow> same_store g1 g2 \<Longrightarrow> grows R g g2"
  by (auto simp: same_store_def grows_def)

lemma grows_mono: "grows R g g' \<Longrightarrow> R \<subseteq> S \<Longrightarrow> grows S g g'"
  by (auto simp: grows_def)

section \<open>Handlers and goroutines\<close>

lemma spread_same: "spreadTheRumor r g m peer = Inr (g', es) \<Longrightarrow> same_store g g'"
  by (auto simp: spreadTheRumor_def same_store_def split: if_splits)

lemma rumor_grows:
  assumes "processRumorMessage e g r = Inr (g', es)" shows "grows {r} g g'"
proof -
  obtain ms new where a: "AddRumorMessage (g_messageStorage g) r = (ms, new)" by fastforce
  let ?g = "g\<lparr>g_messageStorage := ms\<rparr>"
  have s: "grows {r} g ?g" using a by (simp add: grows_def)
  have "same_store ?g g'"
  proof (cases "new \<and> \<not> arePeersEmpty ?g")
    case True
    then have "spreadTheRumor (e_rand e) ?g r nil_addr = Inr (g', es)"
      using assms a by (simp add: processRumorMessage_def)
    then show ?thesis by (rule spread_same)
  next
    case False
    then show ?thesis using assms a by (auto simp: processRumorMessage_def Let_def split: if_splits)
  qed
  with s show ?thesis by (rule grows_then_same)
qed

lemma addressed_rumor_grows:
  assumes "processAddressedRumorMessage e g r a = Inr (g', es)" shows "grows {r} g g'"
proof -
  let ?g = "fst (if IsNewMessage (g_messageStorage g) r then updateNextHop g (rm_OriginalName r) a else (g, []))"
  obtain es2 where "processRumorMessage e ?g r = Inr (g', es2)"
    using assms by (auto simp: processAddressedRumorMessage_def andthen_Inr split: if_splits)
  then have "grows {r} ?g g'" by (rule rumor_grows)
  moreover have "g_messageStorage ?g = g_messageStorage g" "g_name ?g = g_name g"
    by (simp_all add: updateNextHop_def)
  ultimately show ?thesis by (simp add: grows_def)
qed

lemma status_same: "processAddressedStatusPacket e g sp a = Inr (g', es) \<Longrightarrow> same_store g g'"
  by (auto simp: processAddressedStatusPacket_def dest: spread_same split: if_splits option.splits)
    (auto simp: same_store_def)

lemma private_same: "processPrivateMessage g m = Inr (g', es) \<Longrightarrow> same_store g g'"
  by (auto simp: processPrivateMessage_def Let_def same_store_def AddPrivate_rumors split: if_splits)

lemma search_same: "processAddressedSearchRequest e g s = Inr (g', es) \<Longrightarrow> same_store g g'"
  by (auto simp: processAddressedSearchRequest_def Let_def andthen_Inr same_store_def dest!: search_request_same
      split: if_splits sum.splits)

lemma chain_same:
  "processTxPublish g tx = Inr (g', es) \<Longrightarrow> same_store g g'"
  "processBlockPublish e g bp = Inr (g', es) \<Longrightarrow> same_store g g'"
  "processClientDataRequest g dm = Inr (g', es) \<Longrightarrow> same_store g g'"
  "processClientSearchRequest g qm = Inr (g', es) \<Longrightarrow> same_store g g'"
  by (auto simp: processTxPublish_def processBlockPublish_def processClientDataRequest_def
      processClientSearchRequest_def Let_def same_store_def case_prod_unfold split: if_splits option.splits prod.splits)

lemma share_same: "processClientToShare e g m = Inr (g', es) \<Longrightarrow> same_store g g'"
  unfolding same_store_def
  by (rule conjI) (auto simp: processClientToShare_def Let_def case_prod_unfold split: option.splits)

lemma packet_grows:
  assumes "process_packet e g agp = Inr (g', es)" shows "grows (set_option (gp_Rumor (agp_Packet agp))) g g'"
proof -
  let ?g = "UpdatePeersIfNeeded g (agp_Address agp)"
  have u: "g_name ?g = g_name g" by (simp add: UpdatePeersIfNeeded_def)
  obtain es' where p: "processAddressedGossipPacket e g agp = Inr (g', es')"
    using assms by (auto simp: process_packet_def andthen_Inr)
  have "grows (set_option (gp_Rumor (agp_Packet agp))) ?g g'"
  proof (cases "gp_Rumor (agp_Packet agp)")
    case (Some r)
    with p have "processAddressedRumorMessage e ?g r (agp_Address agp) = Inr (g', es')"
      by (simp add: processAddressedGossipPacket_def Let_def)
    then show ?thesis unfolding Some option.set by (rule addressed_rumor_grows)
  next
    case None
    with p have "same_store ?g g'"
      unfolding processAddressedGossipPacket_def Let_def
      by (auto split: option.splits dest: status_same private_same search_same chain_same dest!: unchanged)
    then show ?thesis by (rule grows_same)
  qed
  then show ?thesis by (simp add: grows_def u)
qed

text \<open>An order adds a rumor only in the gossiper's own name.\<close>

lemma client_grows:
  assumes "process_client e g cmsg = Inr (g', es)" shows "grows {own_rumor g t | t. True} g g'"
proof -
  obtain es' where p: "processClientMessage e g cmsg = Inr (g', es')"
    using assms by (auto simp: process_client_def andthen_Inr)
  have r: "grows {own_rumor g t | t. True} g g1" if "processRumorMessage e g (own_rumor g x) = Inr (g1, es1)" for x g1 es1
    by (rule grows_mono [OF rumor_grows [OF that]]) auto
  from p show ?thesis
    unfolding processClientMessage_def
    by (auto split: option.splits if_splits intro: grows_same dest: r private_same share_same chain_same dest!: unchanged)
qed

lemma flip_same: "flipRumorMongeringCoin e g r = Inr (g', es) \<Longrightarrow> same_store g g'"
  by (auto simp: flipRumorMongeringCoin_def andthen_Inr dest: spread_same split: if_splits)

lemma mongering_same:
  assumes "startRumorMongeringThread e g r p ev = Inr (g', es)" shows "same_store g g'"
proof (cases ev)
  case MongeringTimeout
  then have "same_store (g\<lparr>g_statusesChannels := g_statusesChannels g |-| {|p|}\<rparr>) g'"
    using assms flip_same by (simp add: startRumorMongeringThread_def)
  then show ?thesis by (simp add: same_store_def)
next
  case (StatusArrived sp)
  with assms show ?thesis
    by (auto simp: startRumorMongeringThread_def andthen_Inr dest: spread_same flip_same split: option.splits if_splits)
qed

lemma downloading_same: "file_downloading_step e src ev g th = (g', th', es) \<Longrightarrow> same_store g g'"
  by (auto simp: file_downloading_step_def Let_def same_store_def split: prod.splits)

lemma searching_same:
  "file_searching_tick e ks g th = Inr (g', th', es) \<Longrightarrow> same_store g g'"
  "file_searching_reply packet g th = Inr (g', th', es) \<Longrightarrow> same_store g g'"
  by (auto simp: file_searching_tick_def file_searching_reply_def Let_def same_store_def dest!: search_request_same
      split: if_splits option.splits prod.splits)

section \<open>Events\<close>

lemma mongering_event_same:
  "mongering_event e nd p ev = Some (Inr (nd', es)) \<Longrightarrow> same_store (nd_g nd) (nd_g nd')"
  by (auto simp: mongering_event_def local_run_Inr dest: mongering_same split: option.splits)

lemma download_event_same:
  "download_event e nd src ev = Some (Inr (nd', es)) \<Longrightarrow> same_store (nd_g nd) (nd_g nd')"
  by (auto simp: download_event_def dest: downloading_same split: option.splits prod.splits)

lemma searching_event_same:
  "searching_event e nd reply = Some (Inr (nd', es)) \<Longrightarrow> same_store (nd_g nd) (nd_g nd')"
  using searching_same by (fastforce simp: searching_event_def searching_result_def split: option.splits)

lemma hand_over1_same: "hand_over1 e nd ef = Some (Inr (nd', es)) \<Longrightarrow> same_store (nd_g nd) (nd_g nd')"
  by (cases ef) (auto dest: mongering_event_same download_event_same searching_event_same)

lemma hand_over_same: "hand_over e efs nd = Some (Inr (nd', es)) \<Longrightarrow> same_store (nd_g nd) (nd_g nd')"
proof (induction efs arbitrary: nd es)
  case (Cons ef efs)
  then obtain nd1 es1 es2 where "hand_over1 e nd ef = Some (Inr (nd1, es1))"
    "hand_over e efs nd1 = Some (Inr (nd', es2))"
    by (auto split: option.splits sum.splits)
  with Cons.IH hand_over1_same same_store_trans show ?case by blast
qed simp

lemma handled_grows:
  assumes "handled e nd r = Some (Inr (nd', es))" "\<And>g es. r = Inr (g, es) \<Longrightarrow> grows R (nd_g nd) g"
  shows "grows R (nd_g nd) (nd_g nd')"
proof -
  obtain g es1 es2 where r: "r = Inr (g, es1)" "hand_over e es1 (spawn es1 (nd\<lparr>nd_g := g\<rparr>)) = Some (Inr (nd', es2))"
    using assms(1) by (auto simp: handled_def local_run_def split: sum.splits)
  from assms(2) [OF r(1)] hand_over_same [OF r(2)] grows_then_same show ?thesis by fastforce
qed

text \<open>The rumors an event can add.\<close>

definition rumor_source :: "node \<Rightarrow> event \<Rightarrow> RumorMessage set" where
  "rumor_source nd ev = (case ev of
       Packet agp \<Rightarrow> set_option (gp_Rumor (agp_Packet agp))
     | Order cmsg \<Rightarrow> {own_rumor (nd_g nd) t | t. True}
     | _ \<Rightarrow> {})"

lemma event_grows:
  assumes "node_event e e' nd ev = Some (Inr (nd', es))" "\<And>n. ev \<noteq> Rename n"
  shows "grows (rumor_source nd ev) (nd_g nd) (nd_g nd')"
proof (cases ev)
  case (Packet agp)
  with assms(1) show ?thesis by (auto simp: node_event_def rumor_source_def intro: handled_grows packet_grows)
next
  case (Order cmsg)
  have "grows (rumor_source nd ev) (nd_g nd) g" if "process_client e (nd_g nd) cmsg = Inr (g, es)" for g es
    using client_grows [OF that] Order by (simp add: rumor_source_def)
  with Order assms(1) show ?thesis by (auto simp: node_event_def intro: handled_grows)
next
  case (Mining nonce ks seen ks')
  then show ?thesis using assms(1)
    by (auto simp: node_event_def mining_attempt_def same_store_def intro!: grows_same split: prod.splits if_splits)
next
  case (AddPeer p)
  then show ?thesis using assms(1)
    by (auto simp: node_event_def same_store_def UpdatePeersIfNeeded_def intro!: grows_same)
qed (use assms in \<open>auto simp: node_event_def local_run_Inr StartAntiEntropyTimer_def publish_block_def same_store_def
      forget_search_def DownloadFoundByName_def intro!: grows_same split: option.splits if_splits
      dest!: mongering_event_same download_event_same searching_event_same\<close>)

end
