(* ===== verification/Network.thy ===== *)
theory Network
  imports NodeRumors NodeProps "HOL-Library.Sublist"
begin

text \<open>
  A network of gossipers. Its state is the gossipers and the packets sent so far; a packet that
  was ever sent can arrive at any gossiper, under any sender's address, any number of times, late
  or never, which covers loss, duplication and reordering by UDP. Between arrivals the gossipers
  do what they do: orders of their clients, timers, mining. Names are distinct and are not changed.

  The results are about gossip: whatever happens, the rumors of an origin that a gossiper has
  stored are the first ones the origin issued, in order and unaltered.
\<close>

section \<open>Runs of a network\<close>

record network =
  nt_nodes :: "node list"
  nt_wire :: "GossipPacket set"

definition sent :: "effect list \<Rightarrow> GossipPacket set" where
  "sent es = {p. \<exists>a. SendPacket a p \<in> set es}"

abbreviation gossiper :: "network \<Rightarrow> nat \<Rightarrow> Gossiper" where
  "gossiper nt i \<equiv> nd_g (nt_nodes nt ! i)"

abbreviation name_of :: "network \<Rightarrow> nat \<Rightarrow> string" where
  "name_of nt i \<equiv> g_name (gossiper nt i)"

abbreviation store_of :: "network \<Rightarrow> nat \<Rightarrow> MessageStorage" where
  "store_of nt i \<equiv> g_messageStorage (gossiper nt i)"

definition started :: "digest \<Rightarrow> node \<Rightarrow> bool" where
  "started H nd \<longleftrightarrow> (\<exists>resolve listen fs0 name uiport peersAddress peers simple fs g.
     NewGossiper H resolve listen fs0 name uiport peersAddress peers simple = (fs, Some g) \<and> nd = new_node g)"

text \<open>The digest is the same for all, and downloads are ordered under proper names.\<close>

inductive net_step :: "digest \<Rightarrow> network \<Rightarrow> network \<Rightarrow> bool" for H where
  event: "i < length (nt_nodes nt) \<Longrightarrow> event_ok H UNIV e e' (nt_nodes nt ! i) ev
     \<Longrightarrow> (\<forall>n. ev \<noteq> Rename n) \<Longrightarrow> (\<forall>agp. ev = Packet agp \<longrightarrow> agp_Packet agp \<in> nt_wire nt)
     \<Longrightarrow> node_event e e' (nt_nodes nt ! i) ev = Some (Inr (nd', es))
     \<Longrightarrow> net_step H nt \<lparr>nt_nodes = (nt_nodes nt)[i := nd'], nt_wire = nt_wire nt \<union> sent es\<rparr>"

inductive net_reach :: "digest \<Rightarrow> network \<Rightarrow> bool" for H where
  start: "\<forall>nd \<in> set nds. started H nd \<Longrightarrow> distinct (map (g_name \<circ> nd_g) nds)
     \<Longrightarrow> net_reach H \<lparr>nt_nodes = nds, nt_wire = {}\<rparr>"
| step: "net_reach H nt \<Longrightarrow> net_step H nt nt' \<Longrightarrow> net_reach H nt'"

lemmas net_reach_event = net_reach.step [OF _ net_step.event]

lemma net_reach_induct [consumes 1, case_names start event]:
  assumes "net_reach H nt"
    and "\<And>nds. \<forall>nd \<in> set nds. started H nd \<Longrightarrow> distinct (map (g_name \<circ> nd_g) nds) \<Longrightarrow> P \<lparr>nt_nodes = nds, nt_wire = {}\<rparr>"
    and "\<And>nt i e e' ev nd' es. net_reach H nt \<Longrightarrow> i < length (nt_nodes nt) \<Longrightarrow> event_ok H UNIV e e' (nt_nodes nt ! i) ev
     \<Longrightarrow> (\<forall>n. ev \<noteq> Rename n) \<Longrightarrow> (\<forall>agp. ev = Packet agp \<longrightarrow> agp_Packet agp \<in> nt_wire nt)
     \<Longrightarrow> node_event e e' (nt_nodes nt ! i) ev = Some (Inr (nd', es)) \<Longrightarrow> P nt
     \<Longrightarrow> P \<lparr>nt_nodes = (nt_nodes nt)[i := nd'], nt_wire = nt_wire nt \<union> sent es\<rparr>"
  shows "P nt"
  using assms(1)
proof (induction rule: net_reach.induct)
  case (step nt nt')
  from step(2,1,3) show ?case by (cases rule: net_step.cases) (use assms(3) in blast)
qed (use assms(2) in blast)

section \<open>The invariant\<close>

text \<open>A rumor as its origin issued it.\<close>

definition authentic :: "network \<Rightarrow> RumorMessage \<Rightarrow> bool" where
  "authentic nt r \<longleftrightarrow> (\<exists>i < length (nt_nodes nt). rm_OriginalName r = name_of nt i
     \<and> r \<in> set (rumors (store_of nt i) (name_of nt i)))"

definition prefixes :: "network \<Rightarrow> bool" where
  "prefixes nt \<longleftrightarrow> (\<forall>i < length (nt_nodes nt). \<forall>j < length (nt_nodes nt).
     prefix (rumors (store_of nt j) (name_of nt i)) (rumors (store_of nt i) (name_of nt i)))"

definition known_origins :: "network \<Rightarrow> bool" where
  "known_origins nt \<longleftrightarrow> (\<forall>j < length (nt_nodes nt). \<forall>n. n \<notin> name_of nt ` {..<length (nt_nodes nt)}
     \<longrightarrow> rumors (store_of nt j) n = [])"

definition wire_authentic :: "network \<Rightarrow> bool" where
  "wire_authentic nt \<longleftrightarrow> (\<forall>p \<in> nt_wire nt. \<forall>r. gp_Rumor p = Some r \<longrightarrow> authentic nt r)"

definition gossip_inv :: "network \<Rightarrow> bool" where
  "gossip_inv nt \<longleftrightarrow> prefixes nt \<and> known_origins nt \<and> wire_authentic nt"

text \<open>Fewer than \<open>2^32\<close> rumors of each gossiper, so that the IDs do not wrap.\<close>

definition few_rumors :: "network \<Rightarrow> bool" where
  "few_rumors nt \<longleftrightarrow> (\<forall>i < length (nt_nodes nt). length (rumors (store_of nt i) (name_of nt i)) < 2 ^ 32)"

definition distinct_names :: "network \<Rightarrow> bool" where
  "distinct_names nt \<longleftrightarrow> (\<forall>i < length (nt_nodes nt). \<forall>j < length (nt_nodes nt).
     name_of nt i = name_of nt j \<longrightarrow> i = j)"

lemma node_of_network: "net_reach H nt \<Longrightarrow> nd \<in> set (nt_nodes nt) \<Longrightarrow> \<exists>fs0. node_reach H UNIV fs0 nd"
proof (induction arbitrary: nd rule: net_reach_induct)
  case (start nds)
  then show ?case using node_reach.start by (fastforce simp: started_def)
next
  case (event nt i e e' ev nd' es)
  obtain fs0 where r: "node_reach H UNIV fs0 (nt_nodes nt ! i)" using event.IH event.hyps(2) nth_mem by blast
  have "node_reach H UNIV fs0 nd'" by (rule node_reach.event [OF r event.hyps(3,6)])
  moreover have "nd = nd' \<or> nd \<in> set (nt_nodes nt)" using event.prems set_update_subset_insert [of "nt_nodes nt" i nd'] by auto
  ultimately show ?case using event.IH by blast
qed

text \<open>One step of the network, seen from the stores.\<close>

lemma event_on_stores:
  assumes "net_reach H nt" "i < length (nt_nodes nt)" "\<forall>n. ev \<noteq> Rename n"
    and "node_event e e' (nt_nodes nt ! i) ev = Some (Inr (nd', es))"
  shows "g_name (nd_g nd') = name_of nt i" "ms_inv (store_of nt i)" "ms_inv (g_messageStorage (nd_g nd'))"
    "rumors (g_messageStorage (nd_g nd')) = rumors (store_of nt i)
     \<or> (\<exists>r \<in> rumor_source (nt_nodes nt ! i) ev.
          rm_ID r - 1 = clock (store_of nt i) (rm_OriginalName r)
          \<and> rumors (g_messageStorage (nd_g nd')) =
              (rumors (store_of nt i))(rm_OriginalName r := rumors (store_of nt i) (rm_OriginalName r) @ [r]))"
    "p \<in> sent es \<Longrightarrow> gp_Rumor p = Some r \<Longrightarrow> stored (g_messageStorage (nd_g nd')) r"
proof -
  obtain fs0 where r: "node_reach H UNIV fs0 (nt_nodes nt ! i)"
    using node_of_network [OF assms(1) nth_mem [OF assms(2)]] by blast
  have g: "grows (rumor_source (nt_nodes nt ! i) ev) (gossiper nt i) (nd_g nd')"
    by (rule event_grows [OF assms(4)]) (use assms(3) in simp)
  then show "g_name (nd_g nd') = name_of nt i" by (simp add: grows_def)
  show "ms_inv (store_of nt i)" by (rule reach_store [OF r])
  have s: "nd_sound (nt_nodes nt ! i) nd' es" by (rule event_sound [OF assms(4) reach_known [OF r]])
  then show "ms_inv (g_messageStorage (nd_g nd'))" by (simp add: nd_sound_def nd_known_def known_def)
  show "rumors (g_messageStorage (nd_g nd')) = rumors (store_of nt i)
     \<or> (\<exists>r \<in> rumor_source (nt_nodes nt ! i) ev.
          rm_ID r - 1 = clock (store_of nt i) (rm_OriginalName r)
          \<and> rumors (g_messageStorage (nd_g nd')) =
              (rumors (store_of nt i))(rm_OriginalName r := rumors (store_of nt i) (rm_OriginalName r) @ [r]))"
    using g by (auto simp: grows_def AddRumor_rumors IsNewMessage_iff split: if_splits)
  show "p \<in> sent es \<Longrightarrow> gp_Rumor p = Some r \<Longrightarrow> stored (g_messageStorage (nd_g nd')) r"
    using s by (fastforce simp: nd_sound_def sent_def list_all_iff)
qed

text \<open>Appending the rumor that comes next in its origin's list, or a rumor in the own name, keeps
  all lists prefixes of the origin's.\<close>

lemma append_prefixes:
  fixes S :: "nat \<Rightarrow> string \<Rightarrow> RumorMessage list"
  assumes p: "\<And>a b. a < N \<Longrightarrow> b < N \<Longrightarrow> prefix (S b (nm a)) (S a (nm a))"
    and inj: "\<And>a b. a < N \<Longrightarrow> b < N \<Longrightarrow> nm a = nm b \<Longrightarrow> a = b"
    and i: "i < N" "c < N" "src = nm c"
    and new: "c = i \<or> (length (S i src) < length (S c src) \<and> S c src ! length (S i src) = r)"
    and ab: "a < N" "b < N"
  defines "S' \<equiv> S(i := (S i)(src := S i src @ [r]))"
  shows "prefix (S' b (nm a)) (S' a (nm a))"
proof (cases "nm a = src")
  case False
  then have "S' j (nm a) = S j (nm a)" for j by (simp add: S'_def)
  then show ?thesis using p [OF ab] by simp
next
  case True
  then have a: "a = c" using inj ab(1) i(2,3) by simp
  show ?thesis
  proof (cases "c = i")
    case True
    then show ?thesis using p [OF i(1) ab(2)] a i(3) by (auto simp: S'_def)
  next
    case False
    have "prefix (S i src @ [r]) (S c src)"
      using append_one_prefix [of "S i src" "S c src"] new p [OF i(2,1)] False i(3) by auto
    then show ?thesis using p [OF ab] a False i(3) by (auto simp: S'_def)
  qed
qed

lemma rumor_index:
  assumes "ms_inv ms" "ms_inv ms'" "r \<in> set (rumors ms src)" "rm_ID r - 1 = clock ms' src"
    and "length (rumors ms src) < 2 ^ 32" "length (rumors ms' src) \<le> length (rumors ms src)"
  shows "length (rumors ms' src) < length (rumors ms src) \<and> rumors ms src ! length (rumors ms' src) = r"
proof -
  obtain k where k: "k < length (rumors ms src)" "rumors ms src ! k = r" using assms(3) by (auto simp: in_set_conv_nth)
  have "(word_of_nat k :: u32) = word_of_nat (length (rumors ms' src))"
    using ms_invD(3) [OF assms(1) k(1)] k(2) ms_invD(1) [OF assms(2), of src] assms(4) by simp
  then have "unat (word_of_nat k :: u32) = unat (word_of_nat (length (rumors ms' src)) :: u32)" by simp
  then have "k = length (rumors ms' src)" using k(1) assms(5,6) by (simp add: unat_of_nat)
  with k show ?thesis by simp
qed

lemma own_rumor_next:
  "r \<in> {own_rumor g t | t. True} \<Longrightarrow> rm_OriginalName r = g_name g"
  by (auto simp: own_rumor_def)

text \<open>The rumors of all gossipers after an event: as before, or one gossiper has appended the
  next rumor of its own or of another origin.\<close>

lemma stores_after:
  assumes "net_reach H nt" "i < length (nt_nodes nt)" "\<forall>n. ev \<noteq> Rename n"
    and "\<forall>agp. ev = Packet agp \<longrightarrow> agp_Packet agp \<in> nt_wire nt"
    and "node_event e e' (nt_nodes nt ! i) ev = Some (Inr (nd', es))"
    and "few_rumors nt" "gossip_inv nt"
  defines "S \<equiv> \<lambda>j. rumors (store_of nt j)"
  shows "rumors (g_messageStorage (nd_g nd')) = S i
     \<or> (\<exists>r c src. c < length (nt_nodes nt) \<and> src = name_of nt c
          \<and> rumors (g_messageStorage (nd_g nd')) = (S i)(src := S i src @ [r])
          \<and> (c = i \<or> (length (S i src) < length (S c src) \<and> S c src ! length (S i src) = r)))"
proof -
  note st = event_on_stores [OF assms(1,2,3,5)]
  show ?thesis
  proof (cases "rumors (g_messageStorage (nd_g nd')) = S i")
    case False
    then obtain r where r: "r \<in> rumor_source (nt_nodes nt ! i) ev"
      "rm_ID r - 1 = clock (store_of nt i) (rm_OriginalName r)"
      "rumors (g_messageStorage (nd_g nd')) = (S i)(rm_OriginalName r := S i (rm_OriginalName r) @ [r])"
      using st(4) unfolding S_def by blast
    consider agp where "ev = Packet agp" "gp_Rumor (agp_Packet agp) = Some r" | "rm_OriginalName r = name_of nt i"
      using r(1) by (auto simp: rumor_source_def own_rumor_def split: event.splits)
    then show ?thesis
    proof cases
      case 1
      then have "authentic nt r" using assms(4,7) by (auto simp: gossip_inv_def wire_authentic_def)
      then obtain c where c: "c < length (nt_nodes nt)" "rm_OriginalName r = name_of nt c" "r \<in> set (S c (name_of nt c))"
        by (auto simp: authentic_def S_def)
      obtain fs0 where nc: "node_reach H UNIV fs0 (nt_nodes nt ! c)"
        using node_of_network [OF assms(1) nth_mem [OF c(1)]] by blast
      have "length (S i (name_of nt c)) \<le> length (S c (name_of nt c))"
        using assms(7) c(1) assms(2) by (auto simp: gossip_inv_def prefixes_def S_def intro: prefix_length_le)
      then have "length (S i (name_of nt c)) < length (S c (name_of nt c)) \<and> S c (name_of nt c) ! length (S i (name_of nt c)) = r"
        using rumor_index [OF reach_store [OF nc] st(2)] c r(2) assms(6) unfolding S_def by (auto simp: few_rumors_def)
      then show ?thesis using c r(3) by metis
    next
      case 2
      then show ?thesis using r(3) assms(2) by metis
    qed
  qed simp
qed

lemma gossip_inv_step:
  assumes "net_reach H nt" "i < length (nt_nodes nt)" "\<forall>n. ev \<noteq> Rename n"
    and "\<forall>agp. ev = Packet agp \<longrightarrow> agp_Packet agp \<in> nt_wire nt"
    and "node_event e e' (nt_nodes nt ! i) ev = Some (Inr (nd', es))"
    and "few_rumors nt" "gossip_inv nt" "distinct_names nt"
  shows "gossip_inv \<lparr>nt_nodes = (nt_nodes nt)[i := nd'], nt_wire = nt_wire nt \<union> sent es\<rparr>"
proof -
  let ?N = "length (nt_nodes nt)"
  let ?nt = "\<lparr>nt_nodes = (nt_nodes nt)[i := nd'], nt_wire = nt_wire nt \<union> sent es\<rparr>"
  define S where "S j = rumors (store_of nt j)" for j
  define S' where "S' j = rumors (store_of ?nt j)" for j
  note st = event_on_stores [OF assms(1,2,3,5)]
  have nm: "name_of ?nt j = name_of nt j" for j using st(1) assms(2) by (cases "j = i") simp_all
  have S'j: "S' j = (if j = i then rumors (g_messageStorage (nd_g nd')) else S j)" for j
    using assms(2) by (simp add: S'_def S_def)
  have pre: "prefix (S b (name_of nt a)) (S a (name_of nt a))" if "a < ?N" "b < ?N" for a b
    using assms(7) that by (simp add: gossip_inv_def prefixes_def S_def)
  have inj: "a = b" if "a < ?N" "b < ?N" "name_of nt a = name_of nt b" for a b
    using assms(8) that by (simp add: distinct_names_def)
  have pre': "prefix (S' b (name_of nt a)) (S' a (name_of nt a))" if ab: "a < ?N" "b < ?N" for a b
  proof (cases "rumors (g_messageStorage (nd_g nd')) = S i")
    case True
    then have "S' j = S j" for j by (simp add: S'j)
    then show ?thesis using pre [OF ab] by simp
  next
    case False
    with stores_after [OF assms(1-7)] obtain r c src where c: "c < ?N" "src = name_of nt c"
      "rumors (g_messageStorage (nd_g nd')) = (S i)(src := S i src @ [r])"
      "c = i \<or> (length (S i src) < length (S c src) \<and> S c src ! length (S i src) = r)"
      unfolding S_def by blast
    have e: "S' = S(i := (S i)(src := S i src @ [r]))" using S'j c(3) by (simp add: fun_eq_iff)
    show ?thesis
      unfolding e by (rule append_prefixes [where N = ?N and c = c]) (use pre inj assms(2) c(1,2,4) ab in blast)+
  qed
  have grow: "set (S j n) \<subseteq> set (S' j n)" for j n
    using stores_after [OF assms(1-7)] unfolding S'j by (auto simp: S_def split: if_splits)
  have orig: "S' j n = []" if "j < ?N" "n \<notin> name_of nt ` {..<?N}" for j n
  proof -
    have "S j n = []" using assms(7) that by (simp add: gossip_inv_def known_origins_def S_def)
    then show ?thesis
      using stores_after [OF assms(1-7)] that(2) unfolding S'j by (auto simp: S_def split: if_splits)
  qed
  have old: "authentic ?nt r" if "authentic nt r" for r
    using that grow nm unfolding authentic_def S_def S'_def by (simp del: nth_list_update) blast
  have new: "authentic ?nt r" if "stored (g_messageStorage (nd_g nd')) r" for r
  proof -
    have r: "r \<in> set (S' i (rm_OriginalName r))" using that by (simp add: stored_def S'j)
    then obtain c where c: "c < ?N" "rm_OriginalName r = name_of nt c"
      using orig [OF assms(2), of "rm_OriginalName r"] by force
    have "r \<in> set (S' c (name_of nt c))" using r pre' [OF c(1) assms(2)] c(2) set_mono_prefix by fastforce
    then show ?thesis using c nm unfolding authentic_def S'_def by (auto simp del: nth_list_update)
  qed
  have "wire_authentic ?nt"
    using assms(7) old new st(5) unfolding wire_authentic_def gossip_inv_def network.simps by blast
  moreover have "prefixes ?nt" using pre' nm unfolding prefixes_def S'_def by simp
  moreover have "known_origins ?nt" using orig nm unfolding known_origins_def S'_def by simp
  ultimately show ?thesis by (simp add: gossip_inv_def)
qed

section \<open>Reachable networks\<close>

lemma names_step:
  assumes "net_reach H nt" "i < length (nt_nodes nt)" "\<forall>n. ev \<noteq> Rename n"
    and "node_event e e' (nt_nodes nt ! i) ev = Some (Inr (nd', es))"
  shows "name_of \<lparr>nt_nodes = (nt_nodes nt)[i := nd'], nt_wire = w\<rparr> j = name_of nt j"
  using event_on_stores(1) [OF assms] assms(2) by (cases "j = i") simp_all

lemma reach_names: "net_reach H nt \<Longrightarrow> distinct_names nt"
proof (induction rule: net_reach_induct)
  case (start nds)
  then show ?case by (auto simp: distinct_names_def distinct_conv_nth)
next
  case (event nt i e e' ev nd' es)
  then show ?case
    using names_step [OF event.hyps(1,2,4,6)] by (auto simp: distinct_names_def simp del: nth_list_update)
qed

lemma few_before:
  assumes "net_reach H nt" "i < length (nt_nodes nt)" "\<forall>n. ev \<noteq> Rename n"
    and "node_event e e' (nt_nodes nt ! i) ev = Some (Inr (nd', es))"
    and "few_rumors \<lparr>nt_nodes = (nt_nodes nt)[i := nd'], nt_wire = w\<rparr>"
  shows "few_rumors nt"
  unfolding few_rumors_def
proof (intro allI impI)
  fix j assume j: "j < length (nt_nodes nt)"
  let ?nt = "\<lparr>nt_nodes = (nt_nodes nt)[i := nd'], nt_wire = w\<rparr>"
  have le: "length (rumors (store_of nt j) n) \<le> length (rumors (store_of ?nt j) n)" for n
    using event_on_stores(4) [OF assms(1-4)] assms(2) by (cases "j = i") auto
  have e: "name_of ?nt j = name_of nt j" by (rule names_step [OF assms(1-4)])
  have "length (rumors (store_of ?nt j) (name_of ?nt j)) < 2 ^ 32"
    using assms(5) j by (simp add: few_rumors_def del: nth_list_update)
  then have "length (rumors (store_of ?nt j) (name_of nt j)) < 2 ^ 32" unfolding e .
  then show "length (rumors (store_of nt j) (name_of nt j)) < 2 ^ 32" by (rule le_less_trans [OF le])
qed

lemma reach_gossip: "net_reach H nt \<Longrightarrow> few_rumors nt \<Longrightarrow> gossip_inv nt"
proof (induction rule: net_reach_induct)
  case (start nds)
  then have "rumors (g_messageStorage (nd_g nd)) n = []" if "nd \<in> set nds" for nd n
    using that by (fastforce simp: started_def new_node_def dest!: NewGossiper_fields)
  then show ?case by (simp add: gossip_inv_def prefixes_def known_origins_def wire_authentic_def)
next
  case (event nt i e e' ev nd' es)
  have f: "few_rumors nt" by (rule few_before [OF event.hyps(1,2,4,6) event.prems])
  show ?case
    by (rule gossip_inv_step [OF event.hyps(1,2,4,5,6) f event.IH [OF f] reach_names [OF event.hyps(1)]])
qed

section \<open>Properties\<close>

text \<open>C2: In every reachable network of gossipers, over a transport that may lose, repeat, delay
  and misroute packets, what any gossiper has stored of an origin is a prefix of what the
  origin itself issued: no rumor is altered, invented, skipped or out of order, and nothing is
  stored under a name that is not a gossiper's. So of two gossipers one is, for each origin,
  at most behind the other. The origins have issued fewer than \<open>2^32\<close> rumors.\<close>
theorem gossip_is_consistent:
  assumes "net_reach H nt" "few_rumors nt" "j < length (nt_nodes nt)"
  shows "(\<forall>i < length (nt_nodes nt). prefix (rumors (store_of nt j) (name_of nt i)) (rumors (store_of nt i) (name_of nt i)))
     \<and> (\<forall>n. n \<notin> name_of nt ` {..<length (nt_nodes nt)} \<longrightarrow> rumors (store_of nt j) n = [])"
  using reach_gossip [OF assms(1,2)] assms(3) by (simp add: gossip_inv_def prefixes_def known_origins_def)

lemma reach_stores:
  assumes "net_reach H nt" "few_rumors nt" "j < length (nt_nodes nt)"
  shows "ms_inv (store_of nt j)" "length (rumors (store_of nt j) n) < 2 ^ 32"
proof -
  show "ms_inv (store_of nt j)"
    using node_of_network [OF assms(1) nth_mem [OF assms(3)]] reach_store by blast
  have i: "gossip_inv nt" by (rule reach_gossip [OF assms(1,2)])
  show "length (rumors (store_of nt j) n) < 2 ^ 32"
  proof (cases "n \<in> name_of nt ` {..<length (nt_nodes nt)}")
    case True
    then obtain c where c: "c < length (nt_nodes nt)" "n = name_of nt c" by auto
    then have "length (rumors (store_of nt j) n) \<le> length (rumors (store_of nt c) n)"
      using i assms(3) by (auto simp: gossip_inv_def prefixes_def intro: prefix_length_le)
    then show ?thesis using c assms(2) by (auto simp: few_rumors_def)
  next
    case False
    then show ?thesis using i assms(3) by (simp add: gossip_inv_def known_origins_def)
  qed
qed

lemma comparable:
  assumes "net_reach H nt" "few_rumors nt" "j < length (nt_nodes nt)" "k < length (nt_nodes nt)"
  shows "prefix (rumors (store_of nt j) n) (rumors (store_of nt k) n)
     \<or> prefix (rumors (store_of nt k) n) (rumors (store_of nt j) n)"
proof (cases "n \<in> name_of nt ` {..<length (nt_nodes nt)}")
  case True
  then obtain c where c: "c < length (nt_nodes nt)" "n = name_of nt c" by auto
  have "prefix (rumors (store_of nt m) n) (rumors (store_of nt c) n)" if "m < length (nt_nodes nt)" for m
    using reach_gossip [OF assms(1,2)] c that by (simp add: gossip_inv_def prefixes_def)
  from prefix_same_cases [OF this [OF assms(3)] this [OF assms(4)]] show ?thesis .
next
  case False
  then show ?thesis
    using reach_gossip [OF assms(1,2)] assms(3,4) by (simp add: gossip_inv_def known_origins_def)
qed


section \<open>Witnesses\<close>

definition hi_A :: RumorMessage where
  "hi_A = \<lparr>rm_OriginalName = ''A'', rm_ID = 1, rm_Text = ''hi''\<rparr>"

definition sample_A :: node where
  "sample_A = new_node (sample ''A'' [''b:2''] fmempty)"

definition sample_B :: node where
  "sample_B = new_node (sample ''B'' [''c:3''] fmempty)"

definition two_nodes :: network where
  "two_nodes = \<lparr>nt_nodes = [sample_A, sample_B], nt_wire = {}\<rparr>"

lemma two_nodes_sel [simp]:
  "nt_nodes two_nodes = [sample_A, sample_B]" "nt_wire two_nodes = {}"
  "g_name (nd_g sample_A) = ''A''" "g_name (nd_g sample_B) = ''B''"
  "g_messageStorage (nd_g sample_A) = InitMessageStorage ''A''"
  "g_messageStorage (nd_g sample_B) = InitMessageStorage ''B''" "g_peers (nd_g sample_B) = [''c:3'']"
  by (simp_all add: two_nodes_def sample_A_def sample_B_def new_node_def)

lemma two_nodes_reach: "net_reach pad two_nodes"
  unfolding two_nodes_def
proof (rule net_reach.start)
  show "\<forall>nd \<in> set [sample_A, sample_B]. started pad nd"
    using sample_starts(1,3) unfolding started_def sample_A_def sample_B_def by (simp, blast)
qed simp

text \<open>The client of A orders a rumor.\<close>

definition say_hi :: event where
  "say_hi = Order (EmptyClientMessage\<lparr>cm_Rumor := Some \<lparr>cr_Text = ''hi''\<rparr>\<rparr>)"

definition store_hi :: MessageStorage where
  "store_hi = fst (AddRumorMessage (InitMessageStorage ''A'') hi_A)"

lemma store_hi_eq: "AddRumorMessage (InitMessageStorage ''A'') hi_A = (store_hi, True)"
  using AddRumor_accepted [of "InitMessageStorage ''A''" hi_A] by (simp add: store_hi_def hi_A_def prod_eq_iff)

lemma store_hi_rumors: "rumors store_hi = (\<lambda>n. [])(''A'' := [hi_A])"
  by (simp add: store_hi_def AddRumor_rumors IsNewMessage_iff hi_A_def fun_eq_iff)

lemma own_hi: "own_rumor (sample ''A'' [''b:2''] fmempty) ''hi'' = hi_A"
  by (simp add: own_rumor_def hi_A_def GetNextMessageId_def)

lemma sample_A_says_hi:
  "\<exists>nd es. node_event sample_env sample_env sample_A say_hi = Some (Inr (nd, es)) \<and> g_name (nd_g nd) = ''A''
     \<and> g_messageStorage (nd_g nd) = store_hi \<and> g_peers (nd_g nd) = [''b:2'']"
  using own_hi
  by (simp add: node_event_def say_hi_def sample_A_def new_node_def process_client_def processClientMessage_def
      EmptyClientMessage_def ClientMessage_Print_def printed_def printPeers_def processRumorMessage_def store_hi_eq
      arePeersEmpty_def spreadTheRumor_def getRandomPeer_def slice_get_def nil_addr_def handled_def local_run_def
      andthen_def spawn_def)

lemma network_hi: "\<exists>nt. net_reach pad nt \<and> length (nt_nodes nt) = 2 \<and> store_of nt 0 = store_hi \<and> name_of nt 0 = ''A''
   \<and> store_of nt 1 = InitMessageStorage ''B'' \<and> name_of nt 1 = ''B'' \<and> (\<forall>i < 2. g_peers (gossiper nt i) \<noteq> [])"
proof -
  obtain nd es where e: "node_event sample_env sample_env sample_A say_hi = Some (Inr (nd, es))"
    "g_name (nd_g nd) = ''A''" "g_messageStorage (nd_g nd) = store_hi" "g_peers (nd_g nd) = [''b:2'']"
    using sample_A_says_hi by blast
  let ?nt = "\<lparr>nt_nodes = (nt_nodes two_nodes)[0 := nd], nt_wire = nt_wire two_nodes \<union> sent es\<rparr>"
  have "net_reach pad ?nt"
    by (rule net_reach_event [OF two_nodes_reach, where e = sample_env and e' = sample_env and ev = say_hi])
      (use e in \<open>auto simp: event_ok_def say_hi_def EmptyClientMessage_def\<close>)
  moreover have "length (nt_nodes ?nt) = 2 \<and> store_of ?nt 0 = store_hi \<and> name_of ?nt 0 = ''A''
    \<and> store_of ?nt 1 = InitMessageStorage ''B'' \<and> name_of ?nt 1 = ''B'' \<and> (\<forall>i < 2. g_peers (gossiper ?nt i) \<noteq> [])"
    using e(2-4) by (simp add: less_2_cases_iff)
  ultimately show ?thesis by blast
qed

lemma network_hi_few:
  "length (nt_nodes nt) = 2 \<Longrightarrow> store_of nt 0 = store_hi \<Longrightarrow> store_of nt 1 = InitMessageStorage n \<Longrightarrow> few_rumors nt"
  by (auto simp: few_rumors_def less_2_cases_iff store_hi_rumors)

theorem gossip_is_consistent_witness:
  "\<exists>nt. net_reach pad nt \<and> rumors (store_of nt 0) ''A'' = [hi_A]
     \<and> prefix (rumors (store_of nt 1) ''A'') [hi_A] \<and> rumors (store_of nt 1) ''C'' = []"
proof -
  obtain nt where nt: "net_reach pad nt" "length (nt_nodes nt) = 2" "store_of nt 0 = store_hi"
    "name_of nt 0 = ''A''" "store_of nt 1 = InitMessageStorage ''B''" "name_of nt 1 = ''B''"
    using network_hi by blast
  have "''C'' \<notin> name_of nt ` {..<length (nt_nodes nt)}"
    using nt(2,4,6) by (auto simp: numeral_2_eq_2 lessThan_Suc)
  then show ?thesis
    using gossip_is_consistent [OF nt(1) network_hi_few [OF nt(2,3,5)], of 1] nt by (auto simp: store_hi_rumors)
qed


end
