(* ===== verification/Convergence.thy ===== *)
theory Convergence
  imports Network GossiperProps
begin

text \<open>
  From every reachable state of a network its gossipers can still come to hold the same rumors,
  by the events of the protocol alone: a status that the anti-entropy timer sends, the rumor that
  the comparison with it finds missing, and its arrival. One such round is three steps of the
  network; the rounds are counted by the rumors that one gossiper lacks of another.
\<close>

section \<open>One event\<close>

lemma reach_node:
  assumes "net_reach H nt" "i < length (nt_nodes nt)"
  obtains fs0 where "node_reach H UNIV fs0 (nt_nodes nt ! i)"
  using node_of_network [OF assms(1) nth_mem [OF assms(2)]] by blast

text \<open>A packet that is not a block: what the handler returns happens, and the goroutines that it
  wakes leave the rumors alone.\<close>

lemma packet_happens:
  assumes "node_reach H UNIV fs0 nd" "process_packet e (nd_g nd) agp = Inr (g, es)"
    and "gp_BlockPublish (agp_Packet agp) = None"
  shows "\<exists>nd' es'. node_event e e' nd (Packet agp) = Some (Inr (nd', es @ es')) \<and> same_store g (nd_g nd')"
proof -
  have "outcome (nd_g nd) g es \<and> evolves (e_H e) UNIV (nd_g nd) g"
    using packet_outcome [OF assms(2)] packet_evolves [OF assms(2), of UNIV] by simp
  with handled_run [OF reach_wait [OF assms(1)] reach_store [OF assms(1)], of "Inr (g, es)" "e_H e" UNIV e']
  obtain nd' es1 where h: "handled e' nd (Inr (g, es)) = Some (Inr (nd', es1))" by auto
  then obtain es2 where r: "hand_over e' es (spawn es (nd\<lparr>nd_g := g\<rparr>)) = Some (Inr (nd', es2))" "es1 = es @ es2"
    by (auto simp: handled_def local_run_def split: sum.splits)
  have "same_store g (nd_g nd')" using hand_over_same [OF r(1)] by simp
  then show ?thesis using h r(2) assms(2) by (auto simp: node_event_def)
qed

text \<open>What a step keeps when the gossiper that moves learns nothing of its own name.\<close>

definition onward1 :: "Gossiper \<Rightarrow> Gossiper \<Rightarrow> bool" where
  "onward1 g g' \<longleftrightarrow> g_name g' = g_name g \<and> set (g_peers g) \<subseteq> set (g_peers g')
     \<and> rumors (g_messageStorage g') (g_name g) = rumors (g_messageStorage g) (g_name g)
     \<and> (\<forall>n. prefix (rumors (g_messageStorage g) n) (rumors (g_messageStorage g') n))"

definition onward :: "network \<Rightarrow> network \<Rightarrow> bool" where
  "onward nt nt' \<longleftrightarrow> length (nt_nodes nt') = length (nt_nodes nt)
     \<and> (\<forall>i < length (nt_nodes nt). onward1 (gossiper nt i) (gossiper nt' i))"

lemma onward_refl [simp]: "onward nt nt"
  by (simp add: onward_def onward1_def)

lemma onward1_trans: "onward1 g g1 \<Longrightarrow> onward1 g1 g2 \<Longrightarrow> onward1 g g2"
  by (simp add: onward1_def) (meson prefix_order.trans subset_trans)

lemma onward_trans: "onward nt nt1 \<Longrightarrow> onward nt1 nt2 \<Longrightarrow> onward nt nt2"
  by (auto simp: onward_def intro: onward1_trans)

lemma onwardD:
  assumes "onward nt nt'"
  shows "length (nt_nodes nt') = length (nt_nodes nt)"
    and "i < length (nt_nodes nt) \<Longrightarrow> name_of nt' i = name_of nt i"
    and "i < length (nt_nodes nt) \<Longrightarrow> set (g_peers (gossiper nt i)) \<subseteq> set (g_peers (gossiper nt' i))"
    and "i < length (nt_nodes nt) \<Longrightarrow> rumors (store_of nt' i) (name_of nt i) = rumors (store_of nt i) (name_of nt i)"
    and "i < length (nt_nodes nt) \<Longrightarrow> prefix (rumors (store_of nt i) n) (rumors (store_of nt' i) n)"
  using assms by (simp_all add: onward_def onward1_def)

lemma onward_few: "onward nt nt' \<Longrightarrow> few_rumors nt \<Longrightarrow> few_rumors nt'"
  by (simp add: onward_def onward1_def few_rumors_def)

definition learns :: "Gossiper \<Rightarrow> Gossiper \<Rightarrow> bool" where
  "learns g g' \<longleftrightarrow> rumors (g_messageStorage g') = rumors (g_messageStorage g)
     \<or> (\<exists>n r. n \<noteq> g_name g \<and> rumors (g_messageStorage g')
          = (rumors (g_messageStorage g))(n := rumors (g_messageStorage g) n @ [r]))"

lemma step_onward:
  assumes "net_reach H nt" "i < length (nt_nodes nt)" "\<forall>n. ev \<noteq> Rename n"
    and "node_event e e' (nt_nodes nt ! i) ev = Some (Inr (nd', es))"
    and "learns (gossiper nt i) (nd_g nd')"
  shows "onward nt \<lparr>nt_nodes = (nt_nodes nt)[i := nd'], nt_wire = w\<rparr>"
proof -
  obtain fs0 where r: "node_reach H UNIV fs0 (nt_nodes nt ! i)" by (rule reach_node [OF assms(1,2)])
  have "nd_sound (nt_nodes nt ! i) nd' es" by (rule event_sound [OF assms(4) reach_known [OF r]])
  then have p: "set (g_peers (gossiper nt i)) \<subseteq> set (g_peers (nd_g nd'))" by (simp add: nd_sound_def)
  have n: "g_name (nd_g nd') = name_of nt i" by (rule event_on_stores(1) [OF assms(1-4)])
  have "prefix (rumors (store_of nt i) m) (rumors (g_messageStorage (nd_g nd')) m)"
    "rumors (g_messageStorage (nd_g nd')) (name_of nt i) = rumors (store_of nt i) (name_of nt i)" for m
    using assms(5) by (auto simp: learns_def)
  then show ?thesis using p n assms(2) by (auto simp: onward_def onward1_def nth_list_update)
qed

section \<open>One rumor\<close>

definition plain_env :: "digest \<Rightarrow> env" where
  "plain_env H = sample_env\<lparr>e_H := H\<rparr>"

lemma plain_env_sel [simp]: "e_H (plain_env H) = H" "e_clockOrder (plain_env H) = sorted_keys"
  by (simp_all add: plain_env_def sample_env_def)

abbreviation status_packet :: "MessageStorage \<Rightarrow> GossipPacket" where
  "status_packet ms \<equiv> EmptyPacket\<lparr>gp_Status := Some (GetCurrentStatusPacket (sorted_keys (VectorClock ms)) ms)\<rparr>"

abbreviation rumor_packet :: "RumorMessage \<Rightarrow> GossipPacket" where
  "rumor_packet r \<equiv> EmptyPacket\<lparr>gp_Rumor := Some r\<rparr>"

lemma status_sent:
  assumes "i < length (nt_nodes nt)" "g_peers (gossiper nt i) \<noteq> []"
  shows "\<exists>w. net_step H nt \<lparr>nt_nodes = nt_nodes nt, nt_wire = w\<rparr> \<and> status_packet (store_of nt i) \<in> w"
proof -
  let ?nd = "nt_nodes nt ! i" and ?e = "plain_env H"
  obtain p where p: "getRandomPeer (e_rand ?e) (nd_g ?nd) = Inr p"
    using getRandomPeer_in [OF assms(2)] by blast
  have s: "node_event ?e ?e ?nd AntiEntropy = Some (Inr (?nd, [SendPacket p (current_status ?e (nd_g ?nd))]))"
    using assms(2) p by (simp add: node_event_def StartAntiEntropyTimer_def arePeersEmpty_def local_run_def spawn_def
        del: go_map_Inr)
  have "net_step H nt \<lparr>nt_nodes = (nt_nodes nt)[i := ?nd], nt_wire = nt_wire nt \<union> sent [SendPacket p (current_status ?e (nd_g ?nd))]\<rparr>"
    by (rule net_step.event [OF assms(1) _ _ _ s]) (simp_all add: event_ok_def)
  moreover have "status_packet (store_of nt i) \<in> sent [SendPacket p (current_status ?e (nd_g ?nd))]"
    by (simp add: sent_def current_status_def)
  ultimately show ?thesis by (intro exI [of _ "nt_wire nt \<union> sent [SendPacket p (current_status ?e (nd_g ?nd))]"]) simp
qed

lemma rumor_answered:
  assumes "net_reach H nt" "j < length (nt_nodes nt)" "status_packet ms \<in> nt_wire nt"
    and "status_diff sorted_keys (store_of nt j) ms = Some r"
  shows "\<exists>nd' w. net_step H nt \<lparr>nt_nodes = (nt_nodes nt)[j := nd'], nt_wire = w\<rparr> \<and> rumor_packet r \<in> w
    \<and> rumors (g_messageStorage (nd_g nd')) = rumors (store_of nt j)
    \<and> onward nt \<lparr>nt_nodes = (nt_nodes nt)[j := nd'], nt_wire = w\<rparr>"
proof -
  let ?nd = "nt_nodes nt ! j" and ?e = "plain_env H"
  let ?g = "nd_g ?nd"
  obtain a where a: "a \<notin> insert nil_addr (fset (g_statusesChannels ?g))"
    using ex_new_if_finite [of "insert nil_addr (fset (g_statusesChannels ?g))"] infinite_UNIV_listI by auto
  define agp where "agp = \<lparr>agp_Packet = status_packet ms, agp_Address = a\<rparr>"
  obtain f where d: "Diff (sorted_keys (VectorClock (store_of nt j))) (store_of nt j)
      (GetCurrentStatusPacket (sorted_keys (VectorClock ms)) ms) = Inr (Some r, f)"
    using assms(4) by (auto simp: status_diff_def split: sum.splits)
  let ?g1 = "(UpdatePeersIfNeeded ?g a)\<lparr>g_statusesChannels := finsert a (g_statusesChannels ?g)\<rparr>"
  have "processAddressedGossipPacket ?e ?g agp = Inr (?g1, [SendPacket a (rumor_packet r),
      Stdout (''MONGERING with '' @ a @ nl), GoMongering r a])"
    using a d by (simp add: processAddressedGossipPacket_def agp_def processAddressedStatusPacket_def status_diff_of_def
        spreadTheRumor_def Let_def)
  then obtain es where "process_packet ?e ?g agp = Inr (?g1, es)" "SendPacket a (rumor_packet r) \<in> set es"
    by (simp add: process_packet_def andthen_def)
  moreover obtain fs0 where nr: "node_reach H UNIV fs0 ?nd" by (rule reach_node [OF assms(1,2)])
  ultimately obtain nd' es' where
    n: "node_event ?e ?e ?nd (Packet agp) = Some (Inr (nd', es @ es'))" "same_store ?g1 (nd_g nd')"
    using packet_happens [OF nr, of ?e agp ?g1 es ?e] by (auto simp: agp_def)
  have same: "rumors (g_messageStorage (nd_g nd')) = rumors (store_of nt j)" using n(2) by (simp add: same_store_def)
  have "net_step H nt \<lparr>nt_nodes = (nt_nodes nt)[j := nd'], nt_wire = nt_wire nt \<union> sent (es @ es')\<rparr>"
    by (rule net_step.event [OF assms(2) _ _ _ n(1)]) (use assms(3) in \<open>simp_all add: event_ok_def agp_def\<close>)
  moreover have "rumor_packet r \<in> sent (es @ es')"
    using \<open>SendPacket a (rumor_packet r) \<in> set es\<close> by (auto simp: sent_def)
  moreover have "onward nt \<lparr>nt_nodes = (nt_nodes nt)[j := nd'], nt_wire = w\<rparr>" for w
    by (rule step_onward [OF assms(1,2) _ n(1)]) (use same in \<open>simp_all add: learns_def\<close>)
  ultimately show ?thesis using same by blast
qed

lemma rumor_arrives:
  assumes "net_reach H nt" "k < length (nt_nodes nt)" "rumor_packet r \<in> nt_wire nt"
    and "IsNewMessage (store_of nt k) r" "rm_OriginalName r \<noteq> name_of nt k"
  shows "\<exists>nd' w. net_step H nt \<lparr>nt_nodes = (nt_nodes nt)[k := nd'], nt_wire = w\<rparr>
    \<and> rumors (g_messageStorage (nd_g nd')) = rumors (receive_rumor (store_of nt k) r)
    \<and> onward nt \<lparr>nt_nodes = (nt_nodes nt)[k := nd'], nt_wire = w\<rparr>"
proof -
  let ?nd = "nt_nodes nt ! k" and ?e = "plain_env H"
  let ?g = "nd_g ?nd"
  define agp where "agp = \<lparr>agp_Packet = rumor_packet r, agp_Address = ''a:1''\<rparr>"
  have "IsNewMessage (g_messageStorage (UpdatePeersIfNeeded ?g ''a:1'')) r" using assms(4) by simp
  from rumor_new [OF this UpdatePeers_not_empty, of ?e "''a:1''"] obtain g1 es where
    "processAddressedGossipPacket ?e ?g agp = Inr (g1, es)" "g_messageStorage g1 = receive_rumor (store_of nt k) r"
    by (auto simp: packet_rumor agp_def receive_rumor_def)
  then obtain es1 where "process_packet ?e ?g agp = Inr (g1, es1)" by (simp add: process_packet_def andthen_def)
  moreover obtain fs0 where nr: "node_reach H UNIV fs0 ?nd" by (rule reach_node [OF assms(1,2)])
  ultimately obtain nd' es' where
    n: "node_event ?e ?e ?nd (Packet agp) = Some (Inr (nd', es1 @ es'))" "same_store g1 (nd_g nd')"
    using packet_happens [OF nr, of ?e agp g1 es1 ?e] by (auto simp: agp_def)
  have new: "rumors (g_messageStorage (nd_g nd')) = rumors (receive_rumor (store_of nt k) r)"
    using n(2) \<open>g_messageStorage g1 = _\<close> by (simp add: same_store_def)
  have "net_step H nt \<lparr>nt_nodes = (nt_nodes nt)[k := nd'], nt_wire = nt_wire nt \<union> sent (es1 @ es')\<rparr>"
    by (rule net_step.event [OF assms(2) _ _ _ n(1)]) (use assms(3) in \<open>simp_all add: event_ok_def agp_def\<close>)
  moreover have "onward nt \<lparr>nt_nodes = (nt_nodes nt)[k := nd'], nt_wire = w\<rparr>" for w
    by (rule step_onward [OF assms(1,2) _ n(1)])
      (use new assms(4,5) in \<open>auto simp: learns_def receive_rumor_def AddRumor_rumors\<close>)
  ultimately show ?thesis using new by blast
qed

section \<open>One round\<close>

abbreviation net_run :: "digest \<Rightarrow> network \<Rightarrow> network \<Rightarrow> bool" where
  "net_run H \<equiv> (net_step H)\<^sup>*\<^sup>*"

lemma run_reach: "net_run H nt nt' \<Longrightarrow> net_reach H nt \<Longrightarrow> net_reach H nt'"
  by (induction rule: rtranclp_induct) (auto intro: net_reach.step)

lemma stores_good:
  assumes "net_reach H nt" "few_rumors nt" "j < length (nt_nodes nt)"
  shows "ms_good (store_of nt j)"
  using reach_stores [OF assms] by (simp add: ms_good_def)

lemma status_diff_new:
  assumes "ms_good a" "ms_good b" "status_diff sorted_keys a b = Some r"
  shows "IsNewMessage b r" "length (rumors b (rm_OriginalName r)) < length (rumors a (rm_OriginalName r))"
proof -
  obtain f where "Diff (sorted_keys (VectorClock a)) a (GetCurrentStatusPacket (sorted_keys (VectorClock b)) b) = Inr (Some r, f)"
    using assms(3) by (auto simp: status_diff_def split: sum.splits)
  from Diff_status_Some [OF _ range_order_sorted_keys this] assms(1)
  have d: "rm_ID r = clock b (rm_OriginalName r) + 1" "clock b (rm_OriginalName r) < clock a (rm_OriginalName r)"
    by (auto simp: ms_good_def)
  show "IsNewMessage b r" using d(1) by (simp add: IsNewMessage_iff)
  show "length (rumors b (rm_OriginalName r)) < length (rumors a (rm_OriginalName r))"
    using d(2) clock_less_length [OF assms(1,2)] by blast
qed

text \<open>A status of \<open>k\<close>, the rumor that \<open>j\<close> finds, its arrival at \<open>k\<close>.\<close>

lemma one_round:
  assumes nt: "net_reach H nt" "few_rumors nt" and jk: "j < length (nt_nodes nt)" "k < length (nt_nodes nt)" "j \<noteq> k"
    and p: "g_peers (gossiper nt k) \<noteq> []" and d: "status_diff sorted_keys (store_of nt j) (store_of nt k) = Some r"
  shows "\<exists>nt'. net_run H nt nt' \<and> onward nt nt' \<and> rumors (store_of nt' j) = rumors (store_of nt j)
     \<and> rumors (store_of nt' k) = rumors (receive_rumor (store_of nt k) r)"
proof -
  note new = status_diff_new [OF stores_good [OF nt jk(1)] stores_good [OF nt jk(2)] d]
  have "prefix (rumors (store_of nt j) (name_of nt k)) (rumors (store_of nt k) (name_of nt k))"
    using reach_gossip [OF nt] jk(1,2) by (simp add: gossip_inv_def prefixes_def)
  then have other: "rm_OriginalName r \<noteq> name_of nt k" using new(2) prefix_length_le by fastforce
  obtain w1 where s1: "net_step H nt \<lparr>nt_nodes = nt_nodes nt, nt_wire = w1\<rparr>" "status_packet (store_of nt k) \<in> w1"
    using status_sent [OF jk(2) p] by blast
  let ?nt1 = "\<lparr>nt_nodes = nt_nodes nt, nt_wire = w1\<rparr>"
  have r1: "net_reach H ?nt1" by (rule net_reach.step [OF nt(1) s1(1)])
  obtain ndj w2 where s2: "net_step H ?nt1 \<lparr>nt_nodes = (nt_nodes nt)[j := ndj], nt_wire = w2\<rparr>" "rumor_packet r \<in> w2"
    "rumors (g_messageStorage (nd_g ndj)) = rumors (store_of nt j)"
    "onward ?nt1 \<lparr>nt_nodes = (nt_nodes nt)[j := ndj], nt_wire = w2\<rparr>"
    using rumor_answered [OF r1, of j "store_of nt k" r] jk(1) s1(2) d by auto
  let ?nt2 = "\<lparr>nt_nodes = (nt_nodes nt)[j := ndj], nt_wire = w2\<rparr>"
  have r2: "net_reach H ?nt2" by (rule net_reach.step [OF r1 s2(1)])
  have k2: "nt_nodes ?nt2 ! k = nt_nodes nt ! k" using jk by simp
  obtain ndk w3 where s3: "net_step H ?nt2 \<lparr>nt_nodes = (nt_nodes nt)[j := ndj, k := ndk], nt_wire = w3\<rparr>"
    "rumors (g_messageStorage (nd_g ndk)) = rumors (receive_rumor (store_of nt k) r)"
    "onward ?nt2 \<lparr>nt_nodes = (nt_nodes nt)[j := ndj, k := ndk], nt_wire = w3\<rparr>"
    using rumor_arrives [OF r2, of k r] jk s2(2) new(1) other by auto
  let ?nt3 = "\<lparr>nt_nodes = (nt_nodes nt)[j := ndj, k := ndk], nt_wire = w3\<rparr>"
  have "net_run H nt ?nt3"
    using s1(1) s2(1) s3(1) by (meson converse_rtranclp_into_rtranclp rtranclp.rtrancl_refl)
  moreover have "onward nt ?nt3"
    using onward_trans [OF _ onward_trans [OF s2(4) s3(3)], of nt] by (simp add: onward_def onward1_def)
  ultimately show ?thesis using jk s2(3) s3(2) by (intro exI [of _ ?nt3]) simp
qed

section \<open>All rounds\<close>

definition caught_up :: "network \<Rightarrow> nat \<Rightarrow> nat \<Rightarrow> bool" where
  "caught_up nt k i \<longleftrightarrow> rumors (store_of nt k) (name_of nt i) = rumors (store_of nt i) (name_of nt i)"

lemma missing_rumors: "rumors a = rumors a' \<Longrightarrow> rumors b = rumors b' \<Longrightarrow> missing rumors a b = missing rumors a' b'"
  by (simp add: missing_def)

lemma catch_up:
  assumes "net_reach H nt" "few_rumors nt" "j < length (nt_nodes nt)" "k < length (nt_nodes nt)"
    and "g_peers (gossiper nt k) \<noteq> []"
  shows "\<exists>nt'. net_run H nt nt' \<and> onward nt nt' \<and> caught_up nt' k j"
  using assms
proof (induction "missing rumors (store_of nt j) (store_of nt k)" arbitrary: nt rule: less_induct)
  case less
  note g = stores_good [OF less.prems(1,2)]
  show ?case
  proof (cases "j = k \<or> status_diff sorted_keys (store_of nt j) (store_of nt k) = None")
    case True
    have "prefix (rumors (store_of nt k) (name_of nt j)) (rumors (store_of nt j) (name_of nt j))"
      using reach_gossip [OF less.prems(1,2)] less.prems(3,4) by (simp add: gossip_inv_def prefixes_def)
    moreover have "length (rumors (store_of nt j) (name_of nt j)) \<le> length (rumors (store_of nt k) (name_of nt j))"
      using True mongering_stops [OF g [OF less.prems(3)] g [OF less.prems(4)] range_order_sorted_keys] by auto
    ultimately have "caught_up nt k j" by (auto simp: caught_up_def prefix_def)
    then show ?thesis by (intro exI [of _ nt]) simp
  next
    case False
    then obtain r where r: "j \<noteq> k" "status_diff sorted_keys (store_of nt j) (store_of nt k) = Some r" by blast
    from one_round [OF less.prems(1-4) r(1) less.prems(5) r(2)] obtain nt1 where nt1: "net_run H nt nt1" "onward nt nt1"
      "rumors (store_of nt1 j) = rumors (store_of nt j)" "rumors (store_of nt1 k) = rumors (receive_rumor (store_of nt k) r)"
      by blast
    have "missing rumors (store_of nt1 j) (store_of nt1 k) < missing rumors (store_of nt j) (store_of nt k)"
      unfolding missing_rumors [OF nt1(3,4)]
      by (rule exchange.missing_decreases [OF g [OF less.prems(3)] g [OF less.prems(4)] r(2)])
    moreover have "g_peers (gossiper nt1 k) \<noteq> []" using onwardD(3) [OF nt1(2) less.prems(4)] less.prems(5) by auto
    ultimately obtain nt' where "net_run H nt1 nt'" "onward nt1 nt'" "caught_up nt' k j"
      using less.hyps [of nt1] run_reach [OF nt1(1) less.prems(1)] onward_few [OF nt1(2) less.prems(2)]
        onwardD(1) [OF nt1(2)] less.prems(3,4) by auto
    then show ?thesis using nt1(1,2) onward_trans by (meson rtranclp_trans)
  qed
qed

lemma caught_up_onward:
  assumes "onward nt nt'" "net_reach H nt'" "few_rumors nt'" "k < length (nt_nodes nt)" "i < length (nt_nodes nt)"
    and "caught_up nt k i"
  shows "caught_up nt' k i"
proof -
  have n: "name_of nt' i = name_of nt i" by (rule onwardD(2) [OF assms(1,5)])
  have "prefix (rumors (store_of nt' k) (name_of nt i)) (rumors (store_of nt' i) (name_of nt i))"
    using reach_gossip [OF assms(2,3)] assms(4,5) onwardD(1) [OF assms(1)]
    by (auto simp: gossip_inv_def prefixes_def n [symmetric])
  then show ?thesis
    using onwardD(5) [OF assms(1,4), of "name_of nt i"] onwardD(4) [OF assms(1,5)] assms(6) n
    by (auto simp: caught_up_def dest: prefix_order.antisym)
qed

lemma all_catch_up:
  assumes "net_reach H nt" "few_rumors nt" "\<forall>i < length (nt_nodes nt). g_peers (gossiper nt i) \<noteq> []"
    and "set ps \<subseteq> {..<length (nt_nodes nt)} \<times> {..<length (nt_nodes nt)}"
  shows "\<exists>nt'. net_run H nt nt' \<and> onward nt nt' \<and> (\<forall>(k, i) \<in> set ps. caught_up nt' k i)"
  using assms(4)
proof (induction ps)
  case Nil
  then show ?case by (intro exI [of _ nt]) simp
next
  case (Cons q ps)
  obtain k i where q: "q = (k, i)" "k < length (nt_nodes nt)" "i < length (nt_nodes nt)" using Cons.prems by (cases q) auto
  from Cons obtain nt1 where nt1: "net_run H nt nt1" "onward nt nt1" "\<forall>(k, i) \<in> set ps. caught_up nt1 k i" by auto
  note len = onwardD(1) [OF nt1(2)]
  have r1: "net_reach H nt1" "few_rumors nt1"
    using run_reach [OF nt1(1) assms(1)] onward_few [OF nt1(2) assms(2)] by simp_all
  have "g_peers (gossiper nt1 k) \<noteq> []" using onwardD(3) [OF nt1(2) q(2)] assms(3) q(2) by auto
  from catch_up [OF r1, of i k, OF _ _ this] q len obtain nt' where
    nt': "net_run H nt1 nt'" "onward nt1 nt'" "caught_up nt' k i" by auto
  have r': "net_reach H nt'" "few_rumors nt'"
    using run_reach [OF nt'(1) r1(1)] onward_few [OF nt'(2) r1(2)] by simp_all
  have "\<forall>(k, i) \<in> set ps. caught_up nt' k i"
    using nt1(3) Cons.prems caught_up_onward [OF nt'(2) r'] len by fastforce
  then show ?case
    using q(1) nt'(3) rtranclp_trans [OF nt1(1) nt'(1)] onward_trans [OF nt1(2) nt'(2)] by (intro exI [of _ nt']) auto
qed



end
