(* ===== verification/FileExchange.thy ===== *)
theory FileExchange
  imports NodeProps
begin

text \<open>
  A file on its way between two neighbouring gossipers, through the handlers of both: the order
  to share at one, the order to download at the other, and then every packet between them. The
  exchange refines \<open>fetch\<close> of \<open>DownloadThread\<close>, which has the downloading goroutine alone.
\<close>

section \<open>The exchange of packets\<close>

definition packets_to :: "udpaddr \<Rightarrow> effect list \<Rightarrow> GossipPacket list" where
  "packets_to a es = List.map_filter (\<lambda>ef. case ef of SendPacket b p \<Rightarrow> if b = a then Some p else None | _ \<Rightarrow> None) es"

text \<open>\<open>exchange n\<close>: the packet goes to the sharer at \<open>a\<close>, the packet that it sends to the
  downloader at \<open>b\<close> goes there, and so on for at most \<open>n\<close> rounds, until the downloader sends
  nothing more.\<close>

fun exchange :: "env \<Rightarrow> env \<Rightarrow> udpaddr \<Rightarrow> udpaddr \<Rightarrow> nat \<Rightarrow> Gossiper \<Rightarrow> node \<Rightarrow> GossipPacket
    \<Rightarrow> (Gossiper \<times> node) option" where
  "exchange eA eB a b 0 gA nB packet = None"
| "exchange eA eB a b (Suc n) gA nB packet =
     (case process_packet eA gA \<lparr>agp_Packet = packet, agp_Address = b\<rparr> of
        Inl e \<Rightarrow> None
      | Inr (gA, es) \<Rightarrow>
         (case packets_to b es of
            [reply] \<Rightarrow>
              (case node_event eB eB nB (Packet \<lparr>agp_Packet = reply, agp_Address = a\<rparr>) of
                 Some (Inr (nB, es)) \<Rightarrow>
                   (case packets_to a es of
                      [] \<Rightarrow> Some (gA, nB)
                    | [packet] \<Rightarrow> exchange eA eB a b n gA nB packet
                    | _ \<Rightarrow> None)
               | _ \<Rightarrow> None)
          | _ \<Rightarrow> None))"

section \<open>The two sides\<close>

lemma packets_to_out [simp]: "packets_to a (map Stdout out) = []"
  by (induction out) (simp_all add: packets_to_def List.map_filter_def)

lemma packets_to_simps [simp]:
  "packets_to a [] = []" "packets_to a (SendPacket b p # es) = (if b = a then [p] else []) @ packets_to a es"
  "packets_to a (Stdout s # es) = packets_to a es" "packets_to a (ToDownloading src r # es) = packets_to a es"
  "packets_to a (GoDownloading src h # es) = packets_to a es" "packets_to a (es @ es') = packets_to a es @ packets_to a es'"
  by (simp_all add: packets_to_def List.map_filter_def)

definition answers_with :: "env \<Rightarrow> Gossiper \<Rightarrow> (byte list \<Rightarrow> byte list option) \<Rightarrow> bool" where
  "answers_with e g ans \<longleftrightarrow> (\<forall>h d. ans h = Some d \<longrightarrow> requested_data e g h = Some d)"

definition routes_to :: "Gossiper \<Rightarrow> string \<Rightarrow> udpaddr \<Rightarrow> bool" where
  "routes_to g n a \<longleftrightarrow> fmlookup (g_nextHop g) n = Some a \<and> a \<noteq> nil_addr"

lemma routes_send: "routes_to g n a \<Longrightarrow> sendPacketWithNextHop g n p = [SendPacket a p]"
  by (simp add: routes_to_def sendPacketWithNextHop_def)

lemma UpdatePeers_same [simp]:
  "g_name (UpdatePeersIfNeeded g a) = g_name g" "g_nextHop (UpdatePeersIfNeeded g a) = g_nextHop g"
  "g_downloadingFilesChannels (UpdatePeersIfNeeded g a) = g_downloadingFilesChannels g"
  "routes_to (UpdatePeersIfNeeded g a) n b = routes_to g n b"
  "requested_data e (UpdatePeersIfNeeded g a) h = requested_data e g h"
  "answers_with e (UpdatePeersIfNeeded g a) ans = answers_with e g ans"
proof -
  show r: "requested_data e (UpdatePeersIfNeeded g a) h = requested_data e g h" for h
    by (simp add: requested_data_def Let_def cong: option.case_cong)
  show "answers_with e (UpdatePeersIfNeeded g a) ans = answers_with e g ans"
    by (simp add: answers_with_def r)
qed (simp_all add: UpdatePeersIfNeeded_def routes_to_def)

lemma print_data [simp]:
  "printed g (AddressedGossipPacket_Print \<lparr>agp_Packet = EmptyPacket\<lparr>gp_DataRequest := x\<rparr>, agp_Address = a\<rparr>) = []"
  "printed g (AddressedGossipPacket_Print \<lparr>agp_Packet = EmptyPacket\<lparr>gp_DataReply := y\<rparr>, agp_Address = a\<rparr>) = []"
  by (simp_all add: printed_def AddressedGossipPacket_Print_def)

lemma serve_request:
  assumes "dq_Destination dq = g_name g" "requested_data e g (dq_HashValue dq) = Some d" "routes_to g (dq_Origin dq) b"
  shows "process_packet e g \<lparr>agp_Packet = EmptyPacket\<lparr>gp_DataRequest := Some dq\<rparr>, agp_Address = c\<rparr>
    = Inr (UpdatePeersIfNeeded g c, [SendPacket b (EmptyPacket\<lparr>gp_DataReply := Some
        \<lparr>dp_Origin = g_name g, dp_Destination = dq_Origin dq, dp_HopLimit = DefaultHopLimit,
         dp_HashValue = dq_HashValue dq, dp_Data = d\<rparr>\<rparr>)])"
  using assms routes_send [of "UpdatePeersIfNeeded g c" "dq_Origin dq" b]
  by (simp add: process_packet_def processAddressedGossipPacket_def processDataRequest_def andthen_def Let_def)

lemma receive_reply:
  assumes "dp_Destination r = g_name (nd_g nB)" "dp_Origin r = src"
    and "src |\<in>| g_downloadingFilesChannels (nd_g nB)" "fmlookup (nd_downloading nB) src = Some th"
    and "file_downloading_step e src (DlReply r) (UpdatePeersIfNeeded (nd_g nB) a) th = (g', th', es)"
  shows "node_event e e nB (Packet \<lparr>agp_Packet = EmptyPacket\<lparr>gp_DataReply := Some r\<rparr>, agp_Address = a\<rparr>)
    = Some (Inr (nB\<lparr>nd_g := g', nd_downloading := (case th' of None \<Rightarrow> fmdrop src (nd_downloading nB)
         | Some t \<Rightarrow> fmupd src t (nd_downloading nB))\<rparr>, ToDownloading src r # es))"
proof -
  have "processAddressedGossipPacket e (nd_g nB) \<lparr>agp_Packet = EmptyPacket\<lparr>gp_DataReply := Some r\<rparr>, agp_Address = a\<rparr>
      = Inr (UpdatePeersIfNeeded (nd_g nB) a, [ToDownloading src r])"
    using assms(1-3) by (simp add: processAddressedGossipPacket_def processDataReply_def Let_def)
  then show ?thesis
    using assms(4,5)
    by (simp add: node_event_def process_packet_def andthen_def handled_def local_run_def download_event_def
        split: option.split)
qed

lemma step_of_reply:
  "dp_HashValue r = dp_HashValue r' \<Longrightarrow> dp_Data r = dp_Data r' \<Longrightarrow>
   download_step H ord src (DlReply r) st = download_step H ord src (DlReply r') st"
proof -
  assume r: "dp_HashValue r = dp_HashValue r'" "dp_Data r = dp_Data r'"
  have e: "df_processDataReply H fs df r = df_processDataReply H fs df r'" for fs df
    unfolding df_processDataReply_def r ..
  show ?thesis unfolding download_step_def ProcessDataReply_def dl_event.case e ..
qed

lemma step_end_quiet: "download_step H ord src (DlReply r) st = ((fs, dfm, None), hs) \<Longrightarrow> hs = []"
  by (auto simp: download_step_def Let_def split: prod.splits option.splits if_splits)

section \<open>The exchange refines the download\<close>

definition downloading_state :: "node \<Rightarrow> string \<Rightarrow> filesystem \<times> DownloadingFilesManager \<times> dl_thread \<Rightarrow> bool" where
  "downloading_state nB src st \<longleftrightarrow> (case st of (fs, dfm, th) \<Rightarrow>
     g_disk (nd_g nB) = fs \<and> g_downloadingFilesManager (nd_g nB) = dfm
     \<and> fmlookup (nd_downloading nB) src = Some th \<and> src |\<in>| g_downloadingFilesChannels (nd_g nB))"

lemma exchange_fetch:
  assumes "fetch (e_H eB) (e_chunkOrder eB) (g_name gA) ans n (fs, dfm, th) h = Some (fs', dfm')"
    and "downloading_state nB (g_name gA) (fs, dfm, th)"
    and "routes_to (nd_g nB) (g_name gA) a" "routes_to gA (g_name (nd_g nB)) b" "answers_with eA gA ans"
  shows "\<exists>gA' nB'. exchange eA eB a b n gA nB (data_request (nd_g nB) (g_name gA) h) = Some (gA', nB')
     \<and> g_disk (nd_g nB') = fs' \<and> g_downloadingFilesManager (nd_g nB') = dfm'
     \<and> g_name gA |\<notin>| fmdom (nd_downloading nB')"
  using assms
proof (induction n arbitrary: fs dfm th h gA nB)
  case (Suc n)
  let ?src = "g_name gA" and ?gA = "UpdatePeersIfNeeded gA b" and ?gB = "UpdatePeersIfNeeded (nd_g nB) a"
  obtain d where d: "ans h = Some d" using Suc.prems(1) by (auto split: option.splits)
  define r where "r = \<lparr>dp_Origin = ?src, dp_Destination = g_name (nd_g nB), dp_HopLimit = DefaultHopLimit,
         dp_HashValue = h, dp_Data = d\<rparr>"
  have served: "process_packet eA gA \<lparr>agp_Packet = data_request (nd_g nB) ?src h, agp_Address = b\<rparr>
      = Inr (?gA, [SendPacket b (EmptyPacket\<lparr>gp_DataReply := Some r\<rparr>)])"
    using serve_request [of "\<lparr>dq_Origin = g_name (nd_g nB), dq_Destination = ?src, dq_HopLimit = DefaultHopLimit,
        dq_HashValue = h\<rparr>" gA eA d b b] d Suc.prems(4,5)
    by (simp add: data_request_def r_def answers_with_def)
  obtain fs1 dfm1 th1 hs where st: "download_step (e_H eB) (e_chunkOrder eB) ?src (DlReply r) (fs, dfm, th) = ((fs1, dfm1, th1), hs)"
    by (metis prod_cases3 surj_pair)
  have f: "fetch (e_H eB) (e_chunkOrder eB) ?src ans (Suc n) (fs, dfm, th) h =
      (case ((fs1, dfm1, th1), hs) of ((fs, dfm, None), _) \<Rightarrow> Some (fs, dfm)
         | ((fs, dfm, Some th), [h']) \<Rightarrow> fetch (e_H eB) (e_chunkOrder eB) ?src ans n (fs, dfm, th) h'
         | ((fs, dfm, Some th), _) \<Rightarrow> None)"
    using d st step_of_reply [of r "\<lparr>dp_Origin = ?src, dp_Destination = [], dp_HopLimit = 0, dp_HashValue = h, dp_Data = d\<rparr>"]
    by (simp add: r_def)
  define g1 where "g1 = (let g = ?gB\<lparr>g_disk := fs1, g_downloadingFilesManager := dfm1\<rparr> in if th1 = None
      then g\<lparr>g_downloadingFilesChannels := g_downloadingFilesChannels g |-| {|?src|}\<rparr> else g)"
  have g1: "g_disk g1 = fs1" "g_downloadingFilesManager g1 = dfm1" "g_name g1 = g_name (nd_g nB)"
    "routes_to g1 n c = routes_to (nd_g nB) n c"
    "th1 \<noteq> None \<Longrightarrow> g_downloadingFilesChannels g1 = g_downloadingFilesChannels (nd_g nB)" for n c
    by (simp_all add: g1_def Let_def routes_to_def) auto
  define out where "out = map Stdout (download_output (e_H eB) fs dfm ?src (DlReply r))"
  have silent: "packets_to c out = []" for c by (simp add: out_def)
  have step: "file_downloading_step eB ?src (DlReply r) ?gB th
      = (g1, th1, out @ concat (map (\<lambda>h. [SendPacket a (data_request (nd_g nB) ?src h)]) hs))"
  proof -
    have "routes_to g1 ?src a" using g1(4) Suc.prems(3) by simp
    then have "sendPacketWithNextHop g1 ?src (data_request g1 ?src h) = [SendPacket a (data_request (nd_g nB) ?src h)]" for h
      by (simp add: routes_send data_request_def g1(3))
    moreover have "file_downloading_step eB ?src (DlReply r) ?gB th
        = (g1, th1, out @ concat (map (\<lambda>h. sendPacketWithNextHop g1 ?src (data_request g1 ?src h)) hs))"
      using st Suc.prems(2) by (simp add: file_downloading_step_def downloading_state_def g1_def out_def Let_def)
    ultimately show ?thesis by simp
  qed
  let ?nB = "nB\<lparr>nd_g := g1, nd_downloading := (case th1 of None \<Rightarrow> fmdrop ?src (nd_downloading nB)
         | Some t \<Rightarrow> fmupd ?src t (nd_downloading nB))\<rparr>"
  have got: "node_event eB eB nB (Packet \<lparr>agp_Packet = EmptyPacket\<lparr>gp_DataReply := Some r\<rparr>, agp_Address = a\<rparr>)
     = Some (Inr (?nB, ToDownloading ?src r # out @ concat (map (\<lambda>h. [SendPacket a (data_request (nd_g nB) ?src h)]) hs)))"
    by (rule receive_reply [OF _ _ _ _ step]) (use Suc.prems(2) in \<open>auto simp: r_def downloading_state_def\<close>)
  show ?case
  proof (cases th1)
    case None
    then have "hs = []" using step_end_quiet st by blast
    with None Suc.prems(1) f served got g1(1,2) silent show ?thesis by auto
  next
    case (Some th2)
    then obtain h' where h: "hs = [h']" "fetch (e_H eB) (e_chunkOrder eB) ?src ans n (fs1, dfm1, th2) h' = Some (fs', dfm')"
      using Suc.prems(1) f by (auto split: list.splits)
    have e: "exchange eA eB a b (Suc n) gA nB (data_request (nd_g nB) ?src h)
        = exchange eA eB a b n ?gA ?nB (data_request (nd_g ?nB) (g_name ?gA) h')"
      using served got h(1) g1(3) silent by (simp add: data_request_def)
    have "\<exists>gA' nB'. exchange eA eB a b n ?gA ?nB (data_request (nd_g ?nB) (g_name ?gA) h') = Some (gA', nB')
       \<and> g_disk (nd_g nB') = fs' \<and> g_downloadingFilesManager (nd_g nB') = dfm' \<and> g_name ?gA |\<notin>| fmdom (nd_downloading nB')"
      by (rule Suc.IH) (use h(2) Suc.prems(2-5) g1 Some in \<open>auto simp: downloading_state_def\<close>)
    then show ?thesis unfolding e by simp
  qed
qed simp

section \<open>From the order to the file\<close>

definition share_order :: "string \<Rightarrow> ClientMessage" where
  "share_order p = EmptyClientMessage\<lparr>cm_ToShare := Some \<lparr>ts_Path = p\<rparr>\<rparr>"

definition download_order :: "string \<Rightarrow> string \<Rightarrow> hash \<Rightarrow> ClientMessage" where
  "download_order n src h = EmptyClientMessage\<lparr>cm_ToDownload := Some
     \<lparr>td_Name = n, td_Destination = src, td_HashValue = h\<rparr>\<rparr>"

lemma share_ordered:
  assumes "ShareFile (e_H e) (g_disk g) (g_sharedFilesManager g) p = Inr (fs, sfm, Some (name, mh, sz))"
  shows "\<exists>g' es. process_client e g (share_order p) = Inr (g', es) \<and> g_disk g' = fs \<and> g_sharedFilesManager g' = sfm
     \<and> g_name g' = g_name g \<and> g_nextHop g' = g_nextHop g"
proof -
  define tx where "tx = \<lparr>tx_File = \<lparr>f_Name = name, f_Size = word_of_nat sz, f_MetafileHash = mh\<rparr>,
    tx_HopLimit = BlockchainTxHopLimit\<rparr>"
  obtain bm new where tx: "AddTransaction (g_blockchainManager g) tx = (bm, new)" by fastforce
  let ?g = "g\<lparr>g_disk := fs, g_sharedFilesManager := sfm, g_blockchainManager := bm\<rparr>"
  have "\<exists>es. processClientToShare e g \<lparr>ts_Path = p\<rparr> = Inr (?g, es)"
    using assms tx by (simp add: processClientToShare_def Let_def tx_def)
  then obtain es where "processClientToShare e g \<lparr>ts_Path = p\<rparr> = Inr (?g, es)" by blast
  then show ?thesis
    by (simp add: process_client_def processClientMessage_def share_order_def andthen_def)
qed

lemma download_ordered:
  assumes "src \<noteq> []" "\<not> has_key (dfm_downloadingFiles (g_downloadingFilesManager (nd_g nd))) src"
    and "routes_to (nd_g nd) src a"
  shows "\<exists>nd' es. node_event e e' nd (Order (download_order n src h)) = Some (Inr (nd', es))
     \<and> packets_to a es = [data_request (nd_g nd') src h] \<and> g_name (nd_g nd') = g_name (nd_g nd)
     \<and> routes_to (nd_g nd') src a
     \<and> downloading_state nd' src (g_disk (nd_g nd),
          fst (StartDownloadingFromOrigin (g_downloadingFilesManager (nd_g nd)) src n h), start_thread h)"
proof -
  let ?g = "nd_g nd"
  let ?dfm = "fst (StartDownloadingFromOrigin (g_downloadingFilesManager ?g) src n h)"
  let ?g' = "?g\<lparr>g_downloadingFilesManager := ?dfm, g_downloadingFilesChannels := finsert src (g_downloadingFilesChannels ?g)\<rparr>"
  define dfm where "dfm = ?dfm"
  have s: "StartDownloadingFromOrigin (g_downloadingFilesManager ?g) src n h = (dfm, True)"
    using assms(2) by (simp add: StartDownloadingFromOrigin_def dfm_def)
  have r: "routes_to ?g' src a" using assms(3) by (simp add: routes_to_def)
  have "processClientDataRequest ?g \<lparr>td_Name = n, td_Destination = src, td_HashValue = h\<rparr>
      = Inr (?g', sendPacketWithNextHop ?g' src (data_request ?g' src h) @ [GoDownloading src h])"
    unfolding processClientDataRequest_def dfm_def [symmetric] using assms(1) by (simp add: s Let_def)
  then have "processClientDataRequest ?g \<lparr>td_Name = n, td_Destination = src, td_HashValue = h\<rparr>
      = Inr (?g', [SendPacket a (data_request ?g' src h), GoDownloading src h])"
    unfolding routes_send [OF r] by simp
  then have "process_client e ?g (download_order n src h) = Inr (?g', printed ?g (ClientMessage_Print (download_order n src h))
      @ [SendPacket a (data_request ?g' src h), GoDownloading src h])"
    by (simp add: process_client_def processClientMessage_def download_order_def andthen_def)
  moreover have "printed ?g (ClientMessage_Print (download_order n src h)) =
      [Stdout (fst (ClientMessage_Print (download_order n src h))), Stdout (''PEERS '' @ strings_Join (g_peers ?g) '','' @ nl)]"
    by (simp add: printed_def ClientMessage_Print_def download_order_def printPeers_def)
  ultimately have e: "node_event e e' nd (Order (download_order n src h)) = Some (Inr
      (nd\<lparr>nd_g := ?g', nd_downloading := fmupd src (start_thread h) (nd_downloading nd)\<rparr>,
       [Stdout (fst (ClientMessage_Print (download_order n src h))), Stdout (''PEERS '' @ strings_Join (g_peers ?g) '','' @ nl),
        SendPacket a (data_request ?g' src h), GoDownloading src h]))"
    by (simp add: node_event_def handled_def local_run_def spawn_def start_downloading_def)
  show ?thesis unfolding e using r by (simp add: downloading_state_def)
qed

lemma serves_shared:
  "answers_with e g (sfm_GetChunkOrMetafile (e_sharedOrder e (sfm_sharedFiles (g_sharedFilesManager g))) (g_disk g)
     (g_sharedFilesManager g))"
  by (simp add: answers_with_def requested_data_def Let_def)

text \<open>From the order to download, at any later state of the sharer.\<close>

lemma ordered_file_arrives:
  assumes "files_reach H fsA0 fsA sfmA dfmA" "startable fsA0"
    and "node_at fsA (Join (SharedFilesPath fsA) p) = Some (Data bs)" "bs \<noteq> []"
    and "ShareFile H fsA sfmA p = Inr (g_disk gA, g_sharedFilesManager gA, Some (name, mh, sz))"
    and "range_order (e_sharedOrder eA (sfm_sharedFiles (g_sharedFilesManager gA))) (sfm_sharedFiles (g_sharedFilesManager gA))"
    and "inj_on (Sum256 H) (held (g_disk gA) (g_sharedFilesManager gA) \<union> set (split_chunks bs))"
    and "files_reach H fsB0 (g_disk (nd_g nB)) sfmB (g_downloadingFilesManager (nd_g nB))" "startable fsB0"
    and "e_H eB = H" "set_order (e_chunkOrder eB)" "download_name n" "g_name gA \<noteq> []"
    and "\<not> has_key (dfm_downloadingFiles (g_downloadingFilesManager (nd_g nB))) (g_name gA)"
    and "node_at (g_disk (nd_g nB)) (DownloadsChunksPath (g_disk (nd_g nB)) @ [n]) = None"
    and "node_at (g_disk (nd_g nB)) (DownloadsPath (g_disk (nd_g nB)) @ [n]) \<noteq> Some Dir"
    and "routes_to (nd_g nB) (g_name gA) a" "routes_to gA (g_name (nd_g nB)) b"
  obtains nB1 es request gA2 nB2 where
    "node_event eB eB nB (Order (download_order n (g_name gA) mh)) = Some (Inr (nB1, es))"
    "packets_to a es = [request]" "exchange eA eB a b 257 gA nB1 request = Some (gA2, nB2)"
    "node_at (g_disk (nd_g nB2)) (DownloadsPath (g_disk (nd_g nB)) @ [n]) = Some (Data bs)"
    "g_name gA |\<notin>| fmdom (nd_downloading nB2)"
    "has_key (dfm_downloadedFiles (g_downloadingFilesManager (nd_g nB2))) mh"
proof -
  obtain nB1 es where o: "node_event eB eB nB (Order (download_order n (g_name gA) mh)) = Some (Inr (nB1, es))"
    "packets_to a es = [data_request (nd_g nB1) (g_name gA) mh]" "g_name (nd_g nB1) = g_name (nd_g nB)"
    "routes_to (nd_g nB1) (g_name gA) a"
    "downloading_state nB1 (g_name gA) (g_disk (nd_g nB),
       fst (StartDownloadingFromOrigin (g_downloadingFilesManager (nd_g nB)) (g_name gA) n mh), start_thread mh)"
    using download_ordered [OF assms(13,14,17), of eB eB n mh] by blast
  let ?ans = "sfm_GetChunkOrMetafile (e_sharedOrder eA (sfm_sharedFiles (g_sharedFilesManager gA))) (g_disk gA)
    (g_sharedFilesManager gA)"
  obtain fs' dfm' where f: "fetch (e_H eB) (e_chunkOrder eB) (g_name gA) ?ans 257 (g_disk (nd_g nB),
      fst (StartDownloadingFromOrigin (g_downloadingFilesManager (nd_g nB)) (g_name gA) n mh), start_thread mh) mh
      = Some (fs', dfm')"
    "node_at fs' (DownloadsPath (g_disk (nd_g nB)) @ [n]) = Some (Data bs)" "has_key (dfm_downloadedFiles dfm') mh"
    using shared_file_arrives_intact [OF assms(1-9,12,14,15,16,11)] assms(10) by metis
  have "routes_to gA (g_name (nd_g nB1)) b" using assms(18) o(3) by simp
  then obtain gA2 nB2 where "exchange eA eB a b 257 gA nB1 (data_request (nd_g nB1) (g_name gA) mh) = Some (gA2, nB2)"
    "g_disk (nd_g nB2) = fs'" "g_downloadingFilesManager (nd_g nB2) = dfm'" "g_name gA |\<notin>| fmdom (nd_downloading nB2)"
    using exchange_fetch [OF f(1) o(5,4) _ serves_shared] by blast
  then show ?thesis using that [OF o(1,2)] f(2,3) by simp
qed


section \<open>A witness\<close>

definition sharer :: Gossiper where
  "sharer = (sample ''A'' [] (fmupd ''B'' ''b:2'' fmempty))\<lparr>g_disk := shared_disk [1, 2, 3]\<rparr>"

definition downloader :: node where
  "downloader = new_node (sample ''B'' [] (fmupd ''A'' ''a:1'' fmempty))"

lemma world_sel [simp]:
  "g_disk sharer = shared_disk [1, 2, 3]" "g_sharedFilesManager sharer = no_shared" "g_name sharer = ''A''"
  "g_downloadingFilesManager sharer = no_downloads" "routes_to sharer ''B'' ''b:2''"
  "g_disk (nd_g downloader) = fresh_disk" "g_name (nd_g downloader) = ''B''"
  "g_downloadingFilesManager (nd_g downloader) = no_downloads" "routes_to (nd_g downloader) ''A'' ''a:1''"
  by (simp_all add: sharer_def downloader_def new_node_def routes_to_def nil_addr_def)


end
