(* ===== verification/Spec2Isabelle.thy ===== *)
theory Spec2Isabelle
  imports MessageStorage BlockchainProps Consensus FileProps Search SendUtils MerkleTree Routing NodeProps NodeSends
    GossiperProps Webserver Concurrency Convergence FileExchange
begin

text \<open>
  A verification development for Peerster, a peer-to-peer gossiper in Go (all paths below are
  under src/src/github.com/SubutaiBogatur/Peerster/).

  \<^bold>\<open>The program.\<close> A gossiper listens on two UDP sockets, one for the orders of a local client and
  one for the packets of other gossipers. One goroutine, the message processor, handles both
  kinds of input in turn; it keeps a store of gossiped and private messages, a routing table
  learned from rumors, the files it shares and downloads, a running search, and a chain of blocks
  in which file names are claimed. Further goroutines wait for an answer or a timer: one per peer
  that is being mongered with, one per origin that is downloaded from, one for the search, one
  that forgets a search request, one that mines, one that sends a status now and then. A web
  server reads the state and sends orders to the client socket.

  \<^bold>\<open>Ground.\<close> \<open>Prelude\<close>: the result type \<open>'a go\<close> (a value or a panic), the panics, slices, maps as
  finite maps, and generic lemmas. \<open>GoStd\<close>: the functions of the Go library that the code uses
  (decimal and hexadecimal numbers, strings, sorting). \<open>FileSystem\<close>: a disk with directories and
  files and the operations of os and ioutil on it. \<open>Config\<close>: config/. \<open>Utils\<close>: utils/Utils.go.
  \<open>Messages\<close>: models/CommunicationModels.go, every packet and order.

  \<^bold>\<open>Gossip.\<close> \<open>MessageStorage\<close>: models/MessageStorage.go, with the vector clock as a finite map of
  32-bit counters that wrap; \<open>RumorExchange\<close> is the locale of what two stores must do for an
  exchange of rumors to make progress, interpreted on \<open>Diff\<close> and \<open>AddRumorMessage\<close>. The lemmas show
  the invariant of the store over every sequence of arrivals, that \<open>Diff\<close> never reads out of
  range, and that a session ends with everything transferred.

  \<^bold>\<open>Blockchain.\<close> \<open>TransactionsSet\<close>, \<open>BlockNode\<close>, \<open>BlockchainManager\<close>, \<open>BlockchainProps\<close>:
  models/blockchain/. A set is the pointer map it is in Go (\<open>NameSet\<close> is its interface); a node
  carries the address that pointer comparison sees. The digest is an argument, and
  \<open>collision_free\<close>, that different blocks of a run have different digests, is a hypothesis. The
  lemmas show the invariant of the tree, that the tail is the deepest node, what a switch to
  another branch does to the pending claims, and where the code loses claims. \<open>Consensus\<close> compares
  two managers that know the same blocks: their histories have the same length and become equal
  with the next block. \<open>StdoutText\<close> has
  the lines that these operations, and those on files, print; the last chain printed is always
  the official one.

  \<^bold>\<open>Files.\<close> \<open>Chunking\<close>, \<open>SharedFile\<close>, \<open>SharedFilesManager\<close>, \<open>DownloadingFile\<close>,
  \<open>DownloadingFilesManager\<close>: models/filesharing/. \<open>DownloadThread\<close> is the select loop of
  startFileDownloadingGoroutine as one step per reply or timeout; \<open>FileTransfer\<close> joins a sharing
  and a downloading gossiper, and \<open>FileProps\<close> has the results: what is served has its hash, a
  finished download is the file of its hash, the fetch of a shared file ends. A fetch is given 257 replies:
  the metafile and at most 256 chunks, which is what fits the limit on the size. \<open>MerkleTree\<close>:
  models/filesharing/merkletree/, which the gossiper does not call.

  \<^bold>\<open>Search.\<close> \<open>Search\<close>: models/filesearching/ and startFileSearchingGoroutine, one step per timer
  event and reply. Without a budget the search asks with the budgets 2 to 32 and ends after 33
  timer events and 33 seconds, which bounds every run of the goroutine.

  \<^bold>\<open>The gossiper.\<close> \<open>Gossiper\<close>: the state of gossiper/Gossiper.go with its global channel maps as
  fields, NewGossiper, peers and routes. A record \<open>env\<close> holds what is outside the program or left
  open by the language: the digest, regexp, random numbers, the order in which a map is ranged
  over. \<open>Handlers\<close>: the message processor, each handler the method of the same name, returning
  the new state and the list of its effects (packets, output, sends on channels, goroutines
  started). \<open>Threads\<close>: the other goroutines and main.go. \<open>Node\<close> runs them: a gossiper with its
  waiting goroutines, its events, and the reachable states. \<open>NodeComponents\<close> shows that every run
  is a run of each component, so that the invariants above hold in every running gossiper;
  \<open>NodeWaiting\<close> and \<open>NodeProps\<close> that channels and goroutines belong together, that no packet stops a
  gossiper, and which events make it panic; \<open>NodeSends\<close> that what it sends is well-formed, goes
  to a peer, and, if a rumor, is stored; \<open>NodeRumors\<close> how an event changes the store. \<open>Routing\<close>
  has the packets that are forwarded from gossiper to gossiper: \<open>hop_limited\<close> is the contract of
  their four kinds, interpreted on their handlers. \<open>GossiperProps\<close> has the
  behaviour of single handlers, and \<open>Samples\<close> the small gossipers of the witnesses.
  \<open>Webserver\<close>: webserver/Webserver.go. \<open>SendUtils\<close>: utils/send-utils and the client.

  \<^bold>\<open>Several gossipers.\<close> \<open>Network\<close>: any number of gossipers over a transport that loses, repeats,
  delays and misroutes packets, each of them a \<open>Node\<close> with all its events except the change of its
  name. What one has stored of another is always a prefix of what the other has issued, and two that
  are in sync have the same rumors. \<open>Convergence\<close>: from every reachable network a run leads on to
  one in which all have the same rumors, in rounds of three events. \<open>FileExchange\<close>: the
  packets of a download between two neighbours, handler against handler, which refine the fetch
  of \<open>DownloadThread\<close>, so that a file that one client shares arrives for the other.

  \<^bold>\<open>Interleaving.\<close> In \<open>Node\<close> an event runs to its end before the next one starts. That the code
  guarantees this only up to its locks is the subject of \<open>Concurrency\<close>: the processor and each of
  the three goroutines it hands packets to as sequences of lock, unlock, send and receive; all
  their reachable configurations are enumerated (30 rounds of the search are enough, as the list
  is shown to be closed under steps), and the deadlocks among them characterised.

  \<^bold>\<open>Not modelled.\<close> Sockets, protobuf and JSON encoding (an encoder or decoder is an argument),
  the matching of routes by the web server's library and its static files, log output, file
  permissions, and data races on variables that the code reads without a lock, except that an attempt
  at mining gets such a read as an argument.
\<close>

end
